(* ===== verification/Prelude.thy ===== *)
theory Prelude
  imports Main "HOL-Library.Word"
begin

unbundle bit_operations_syntax

text \<open>
  Shared vocabulary of the development: the machine integer types, the memory image of an
  integer (the daemon, the client library and the driver all run on little-endian hosts and copy
  structures with \<^verbatim>\<open>memcpy\<close>), the big-endian image used by the stream framing, the return codes
  of IOKit and DriverKit calls, and the generic list lemmas the component theories use.
\<close>

section \<open>Machine integers and bytes\<close>

type_synonym u8 = "8 word"
type_synonym u16 = "16 word"
type_synonym u32 = "32 word"
type_synonym u64 = "64 word"
type_synonym bytes = "u8 list"

text \<open>
  Collections: \<open>image_simps\<close> holds the lengths of the memory images, \<open>inv_intros\<close> the
  preservation lemmas of the component invariants, \<open>frame_simps\<close> the fields an operation leaves
  alone.
\<close>

named_theorems image_simps
named_theorems inv_intros
named_theorems frame_simps

section \<open>Little-endian and big-endian images of words\<close>

primrec le_bytes :: "nat \<Rightarrow> 'a::len word \<Rightarrow> bytes" where
  "le_bytes 0 w = []"
| "le_bytes (Suc n) w = ucast w # le_bytes n (drop_bit 8 w)"

primrec le_word :: "bytes \<Rightarrow> 'a::len word" where
  "le_word [] = 0"
| "le_word (b # bs) = ucast b OR push_bit 8 (le_word bs)"

definition be_bytes :: "nat \<Rightarrow> 'a::len word \<Rightarrow> bytes" where
  "be_bytes n w = rev (le_bytes n w)"

definition be_word :: "bytes \<Rightarrow> 'a::len word" where
  "be_word bs = le_word (rev bs)"

lemma length_le_bytes [simp, image_simps]: "length (le_bytes n w) = n"
  by (induction n arbitrary: w) simp_all

lemma length_be_bytes [simp, image_simps]: "length (be_bytes n w) = n"
  by (simp add: be_bytes_def)

lemma bit_le_bytes:
  "k < n \<Longrightarrow> bit (le_bytes n w ! k) j \<longleftrightarrow> j < 8 \<and> bit w (8 * k + j)"
proof (induction n arbitrary: k w)
  case 0
  then show ?case by simp
next
  case (Suc n)
  show ?case
  proof (cases k)
    case 0
    then show ?thesis
      using bit_imp_le_length[of w j] by (auto simp: bit_simps)
  next
    case (Suc k')
    with Suc.prems have "bit (le_bytes n (drop_bit 8 w) ! k') j \<longleftrightarrow> j < 8 \<and> bit (drop_bit 8 w) (8 * k' + j)"
      by (intro Suc.IH) simp
    with Suc show ?thesis by (simp add: bit_simps ac_simps)
  qed
qed

lemma bit_le_word:
  "bit (le_word bs :: 'a::len word) i \<longleftrightarrow>
     i < LENGTH('a) \<and> i div 8 < length bs \<and> bit (bs ! (i div 8)) (i mod 8)"
proof (induction bs arbitrary: i)
  case Nil
  then show ?case by simp
next
  case (Cons b bs)
  show ?case
  proof (cases "i < 8")
    case True
    then show ?thesis by (auto simp: bit_simps)
  next
    case False
    then obtain j where j: "i = 8 + j" by (metis le_Suc_ex not_less)
    have "\<not> bit b (8 + j)" using bit_imp_le_length[of b "8 + j"] by auto
    moreover have "i div 8 = Suc (j div 8)" and "i mod 8 = j mod 8" by (simp_all add: j)
    ultimately show ?thesis
      using Cons.IH[of j] by (auto simp: j bit_simps)
  qed
qed

theorem le_word_le_bytes:
  fixes w :: "'a::len word"
  assumes "LENGTH('a) \<le> 8 * n"
  shows "le_word (le_bytes n w) = w"
proof (rule bit_word_eqI)
  fix i assume i: "i < LENGTH('a)"
  with assms have "i div 8 < n" by (simp add: div_less_iff_less_mult mult.commute)
  then show "bit (le_word (le_bytes n w) :: 'a word) i = bit w i"
    using i by (simp add: bit_le_word bit_le_bytes)
qed

theorem le_bytes_le_word:
  assumes "8 * length bs \<le> LENGTH('a)"
  shows "le_bytes (length bs) (le_word bs :: 'a::len word) = bs"
proof (rule nth_equalityI)
  show "length (le_bytes (length bs) (le_word bs :: 'a word)) = length bs" by simp
next
  fix k assume "k < length (le_bytes (length bs) (le_word bs :: 'a word))"
  then have k: "k < length bs" by simp
  show "le_bytes (length bs) (le_word bs :: 'a word) ! k = bs ! k"
  proof (rule bit_word_eqI)
    fix j :: nat assume j: "j < LENGTH(8)"
    with k assms have "8 * k + j < LENGTH('a)" by simp
    with j k show "bit (le_bytes (length bs) (le_word bs :: 'a word) ! k) j = bit (bs ! k) j"
      by (simp add: bit_le_bytes bit_le_word)
  qed
qed

lemma be_word_be_bytes: "LENGTH('a) \<le> 8 * n \<Longrightarrow> be_word (be_bytes n w) = (w :: 'a::len word)"
  by (simp add: be_word_def be_bytes_def le_word_le_bytes)

lemma le_bytes_inj: "LENGTH('a) \<le> 8 * n \<Longrightarrow> le_bytes n v = le_bytes n w \<longleftrightarrow> v = (w :: 'a::len word)"
  by (metis le_word_le_bytes)

lemma le_bytes_of_width:
  "length bs = n \<Longrightarrow> 8 * n \<le> LENGTH('a) \<Longrightarrow> le_bytes n (le_word bs :: 'a::len word) = bs"
  using le_bytes_le_word by blast

section \<open>Fixed-width codecs\<close>

text \<open>
  A structure that the programs copy with \<^verbatim>\<open>memcpy\<close> has a memory image of a fixed size, and the
  copy back reads the same structure. The locale states this for an encoder and a decoder on a set
  of well-formed values; its lemmas are what the request parsing and the report posting rest on.
\<close>

locale codec =
  fixes enc :: "'a \<Rightarrow> bytes" and dec :: "bytes \<Rightarrow> 'a" and width :: nat and wf :: "'a \<Rightarrow> bool"
  assumes enc_length: "wf x \<Longrightarrow> length (enc x) = width"
    and dec_enc: "wf x \<Longrightarrow> dec (enc x) = x"
    and enc_dec: "length bs = width \<Longrightarrow> enc (dec bs) = bs"
    and wf_dec: "length bs = width \<Longrightarrow> wf (dec bs)"
begin

lemma enc_inj: "wf x \<Longrightarrow> wf y \<Longrightarrow> enc x = enc y \<longleftrightarrow> x = y"
  by (metis dec_enc)

lemma dec_take_append: "wf x \<Longrightarrow> dec (take width (enc x @ bs)) = x"
  by (simp add: enc_length dec_enc)

lemma enc_surj: "length bs = width \<Longrightarrow> \<exists>x. wf x \<and> enc x = bs"
  using enc_dec wf_dec by blast

lemma dec_inj: "length bs = width \<Longrightarrow> length cs = width \<Longrightarrow> dec bs = dec cs \<longleftrightarrow> bs = cs"
  by (metis enc_dec)

end

interpretation u16_codec: codec "le_bytes 2 :: u16 \<Rightarrow> bytes" le_word 2 "\<lambda>_. True"
  by unfold_locales (auto simp: le_word_le_bytes le_bytes_of_width)

interpretation u32_codec: codec "le_bytes 4 :: u32 \<Rightarrow> bytes" le_word 4 "\<lambda>_. True"
  by unfold_locales (auto simp: le_word_le_bytes le_bytes_of_width)

interpretation u64_codec: codec "le_bytes 8 :: u64 \<Rightarrow> bytes" le_word 8 "\<lambda>_. True"
  by unfold_locales (auto simp: le_word_le_bytes le_bytes_of_width)

text \<open>An array of fixed-width elements: images are concatenated, and cut back into pieces.\<close>

primrec chunks :: "nat \<Rightarrow> nat \<Rightarrow> bytes \<Rightarrow> bytes list" where
  "chunks w 0 bs = []"
| "chunks w (Suc n) bs = take w bs # chunks w n (drop w bs)"

lemma length_chunks [simp]: "length (chunks w n bs) = n"
  by (induction n arbitrary: bs) simp_all

lemma chunks_concat:
  "(\<And>x. x \<in> set xs \<Longrightarrow> length x = w) \<Longrightarrow> chunks w (length xs) (concat xs) = xs"
  by (induction xs) auto

lemma concat_chunks: "length bs = w * n \<Longrightarrow> concat (chunks w n bs) = bs"
  by (induction n arbitrary: bs) auto

lemma chunks_width: "length bs = w * n \<Longrightarrow> c \<in> set (chunks w n bs) \<Longrightarrow> length c = w"
proof (induction n arbitrary: bs)
  case (Suc n)
  then show ?case using Suc.IH[of "drop w bs"] by auto
qed simp

section \<open>Return codes\<close>

text \<open>
  IOKit and DriverKit calls return a code that the sources only compare with
  \<^verbatim>\<open>kIOReturnSuccess\<close> and pass on. The constants they name are constructors; any other code of the
  operating system is \<open>kern_return_other\<close>.
\<close>

datatype kern_return =
    kIOReturnSuccess
  | kIOReturnError
  | kIOReturnNoMemory
  | kIOReturnBadArgument
  | kIOReturnUnsupported
  | kIOReturnNotOpen
  | kern_return_other u32

section \<open>Generic list lemmas\<close>

lemma list_update_map_hit:
  "i < length xs \<Longrightarrow> (\<And>j. j < length xs \<Longrightarrow> j \<noteq> i \<Longrightarrow> f (xs ! j) = xs ! j) \<Longrightarrow>
    xs[i := f (xs ! i)] = map f xs"
  by (rule nth_equalityI) (auto simp: nth_list_update)

lemma length_filter_list_update:
  "i < length xs \<Longrightarrow> \<not> P (xs ! i) \<Longrightarrow> P x \<Longrightarrow> length (filter P (xs[i := x])) = Suc (length (filter P xs))"
proof (induction xs arbitrary: i)
  case Nil
  then show ?case by simp
next
  case (Cons a xs)
  then show ?case by (cases i) auto
qed

text \<open>The elements behind the last occurrence of an element, last one first.\<close>

definition after_last :: "'a \<Rightarrow> 'a list \<Rightarrow> 'a list" where
  "after_last x xs = takeWhile (\<lambda>y. y \<noteq> x) (rev xs)"

lemma after_last_append:
  "after_last x (xs @ ys) = (if x \<in> set ys then after_last x ys else rev ys @ after_last x xs)"
  by (auto simp: after_last_def takeWhile_append)

lemma after_last_Cons: "x \<in> set ys \<Longrightarrow> after_last x (y # ys) = after_last x ys"
  by (auto simp: after_last_def takeWhile_append)

lemma after_last_hit: "x \<notin> set ys \<Longrightarrow> set (after_last x (x # ys)) = set ys"
  by (auto simp: after_last_def takeWhile_append)

lemma after_last_subset: "set (after_last x xs) \<subseteq> set xs"
  using set_takeWhileD[of _ _ "rev xs"] by (auto simp: after_last_def)

section \<open>Invariants of step relations\<close>

text \<open>
  The components that run as interleaved closures are step relations. An invariant is a predicate that
  the initial states have and every step keeps; the locale carries it to all reachable states, so a
  component only shows the two laws.
\<close>

definition reaches :: "('s \<Rightarrow> bool) \<Rightarrow> ('s \<Rightarrow> 's \<Rightarrow> bool) \<Rightarrow> 's \<Rightarrow> bool" where
  "reaches initial step s \<longleftrightarrow> (\<exists>s0. initial s0 \<and> rtranclp step s0 s)"

lemma reaches_init: "initial s \<Longrightarrow> reaches initial step s"
  by (auto simp: reaches_def)

lemma reaches_step: "reaches initial step s \<Longrightarrow> step s t \<Longrightarrow> reaches initial step t"
  by (auto simp: reaches_def intro: rtranclp.rtrancl_into_rtrancl)

locale step_invariant =
  fixes step :: "'s \<Rightarrow> 's \<Rightarrow> bool" and initial :: "'s \<Rightarrow> bool" and inv :: "'s \<Rightarrow> bool"
  assumes initial: "initial s \<Longrightarrow> inv s"
    and step: "step s t \<Longrightarrow> inv s \<Longrightarrow> inv t"
begin

lemma preserved: "rtranclp step s t \<Longrightarrow> inv s \<Longrightarrow> inv t"
  by (induction rule: rtranclp_induct) (auto intro: step)

lemma reachable: "initial s \<Longrightarrow> rtranclp step s t \<Longrightarrow> inv t"
  using preserved initial by blast

lemma reaches_inv: "reaches initial step s \<Longrightarrow> inv s"
  using reachable by (auto simp: reaches_def)

end

text \<open>
  A concrete machine with an invariant implements an abstract one: each of its steps is an abstract step or
  changes nothing the abstraction sees. Abstract invariants then hold of the concrete runs.
\<close>

locale refinement = step_invariant step initial inv + abstract: step_invariant astep ainitial ainv
  for step :: "'s \<Rightarrow> 's \<Rightarrow> bool" and initial :: "'s \<Rightarrow> bool" and inv :: "'s \<Rightarrow> bool"
    and astep :: "'a \<Rightarrow> 'a \<Rightarrow> bool" and ainitial :: "'a \<Rightarrow> bool" and ainv :: "'a \<Rightarrow> bool" +
  fixes abs :: "'s \<Rightarrow> 'a"
  assumes abs_initial: "initial s \<Longrightarrow> ainitial (abs s)"
    and abs_step: "step s t \<Longrightarrow> inv s \<Longrightarrow> abs t = abs s \<or> astep (abs s) (abs t)"
begin

lemma abs_run: "rtranclp step s t \<Longrightarrow> inv s \<Longrightarrow> rtranclp astep (abs s) (abs t)"
proof (induction rule: rtranclp_induct)
  case (step t u)
  then show ?case using abs_step[OF step(2) preserved[OF step(1,4)]] by (metis rtranclp.rtrancl_into_rtrancl)
qed simp

lemma abs_reachable: "initial s \<Longrightarrow> rtranclp step s t \<Longrightarrow> ainv (abs t)"
  using abs_run initial abs_initial abstract.reachable by blast

end

text \<open>Counters that wrap around are told apart as long as they count less than their range.\<close>

lemma unat_of_nat_less: "n < 2 ^ LENGTH('a) \<Longrightarrow> unat (of_nat n :: 'a::len word) = n"
  by (simp add: unsigned_of_nat take_bit_nat_eq_self)

lemma of_nat_word_inj:
  assumes "m < 2 ^ LENGTH('a)" "n < 2 ^ LENGTH('a)"
  shows "(of_nat m :: 'a::len word) = of_nat n \<longleftrightarrow> m = n"
proof
  assume "(of_nat m :: 'a word) = of_nat n"
  from arg_cong[OF this, of unat] show "m = n"
    unfolding unat_of_nat_less[OF assms(1)] unat_of_nat_less[OF assms(2)] .
qed simp

end
