(* ===== verification/Hid_Report.thy ===== *)
theory Hid_Report
  imports Prelude
begin

text \<open>
  The HID reports of \<^verbatim>\<open>virtual_hid_device_driver/hid_report/*.hpp\<close>: the three containers of
  pressed elements (\<^verbatim>\<open>modifiers\<close>, \<^verbatim>\<open>buttons\<close>, \<^verbatim>\<open>keys\<close>), the report classes built from them and the
  memory image each report is sent as. The locale \<open>pressed_set\<close> states what the three containers
  promise; it is interpreted on all three.
\<close>

section \<open>Modifiers\<close>

datatype modifier =
    left_control | left_shift | left_option | left_command
  | right_control | right_shift | right_option | right_command

primrec modifier_value :: "modifier \<Rightarrow> u8" where
  "modifier_value left_control = push_bit 0 1"
| "modifier_value left_shift = push_bit 1 1"
| "modifier_value left_option = push_bit 2 1"
| "modifier_value left_command = push_bit 3 1"
| "modifier_value right_control = push_bit 4 1"
| "modifier_value right_shift = push_bit 5 1"
| "modifier_value right_option = push_bit 6 1"
| "modifier_value right_command = push_bit 7 1"

record modifiers =
  modifiers_raw :: u8

definition modifiers_init :: modifiers where
  "modifiers_init = \<lparr>modifiers_raw = 0\<rparr>"

definition modifiers_empty :: "modifiers \<Rightarrow> bool" where
  "modifiers_empty m \<longleftrightarrow> modifiers_raw m = 0"

definition modifiers_clear :: "modifiers \<Rightarrow> modifiers" where
  "modifiers_clear m = m\<lparr>modifiers_raw := 0\<rparr>"

definition modifiers_insert :: "modifier \<Rightarrow> modifiers \<Rightarrow> modifiers" where
  "modifiers_insert v m = m\<lparr>modifiers_raw := modifiers_raw m OR modifier_value v\<rparr>"

definition modifiers_erase :: "modifier \<Rightarrow> modifiers \<Rightarrow> modifiers" where
  "modifiers_erase v m = m\<lparr>modifiers_raw := modifiers_raw m AND NOT (modifier_value v)\<rparr>"

definition modifiers_exists :: "modifier \<Rightarrow> modifiers \<Rightarrow> bool" where
  "modifiers_exists v m \<longleftrightarrow> modifiers_raw m AND modifier_value v \<noteq> 0"

section \<open>Buttons\<close>

record buttons =
  buttons_raw :: u32

definition buttons_init :: buttons where
  "buttons_init = \<lparr>buttons_raw = 0\<rparr>"

definition buttons_empty :: "buttons \<Rightarrow> bool" where
  "buttons_empty b \<longleftrightarrow> buttons_raw b = 0"

definition buttons_clear :: "buttons \<Rightarrow> buttons" where
  "buttons_clear b = b\<lparr>buttons_raw := 0\<rparr>"

definition buttons_insert :: "u8 \<Rightarrow> buttons \<Rightarrow> buttons" where
  "buttons_insert button b =
     (if 1 \<le> button \<and> button \<le> 32
      then b\<lparr>buttons_raw := buttons_raw b OR push_bit (unat button - 1) 1\<rparr> else b)"

definition buttons_erase :: "u8 \<Rightarrow> buttons \<Rightarrow> buttons" where
  "buttons_erase button b =
     (if 1 \<le> button \<and> button \<le> 32
      then b\<lparr>buttons_raw := buttons_raw b AND NOT (push_bit (unat button - 1) 1)\<rparr> else b)"

definition buttons_exists :: "u8 \<Rightarrow> buttons \<Rightarrow> bool" where
  "buttons_exists button b \<longleftrightarrow>
     (if 1 \<le> button \<and> button \<le> 32
      then buttons_raw b AND push_bit (unat button - 1) 1 \<noteq> 0 else False)"

section \<open>Keys\<close>

record keys =
  keys_raw :: "u16 list"

definition keys_init :: keys where
  "keys_init = \<lparr>keys_raw = replicate 32 0\<rparr>"

text \<open>\<open>empty\<close>, \<open>exists\<close> and \<open>count\<close> scan the 32 slots.\<close>

primrec all_zero :: "u16 list \<Rightarrow> bool" where
  "all_zero [] = True"
| "all_zero (k # ks) = (if k \<noteq> 0 then False else all_zero ks)"

definition keys_empty :: "keys \<Rightarrow> bool" where
  "keys_empty ks = all_zero (keys_raw ks)"

definition keys_clear :: "keys \<Rightarrow> keys" where
  "keys_clear ks = ks\<lparr>keys_raw := map (\<lambda>_. 0) (keys_raw ks)\<rparr>"

primrec has_key :: "u16 \<Rightarrow> u16 list \<Rightarrow> bool" where
  "has_key key [] = False"
| "has_key key (k # ks) = (if k = key then True else has_key key ks)"

definition keys_exists :: "u16 \<Rightarrow> keys \<Rightarrow> bool" where
  "keys_exists key ks = has_key key (keys_raw ks)"

text \<open>The first empty slot takes the key; a full table drops it.\<close>

primrec fill_first :: "u16 \<Rightarrow> u16 list \<Rightarrow> u16 list" where
  "fill_first key [] = []"
| "fill_first key (k # ks) = (if k = 0 then key # ks else k # fill_first key ks)"

definition keys_insert :: "u16 \<Rightarrow> keys \<Rightarrow> keys" where
  "keys_insert key ks =
     (if \<not> keys_exists key ks then ks\<lparr>keys_raw := fill_first key (keys_raw ks)\<rparr> else ks)"

definition keys_erase :: "u16 \<Rightarrow> keys \<Rightarrow> keys" where
  "keys_erase key ks = ks\<lparr>keys_raw := map (\<lambda>k. if k = key then 0 else k) (keys_raw ks)\<rparr>"

primrec count_keys :: "u16 list \<Rightarrow> nat" where
  "count_keys [] = 0"
| "count_keys (k # ks) = (if k \<noteq> 0 then Suc (count_keys ks) else count_keys ks)"

definition keys_count :: "keys \<Rightarrow> nat" where
  "keys_count ks = count_keys (keys_raw ks)"

section \<open>Report classes and their memory images\<close>

text \<open>All classes are packed: the image is the fields in order.\<close>

record keyboard_input =
  ki_report_id :: u8
  ki_modifiers :: modifiers
  ki_reserved :: u8
  ki_keys :: keys

definition keyboard_input_init :: keyboard_input where
  "keyboard_input_init =
     \<lparr>ki_report_id = 1, ki_modifiers = modifiers_init, ki_reserved = 0, ki_keys = keys_init\<rparr>"

text \<open>
  \<^verbatim>\<open>consumer_input\<close>, \<^verbatim>\<open>apple_vendor_keyboard_input\<close>, \<^verbatim>\<open>apple_vendor_top_case_input\<close> and
  \<^verbatim>\<open>generic_desktop_input\<close> have the same two fields and differ in the report id their constructor
  stores.
\<close>

record keys_input =
  kx_report_id :: u8
  kx_keys :: keys

definition consumer_input_init :: keys_input where
  "consumer_input_init = \<lparr>kx_report_id = 2, kx_keys = keys_init\<rparr>"

definition apple_vendor_top_case_input_init :: keys_input where
  "apple_vendor_top_case_input_init = \<lparr>kx_report_id = 3, kx_keys = keys_init\<rparr>"

definition apple_vendor_keyboard_input_init :: keys_input where
  "apple_vendor_keyboard_input_init = \<lparr>kx_report_id = 4, kx_keys = keys_init\<rparr>"

definition generic_desktop_input_init :: keys_input where
  "generic_desktop_input_init = \<lparr>kx_report_id = 7, kx_keys = keys_init\<rparr>"

record pointing_input =
  pi_buttons :: buttons
  pi_x :: u8
  pi_y :: u8
  pi_vertical_wheel :: u8
  pi_horizontal_wheel :: u8

definition pointing_input_init :: pointing_input where
  "pointing_input_init =
     \<lparr>pi_buttons = buttons_init, pi_x = 0, pi_y = 0, pi_vertical_wheel = 0, pi_horizontal_wheel = 0\<rparr>"

definition keys_image :: "keys \<Rightarrow> bytes" where
  "keys_image ks = concat (map (le_bytes 2) (keys_raw ks))"

definition keyboard_input_image :: "keyboard_input \<Rightarrow> bytes" where
  "keyboard_input_image r =
     [ki_report_id r, modifiers_raw (ki_modifiers r), ki_reserved r] @ keys_image (ki_keys r)"

definition keys_input_image :: "keys_input \<Rightarrow> bytes" where
  "keys_input_image r = kx_report_id r # keys_image (kx_keys r)"

definition pointing_input_image :: "pointing_input \<Rightarrow> bytes" where
  "pointing_input_image r =
     le_bytes 4 (buttons_raw (pi_buttons r)) @
     [pi_x r, pi_y r, pi_vertical_wheel r, pi_horizontal_wheel r]"

text \<open>\<^verbatim>\<open>operator==\<close> of every report class compares the images with \<^verbatim>\<open>memcmp\<close>.\<close>

definition keyboard_input_eq :: "keyboard_input \<Rightarrow> keyboard_input \<Rightarrow> bool" where
  "keyboard_input_eq a b \<longleftrightarrow> keyboard_input_image a = keyboard_input_image b"

definition keys_input_eq :: "keys_input \<Rightarrow> keys_input \<Rightarrow> bool" where
  "keys_input_eq a b \<longleftrightarrow> keys_input_image a = keys_input_image b"

definition pointing_input_eq :: "pointing_input \<Rightarrow> pointing_input \<Rightarrow> bool" where
  "pointing_input_eq a b \<longleftrightarrow> pointing_input_image a = pointing_input_image b"

text \<open>\<^verbatim>\<open>sizeof\<close> of the report classes.\<close>

definition sizeof_keyboard_input :: nat where "sizeof_keyboard_input = 67"
definition sizeof_keys_input :: nat where "sizeof_keys_input = 65"
definition sizeof_pointing_input :: nat where "sizeof_pointing_input = 8"

text \<open>A C++ array of 32 slots always has 32 slots.\<close>

definition keys_shape :: "keys \<Rightarrow> bool" where
  "keys_shape ks \<longleftrightarrow> length (keys_raw ks) = 32"

text \<open>The invariant of \<^verbatim>\<open>keys\<close>: no key is held in two slots.\<close>

definition keys_wf :: "keys \<Rightarrow> bool" where
  "keys_wf ks \<longleftrightarrow> keys_shape ks \<and> distinct (filter (\<lambda>k. k \<noteq> 0) (keys_raw ks))"

text \<open>The set of elements a container holds.\<close>

definition modifiers_set :: "modifiers \<Rightarrow> modifier set" where
  "modifiers_set m = {v. modifiers_exists v m}"

definition button_ok :: "u8 \<Rightarrow> bool" where
  "button_ok b \<longleftrightarrow> 1 \<le> b \<and> b \<le> 32"

definition buttons_set :: "buttons \<Rightarrow> u8 set" where
  "buttons_set b = {x. button_ok x \<and> bit (buttons_raw b) (unat x - 1)}"

definition keys_set :: "keys \<Rightarrow> u16 set" where
  "keys_set ks = set (keys_raw ks) - {0}"

section \<open>The contract of the containers\<close>

datatype 'e press = Press 'e | Release 'e

primrec apply_presses :: "('e \<Rightarrow> 'c \<Rightarrow> 'c) \<Rightarrow> ('e \<Rightarrow> 'c \<Rightarrow> 'c) \<Rightarrow> 'e press list \<Rightarrow> 'c \<Rightarrow> 'c" where
  "apply_presses ins ers [] c = c"
| "apply_presses ins ers (p # ps) c =
     apply_presses ins ers ps (case p of Press x \<Rightarrow> ins x c | Release x \<Rightarrow> ers x c)"

text \<open>The specification: the set of elements pressed and not yet released.\<close>

primrec held :: "'e press list \<Rightarrow> 'e set \<Rightarrow> 'e set" where
  "held [] A = A"
| "held (p # ps) A = held ps (case p of Press x \<Rightarrow> insert x A | Release x \<Rightarrow> A - {x})"

text \<open>At no point of the sequence are more than \<open>cap\<close> elements held, and all are valid.\<close>

primrec fits :: "('e \<Rightarrow> bool) \<Rightarrow> nat \<Rightarrow> 'e press list \<Rightarrow> 'e set \<Rightarrow> bool" where
  "fits ok cap [] A = True"
| "fits ok cap (p # ps) A =
     (case p of
        Press x \<Rightarrow> ok x \<and> card (insert x A) \<le> cap \<and> fits ok cap ps (insert x A)
      | Release x \<Rightarrow> ok x \<and> fits ok cap ps (A - {x}))"

locale pressed_set =
  fixes emp :: 'c
    and ins :: "'e \<Rightarrow> 'c \<Rightarrow> 'c"
    and ers :: "'e \<Rightarrow> 'c \<Rightarrow> 'c"
    and exs :: "'e \<Rightarrow> 'c \<Rightarrow> bool"
    and clr :: "'c \<Rightarrow> 'c"
    and is_emp :: "'c \<Rightarrow> bool"
    and elems :: "'c \<Rightarrow> 'e set"
    and invar :: "'c \<Rightarrow> bool"
    and ok :: "'e \<Rightarrow> bool"
    and cap :: nat
  assumes invar_emp: "invar emp"
    and invar_ins: "invar c \<Longrightarrow> invar (ins x c)"
    and invar_ers: "invar c \<Longrightarrow> invar (ers x c)"
    and elems_emp: "elems emp = {}"
    and clr_emp: "invar c \<Longrightarrow> clr c = emp"
    and finite_elems: "invar c \<Longrightarrow> finite (elems c)"
    and card_elems: "invar c \<Longrightarrow> card (elems c) \<le> cap"
    and elems_ins: "invar c \<Longrightarrow> ok x \<Longrightarrow> card (insert x (elems c)) \<le> cap \<Longrightarrow>
           elems (ins x c) = insert x (elems c)"
    and ins_full: "invar c \<Longrightarrow> cap < card (insert x (elems c)) \<Longrightarrow> ins x c = c"
    and elems_ers: "invar c \<Longrightarrow> ok x \<Longrightarrow> elems (ers x c) = elems c - {x}"
    and ins_not_ok: "invar c \<Longrightarrow> \<not> ok x \<Longrightarrow> ins x c = c"
    and ers_not_ok: "invar c \<Longrightarrow> \<not> ok x \<Longrightarrow> ers x c = c"
    and exs_elems: "invar c \<Longrightarrow> ok x \<Longrightarrow> exs x c \<longleftrightarrow> x \<in> elems c"
    and is_emp_elems: "invar c \<Longrightarrow> is_emp c \<longleftrightarrow> elems c = {}"
begin

lemma invar_apply: "invar c \<Longrightarrow> invar (apply_presses ins ers ps c)"
  by (induction ps arbitrary: c) (auto intro: invar_ins invar_ers split: press.split)

lemma apply_held:
  "invar c \<Longrightarrow> fits ok cap ps (elems c) \<Longrightarrow> elems (apply_presses ins ers ps c) = held ps (elems c)"
proof (induction ps arbitrary: c)
  case Nil
  then show ?case by simp
next
  case (Cons p ps)
  then show ?case
    by (cases p) (simp_all add: elems_ins elems_ers invar_ins invar_ers)
qed

lemma apply_from_empty:
  assumes "fits ok cap ps {}"
  shows "elems (apply_presses ins ers ps emp) = held ps {}"
  using apply_held[OF invar_emp, of ps] assms by (simp add: elems_emp)

lemma exs_run:
  assumes "fits ok cap ps {}" and "ok x"
  shows "exs x (apply_presses ins ers ps emp) \<longleftrightarrow> x \<in> held ps {}"
  using assms by (simp add: exs_elems invar_apply invar_emp apply_from_empty)

lemma card_run: "card (elems (apply_presses ins ers ps emp)) \<le> cap"
  by (rule card_elems[OF invar_apply[OF invar_emp]])

lemma ins_ers: "invar c \<Longrightarrow> ok x \<Longrightarrow> x \<notin> elems c \<Longrightarrow> elems (ers x (ins x c)) = elems c"
  by (cases "card (insert x (elems c)) \<le> cap")
    (simp_all add: elems_ins elems_ers invar_ins ins_full not_le)

lemma ins_twice: "invar c \<Longrightarrow> elems (ins x (ins x c)) = elems (ins x c)"
  by (cases "ok x"; cases "card (insert x (elems c)) \<le> cap")
    (auto simp: ins_not_ok invar_ins elems_ins ins_full not_le)

end

section \<open>The containers keep the contract\<close>

primrec modifier_bit :: "modifier \<Rightarrow> nat" where
  "modifier_bit left_control = 0"
| "modifier_bit left_shift = 1"
| "modifier_bit left_option = 2"
| "modifier_bit left_command = 3"
| "modifier_bit right_control = 4"
| "modifier_bit right_shift = 5"
| "modifier_bit right_option = 6"
| "modifier_bit right_command = 7"

lemma modifier_value_eq: "modifier_value v = push_bit (modifier_bit v) 1"
  by (cases v) simp_all

lemma modifier_bit_less: "modifier_bit v < 8"
  by (cases v) simp_all

lemma modifier_bit_inj: "modifier_bit v = modifier_bit w \<longleftrightarrow> v = w"
  by (cases v; cases w) simp_all

lemma modifier_bit_surj: "n < 8 \<Longrightarrow> \<exists>v. modifier_bit v = n"
proof -
  assume "n < 8"
  then have "n \<in> {0, 1, 2, 3, 4, 5, 6, 7}" by auto
  then show ?thesis
    using modifier_bit.simps by (elim insertE emptyE) blast+
qed

lemma modifiers_exists_bit: "modifiers_exists v m \<longleftrightarrow> bit (modifiers_raw m) (modifier_bit v)"
  by (simp add: modifiers_exists_def modifier_value_eq bit_iff_and_push_bit_not_eq_0)

lemma modifiers_set_insert: "modifiers_set (modifiers_insert v m) = insert v (modifiers_set m)"
  using modifier_bit_less
  by (auto simp: modifiers_set_def modifiers_exists_bit modifiers_insert_def modifier_value_eq
      bit_simps modifier_bit_inj)

lemma modifiers_set_erase: "modifiers_set (modifiers_erase v m) = modifiers_set m - {v}"
  using modifier_bit_less
  by (auto simp: modifiers_set_def modifiers_exists_bit modifiers_erase_def modifier_value_eq
      bit_simps modifier_bit_inj)

lemma modifiers_zero_iff: "modifiers_raw m = 0 \<longleftrightarrow> modifiers_set m = {}"
proof
  assume "modifiers_set m = {}"
  then have "\<not> bit (modifiers_raw m) n" if "n < 8" for n
    using modifier_bit_surj[OF that] by (auto simp: modifiers_set_def modifiers_exists_bit)
  then show "modifiers_raw m = 0" by (auto intro: bit_word_eqI)
qed (simp add: modifiers_set_def modifiers_exists_bit)

lemma UNIV_modifier: "(UNIV :: modifier set) = {left_control, left_shift, left_option, left_command,
    right_control, right_shift, right_option, right_command}"
  by (auto intro: modifier.exhaust)

lemma card_modifiers: "finite (A :: modifier set)" "card (A :: modifier set) \<le> 8"
proof -
  have fin: "finite (UNIV :: modifier set)" by (simp add: UNIV_modifier)
  then show "finite A" by (rule finite_subset[rotated]) simp
  have "card A \<le> card (UNIV :: modifier set)" by (rule card_mono[OF fin]) simp
  also have "card (UNIV :: modifier set) = 8" by (simp add: UNIV_modifier)
  finally show "card A \<le> 8" .
qed

lemma modifiers_set_init: "modifiers_set modifiers_init = {}"
  by (simp add: modifiers_zero_iff[symmetric] modifiers_init_def)

lemma modifiers_clear_init: "modifiers_clear m = modifiers_init"
  by (simp add: modifiers_clear_def modifiers_init_def)

lemma modifiers_exists_set: "modifiers_exists v m \<longleftrightarrow> v \<in> modifiers_set m"
  by (simp add: modifiers_set_def)

interpretation mods: pressed_set modifiers_init modifiers_insert modifiers_erase modifiers_exists
  modifiers_clear modifiers_empty modifiers_set "\<lambda>_. True" "\<lambda>_. True" 8
  by unfold_locales
    (simp_all add: modifiers_set_insert modifiers_set_erase card_modifiers modifiers_set_init
      modifiers_clear_init modifiers_empty_def modifiers_zero_iff modifiers_exists_set leD)

lemma button_bit:
  "button_ok x \<Longrightarrow> unat x - Suc 0 < 32"
  by (auto simp: button_ok_def word_le_nat_alt)

lemma button_bit_inj:
  "button_ok x \<Longrightarrow> button_ok y \<Longrightarrow> unat x - 1 = unat y - 1 \<longleftrightarrow> x = y"
  by (auto simp: button_ok_def word_le_nat_alt word_unat_eq_iff)

lemma buttons_set_insert: "button_ok x \<Longrightarrow> buttons_set (buttons_insert x b) = insert x (buttons_set b)"
  using button_bit button_bit_inj
  by (auto simp: buttons_set_def buttons_insert_def button_ok_def[symmetric] bit_simps)

lemma buttons_set_erase: "button_ok x \<Longrightarrow> buttons_set (buttons_erase x b) = buttons_set b - {x}"
  using button_bit button_bit_inj
  by (auto simp: buttons_set_def buttons_erase_def button_ok_def[symmetric] bit_simps)

lemma buttons_exists_set: "buttons_exists x b \<longleftrightarrow> x \<in> buttons_set b"
  by (auto simp: buttons_set_def buttons_exists_def button_ok_def bit_iff_and_push_bit_not_eq_0)

lemma buttons_zero_iff: "buttons_raw b = 0 \<longleftrightarrow> buttons_set b = {}"
proof
  assume e: "buttons_set b = {}"
  have "\<not> bit (buttons_raw b) n" if "n < 32" for n
  proof -
    let ?x = "of_nat (Suc n) :: u8"
    have u: "unat ?x = Suc n" using that by (simp only: unat_of_nat) simp
    then have "button_ok ?x" using that by (simp only: button_ok_def word_le_nat_alt) simp
    moreover have "?x \<notin> buttons_set b" using e by simp
    ultimately show ?thesis using u by (simp add: buttons_set_def)
  qed
  then show "buttons_raw b = 0" by (auto intro: bit_word_eqI)
qed (simp add: buttons_set_def)

lemma card_buttons: "card (buttons_set b) \<le> 32" "finite (buttons_set b)"
proof -
  have inj: "inj_on (\<lambda>x. unat x - 1) (buttons_set b)"
    by (rule inj_onI) (simp only: buttons_set_def mem_Collect_eq button_bit_inj)
  have "(\<lambda>x. unat x - 1) ` buttons_set b \<subseteq> {..<32}"
    by (auto simp: buttons_set_def button_bit)
  from card_inj_on_le[OF inj this] show "card (buttons_set b) \<le> 32" by simp
  show "finite (buttons_set b)" by simp
qed

lemma buttons_insert_full:
  assumes "32 < card (insert x (buttons_set b))"
  shows "buttons_insert x b = b"
proof (cases "button_ok x")
  case True
  then have "card (insert x (buttons_set b)) \<le> 32"
    using card_buttons(1)[of "buttons_insert x b"] by (simp add: buttons_set_insert)
  with assms show ?thesis by simp
qed (auto simp: buttons_insert_def button_ok_def)

lemma buttons_set_init: "buttons_set buttons_init = {}"
  by (simp add: buttons_zero_iff[symmetric] buttons_init_def)

lemma buttons_clear_init: "buttons_clear b = buttons_init"
  by (simp add: buttons_clear_def buttons_init_def)

lemma buttons_insert_not_ok: "\<not> button_ok x \<Longrightarrow> buttons_insert x b = b"
  by (auto simp: buttons_insert_def button_ok_def)

lemma buttons_erase_not_ok: "\<not> button_ok x \<Longrightarrow> buttons_erase x b = b"
  by (auto simp: buttons_erase_def button_ok_def)

interpretation btns: pressed_set buttons_init buttons_insert buttons_erase buttons_exists
  buttons_clear buttons_empty buttons_set "\<lambda>_. True" button_ok 32
  by unfold_locales
    (simp_all add: buttons_set_insert buttons_set_erase card_buttons buttons_exists_set
      buttons_empty_def buttons_zero_iff buttons_insert_full buttons_clear_init buttons_set_init
      buttons_insert_not_ok buttons_erase_not_ok)

text \<open>\<^verbatim>\<open>keys\<close>: the loops in terms of sets and filters.\<close>

lemma all_zero_iff: "all_zero ks \<longleftrightarrow> (\<forall>k\<in>set ks. k = 0)"
  by (induction ks) auto

lemma has_key_iff: "has_key key ks \<longleftrightarrow> key \<in> set ks"
  by (induction ks) auto

lemma count_keys_filter: "count_keys ks = length (filter (\<lambda>k. k \<noteq> 0) ks)"
  by (induction ks) auto

lemma length_fill_first [simp]: "length (fill_first key ks) = length ks"
  by (induction ks) auto

lemma fill_first_full: "0 \<notin> set ks \<Longrightarrow> fill_first key ks = ks"
  by (induction ks) auto

lemma set_fill_first: "0 \<in> set ks \<Longrightarrow> set (fill_first key ks) - {0} = insert key (set ks) - {0}"
  by (induction ks) auto

lemma distinct_fill_first:
  "key \<notin> set ks \<Longrightarrow> distinct (filter (\<lambda>k. k \<noteq> 0) ks) \<Longrightarrow>
     distinct (filter (\<lambda>k. k \<noteq> 0) (fill_first key ks))"
proof (induction ks)
  case (Cons k ks)
  have "set (fill_first key ks) \<subseteq> insert key (set ks)" by (induction ks) auto
  with Cons show ?case by auto
qed simp

lemma distinct_erase:
  "distinct (filter (\<lambda>k. k \<noteq> 0) ks) \<Longrightarrow>
     distinct (filter (\<lambda>k. k \<noteq> 0) (map (\<lambda>k. if k = key then 0 else k) ks))"
  by (induction ks) (auto split: if_splits)

lemma keys_count_card: "keys_wf ks \<Longrightarrow> keys_count ks = card (keys_set ks)"
proof -
  assume "keys_wf ks"
  then have "card (set (filter (\<lambda>k. k \<noteq> 0) (keys_raw ks))) = length (filter (\<lambda>k. k \<noteq> 0) (keys_raw ks))"
    by (intro distinct_card) (simp add: keys_wf_def)
  moreover have "set (filter (\<lambda>k. k \<noteq> 0) (keys_raw ks)) = keys_set ks"
    by (auto simp: keys_set_def)
  ultimately show ?thesis by (simp add: keys_count_def count_keys_filter)
qed

lemma keys_count_le: "keys_shape ks \<Longrightarrow> keys_count ks \<le> 32"
  unfolding keys_count_def count_keys_filter keys_shape_def
  by (metis length_filter_le)

lemma keys_room_iff: "keys_wf ks \<Longrightarrow> 0 \<in> set (keys_raw ks) \<longleftrightarrow> card (keys_set ks) < 32"
proof -
  assume wf: "keys_wf ks"
  have "0 \<notin> set (keys_raw ks) \<longleftrightarrow> filter (\<lambda>k. k \<noteq> 0) (keys_raw ks) = keys_raw ks"
    by (auto simp: filter_id_conv)
  also have "\<dots> \<longleftrightarrow> length (filter (\<lambda>k. k \<noteq> 0) (keys_raw ks)) = length (keys_raw ks)"
    by (metis length_filter_less filter_id_conv less_irrefl)
  also have "\<dots> \<longleftrightarrow> \<not> card (keys_set ks) < 32"
    using wf keys_count_card[OF wf] keys_count_le[of ks]
    by (auto simp: keys_wf_def keys_shape_def keys_count_def count_keys_filter)
  finally show ?thesis by blast
qed

lemma keys_wf_init: "keys_wf keys_init"
  by (simp add: keys_wf_def keys_shape_def keys_init_def)

lemma keys_set_init: "keys_set keys_init = {}"
  by (auto simp: keys_set_def keys_init_def)

lemma keys_wf_insert: "keys_wf ks \<Longrightarrow> keys_wf (keys_insert key ks)"
  by (auto simp: keys_wf_def keys_shape_def keys_insert_def keys_exists_def has_key_iff distinct_fill_first)

lemma keys_wf_erase: "keys_wf ks \<Longrightarrow> keys_wf (keys_erase key ks)"
  by (simp add: keys_wf_def keys_shape_def keys_erase_def distinct_erase)

lemma keys_set_erase: "key \<noteq> 0 \<Longrightarrow> keys_set (keys_erase key ks) = keys_set ks - {key}"
  by (auto simp: keys_set_def keys_erase_def)

lemma keys_erase_zero: "keys_erase 0 ks = ks"
proof -
  have "map (\<lambda>k. if k = 0 then 0 else k) (keys_raw ks) = keys_raw ks"
    by (rule map_idI) simp
  then show ?thesis by (simp add: keys_erase_def)
qed

lemma keys_insert_zero: "keys_insert 0 ks = ks"
  by (simp add: keys_insert_def keys_exists_def has_key_iff fill_first_full)

lemma keys_exists_set: "key \<noteq> 0 \<Longrightarrow> keys_exists key ks \<longleftrightarrow> key \<in> keys_set ks"
  by (simp add: keys_exists_def has_key_iff keys_set_def)

lemma keys_set_insert:
  assumes "keys_wf ks" "key \<noteq> 0" "card (insert key (keys_set ks)) \<le> 32"
  shows "keys_set (keys_insert key ks) = insert key (keys_set ks)"
proof (cases "key \<in> keys_set ks")
  case True
  with assms(2) show ?thesis by (auto simp: keys_insert_def keys_exists_set)
next
  case False
  then have "card (keys_set ks) < 32" using assms(3) by (simp add: keys_set_def)
  with assms(1) have "0 \<in> set (keys_raw ks)" by (simp add: keys_room_iff)
  with False assms(2) show ?thesis
    by (auto simp: keys_insert_def keys_exists_set set_fill_first keys_set_def)
qed

lemma keys_insert_full:
  assumes "keys_wf ks" "32 < card (insert key (keys_set ks))"
  shows "keys_insert key ks = ks"
proof -
  have fin: "finite (keys_set ks)" by (simp add: keys_set_def)
  have "card (keys_set ks) \<le> 32"
    using keys_count_card[OF assms(1)] keys_count_le[of ks] assms(1) by (simp add: keys_wf_def)
  with assms(2) fin have "\<not> card (keys_set ks) < 32"
    by (metis Suc_leI card_insert_if leD)
  with assms(1) have "0 \<notin> set (keys_raw ks)" by (simp add: keys_room_iff)
  then show ?thesis by (simp add: keys_insert_def fill_first_full)
qed

lemma keys_clear_init: "keys_shape ks \<Longrightarrow> keys_clear ks = keys_init"
  by (simp add: keys_clear_def keys_init_def keys_shape_def map_replicate_const)

lemma keys_empty_set: "keys_empty ks \<longleftrightarrow> keys_set ks = {}"
  by (auto simp: keys_empty_def all_zero_iff keys_set_def)

lemma finite_keys_set: "finite (keys_set ks)"
  by (simp add: keys_set_def)

interpretation kys: pressed_set keys_init keys_insert keys_erase keys_exists keys_clear keys_empty
  keys_set keys_wf "\<lambda>k. k \<noteq> 0" 32
proof unfold_locales
  fix c assume "keys_wf c"
  then show "card (keys_set c) \<le> 32"
    using keys_count_card[of c] keys_count_le[of c] by (simp add: keys_wf_def)
next
  fix c assume "keys_wf c"
  then show "keys_clear c = keys_init" by (simp add: keys_wf_def keys_clear_init)
qed (simp_all add: keys_wf_init keys_wf_insert keys_wf_erase keys_set_init keys_set_insert
    keys_insert_full keys_set_erase keys_erase_zero keys_insert_zero keys_exists_set keys_empty_set
    finite_keys_set)

section \<open>Images\<close>

lemma length_concat_le2 [image_simps]: "length (concat (map (le_bytes 2) (ks :: u16 list))) = 2 * length ks"
  by (induction ks) simp_all

lemma length_keys_image [image_simps]: "keys_shape ks \<Longrightarrow> length (keys_image ks) = 64"
  by (simp add: keys_image_def keys_shape_def image_simps)

definition keys_of_image :: "bytes \<Rightarrow> keys" where
  "keys_of_image bs = \<lparr>keys_raw = map le_word (chunks 2 32 bs)\<rparr>"

lemma map_le_word_le_bytes: "map le_word (map (le_bytes 2) ks) = (ks :: u16 list)"
  by (simp add: le_word_le_bytes o_def)

interpretation keys_codec: codec keys_image keys_of_image 64 keys_shape
proof unfold_locales
  fix x assume "keys_shape x"
  then have "chunks 2 (length (map (le_bytes 2) (keys_raw x))) (keys_image x) = map (le_bytes 2) (keys_raw x)"
    unfolding keys_image_def by (intro chunks_concat) auto
  with \<open>keys_shape x\<close> show "keys_of_image (keys_image x) = x"
    by (simp add: keys_of_image_def keys_shape_def le_word_le_bytes o_def)
next
  fix bs :: bytes assume len: "length bs = 64"
  have "map (le_bytes 2 \<circ> (le_word :: bytes \<Rightarrow> u16)) (chunks 2 32 bs) = chunks 2 32 bs"
    by (rule map_idI) (use chunks_width[of bs 2 32] len in \<open>simp add: u16_codec.enc_dec\<close>)
  then show "keys_image (keys_of_image bs) = bs"
    using len by (simp add: keys_image_def keys_of_image_def concat_chunks)
next
  fix bs :: bytes show "keys_shape (keys_of_image bs)"
    by (simp add: keys_shape_def keys_of_image_def)
qed (simp add: image_simps)

definition keyboard_input_of_image :: "bytes \<Rightarrow> keyboard_input" where
  "keyboard_input_of_image bs =
     \<lparr>ki_report_id = bs ! 0, ki_modifiers = \<lparr>modifiers_raw = bs ! 1\<rparr>, ki_reserved = bs ! 2,
      ki_keys = keys_of_image (drop 3 bs)\<rparr>"

interpretation keyboard_codec: codec keyboard_input_image keyboard_input_of_image
  sizeof_keyboard_input "\<lambda>r. keys_shape (ki_keys r)"
proof unfold_locales
  fix bs :: bytes assume "length bs = sizeof_keyboard_input"
  then obtain a b c r where bs: "bs = a # b # c # r" and r: "length r = 64"
    by (auto simp: sizeof_keyboard_input_def numeral_eq_Suc length_Suc_conv)
  show "keyboard_input_image (keyboard_input_of_image bs) = bs"
    using r by (simp add: bs keyboard_input_image_def keyboard_input_of_image_def keys_codec.enc_dec)
  show "keys_shape (ki_keys (keyboard_input_of_image bs))"
    using r by (simp add: bs keyboard_input_of_image_def keys_codec.wf_dec)
qed (simp_all add: keyboard_input_image_def keyboard_input_of_image_def sizeof_keyboard_input_def
    image_simps keys_codec.dec_enc)

definition keys_input_of_image :: "bytes \<Rightarrow> keys_input" where
  "keys_input_of_image bs = \<lparr>kx_report_id = bs ! 0, kx_keys = keys_of_image (drop 1 bs)\<rparr>"

interpretation keys_input_codec: codec keys_input_image keys_input_of_image
  sizeof_keys_input "\<lambda>r. keys_shape (kx_keys r)"
proof unfold_locales
  fix bs :: bytes assume "length bs = sizeof_keys_input"
  then obtain a r where bs: "bs = a # r" and r: "length r = 64"
    by (auto simp: sizeof_keys_input_def numeral_eq_Suc length_Suc_conv)
  show "keys_input_image (keys_input_of_image bs) = bs"
    using r by (simp add: bs keys_input_image_def keys_input_of_image_def keys_codec.enc_dec)
  show "keys_shape (kx_keys (keys_input_of_image bs))"
    using r by (simp add: bs keys_input_of_image_def keys_codec.wf_dec)
qed (simp_all add: keys_input_image_def keys_input_of_image_def sizeof_keys_input_def
    image_simps keys_codec.dec_enc)

definition pointing_input_of_image :: "bytes \<Rightarrow> pointing_input" where
  "pointing_input_of_image bs =
     \<lparr>pi_buttons = \<lparr>buttons_raw = le_word (take 4 bs)\<rparr>, pi_x = bs ! 4, pi_y = bs ! 5,
      pi_vertical_wheel = bs ! 6, pi_horizontal_wheel = bs ! 7\<rparr>"

lemma nth_after_le4: "(le_bytes 4 (w :: u32) @ xs) ! (4 + n) = xs ! n"
  by (simp add: nth_append)

interpretation pointing_codec: codec pointing_input_image pointing_input_of_image
  sizeof_pointing_input "\<lambda>_. True"
proof unfold_locales
  fix bs :: bytes assume len: "length bs = sizeof_pointing_input"
  then have "bs = take 4 bs @ [bs ! 4, bs ! 5, bs ! 6, bs ! 7]"
    by (intro nth_equalityI) (auto simp: sizeof_pointing_input_def nth_append less_Suc_eq numeral_eq_Suc)
  with len show "pointing_input_image (pointing_input_of_image bs) = bs"
    by (simp add: pointing_input_image_def pointing_input_of_image_def sizeof_pointing_input_def
        u32_codec.enc_dec)
next
  fix x :: pointing_input
  show "pointing_input_of_image (pointing_input_image x) = x"
    using nth_after_le4[where n=0] nth_after_le4[where n=1] nth_after_le4[where n=2]
      nth_after_le4[where n=3]
    by (simp add: pointing_input_image_def pointing_input_of_image_def le_word_le_bytes)
qed (simp_all add: pointing_input_image_def sizeof_pointing_input_def)

section \<open>Properties\<close>

text \<open>
  C16. However a client presses and releases keys, the report holds exactly the keys that are pressed
  and not yet released, and \<^verbatim>\<open>count\<close> is their number, as long as no more than 32 are held at once.
\<close>

theorem keys_track_presses:
  assumes "fits (\<lambda>k. k \<noteq> 0) 32 ps {}"
  shows "keys_set (apply_presses keys_insert keys_erase ps keys_init) = held ps {} \<and>
     keys_count (apply_presses keys_insert keys_erase ps keys_init) = card (held ps {}) \<and>
     (\<forall>k. k \<noteq> 0 \<longrightarrow> keys_exists k (apply_presses keys_insert keys_erase ps keys_init) = (k \<in> held ps {}))"
  using kys.apply_from_empty[OF assms] kys.exs_run[OF assms]
  by (simp add: keys_count_card kys.invar_apply keys_wf_init)

theorem keys_track_presses_witness:
  "keys_set (apply_presses keys_insert keys_erase [Press 10, Press 20, Release 10] keys_init) = {20} \<and>
   keys_count (apply_presses keys_insert keys_erase [Press 10, Press 20, Release 10] keys_init) = 1"
proof -
  have "fits (\<lambda>k::u16. k \<noteq> 0) 32 [Press 10, Press 20, Release 10] {}" by simp
  from keys_track_presses[OF this] show ?thesis by auto
qed

text \<open>
  C35. Every sequence of key operations keeps the table well formed (32 slots, no key in two slots, so at
  most 32 keys), and a full table drops a further key and stays as it is.
\<close>

theorem keys_table_bounded:
  "keys_wf (apply_presses keys_insert keys_erase ps keys_init) \<and>
   keys_count (apply_presses keys_insert keys_erase ps keys_init) \<le> 32 \<and>
   (keys_count (apply_presses keys_insert keys_erase ps keys_init) = 32 \<longrightarrow>
      keys_insert k (apply_presses keys_insert keys_erase ps keys_init)
        = apply_presses keys_insert keys_erase ps keys_init)"
proof -
  let ?r = "apply_presses keys_insert keys_erase ps keys_init"
  have wf: "keys_wf ?r" by (simp add: kys.invar_apply keys_wf_init)
  moreover have "keys_insert k ?r = ?r" if "keys_count ?r = 32"
    using that wf keys_room_iff[OF wf] by (simp add: keys_count_card keys_insert_def fill_first_full)
  ultimately show ?thesis using keys_count_le[of ?r] by (simp add: keys_wf_def)
qed

theorem keys_table_bounded_witness:
  "keys_wf (apply_presses keys_insert keys_erase [Press 7, Release 7] keys_init) \<and>
   keys_count (apply_presses keys_insert keys_erase [Press 7, Release 7] keys_init) \<le> 32"
  using keys_table_bounded[of "[Press 7, Release 7]" 7] by blast

primrec press_elem :: "'e press \<Rightarrow> 'e" where
  "press_elem (Press x) = x"
| "press_elem (Release x) = x"

lemma buttons_apply_held:
  "buttons_set (apply_presses buttons_insert buttons_erase ps b) =
     held (filter (\<lambda>p. button_ok (press_elem p)) ps) (buttons_set b)"
proof (induction ps arbitrary: b)
  case (Cons p ps)
  then show ?case
    by (cases p) (auto simp: buttons_set_insert buttons_set_erase buttons_insert_not_ok buttons_erase_not_ok)
qed simp

text \<open>
  The button bit set holds exactly the buttons pressed and not yet released, for every sequence of
  operations; operations on numbers outside 1..32 change nothing.
\<close>

theorem buttons_track_presses:
  "buttons_set (apply_presses buttons_insert buttons_erase ps buttons_init) =
     held (filter (\<lambda>p. 1 \<le> press_elem p \<and> press_elem p \<le> 32) ps) {}"
  using buttons_apply_held[of ps buttons_init] by (simp add: buttons_set_init button_ok_def)

text \<open>
  The modifier byte holds exactly the modifiers pressed and not yet released, and is zero exactly
  when none is.
\<close>

theorem modifiers_track_presses:
  "modifiers_set (apply_presses modifiers_insert modifiers_erase ps modifiers_init) = held ps {} \<and>
   modifiers_empty (apply_presses modifiers_insert modifiers_erase ps modifiers_init) = (held ps {} = {})"
proof -
  have f: "fits (\<lambda>_. True) 8 ps A" for A :: "modifier set"
    by (induction ps arbitrary: A) (auto simp: card_modifiers split: press.split)
  from mods.apply_from_empty[OF f] show ?thesis by (simp add: mods.is_emp_elems)
qed

text \<open>
  The images have the \<^verbatim>\<open>sizeof\<close> of their class, and \<^verbatim>\<open>operator==\<close>, which compares images, decides
  equality of all fields.
\<close>

theorem report_images_faithful:
  assumes "keys_shape (ki_keys a)" "keys_shape (ki_keys b)"
    and "keys_shape (kx_keys c)" "keys_shape (kx_keys d)"
  shows "length (keyboard_input_image a) = sizeof_keyboard_input \<and> keyboard_input_eq a b = (a = b) \<and>
    length (keys_input_image c) = sizeof_keys_input \<and> keys_input_eq c d = (c = d) \<and>
    length (pointing_input_image e) = sizeof_pointing_input \<and> pointing_input_eq e f = (e = f)"
  using assms keyboard_codec.enc_inj keys_input_codec.enc_inj pointing_codec.enc_inj
  by (simp add: keyboard_input_eq_def keys_input_eq_def pointing_input_eq_def
      keyboard_codec.enc_length keys_input_codec.enc_length pointing_codec.enc_length)

theorem report_images_faithful_witness:
  "length (keyboard_input_image keyboard_input_init) = 67 \<and>
   \<not> keyboard_input_eq keyboard_input_init
        (keyboard_input_init\<lparr>ki_modifiers := modifiers_insert left_shift modifiers_init\<rparr>) \<and>
   length (pointing_input_image pointing_input_init) = 8"
proof -
  let ?k = "keyboard_input_init\<lparr>ki_modifiers := modifiers_insert left_shift modifiers_init\<rparr>"
  have s: "keys_shape keys_init" using keys_wf_init by (simp add: keys_wf_def)
  have "keyboard_input_init \<noteq> ?k"
    by (simp add: keyboard_input_init_def modifiers_insert_def modifiers_init_def)
  then show ?thesis
    using report_images_faithful[of keyboard_input_init ?k consumer_input_init consumer_input_init
        pointing_input_init] s
    by (simp add: keyboard_input_init_def consumer_input_init_def sizeof_keyboard_input_def
        sizeof_pointing_input_def)
qed

end
