(* ===== verification/Report_Descriptor.thy ===== *)
theory Report_Descriptor
  imports Hid_Report
begin

text \<open>
  The HID report descriptors of the virtual keyboard and the virtual pointing device, byte for
  byte, and a reader of the short items of the USB HID class definition 1.11 (section 6.2.2) that
  computes the layout of every report a descriptor declares. The reader is the yardstick: the
  theorems compare the declared layouts with the report classes of \<open>Hid_Report\<close> that the client
  library fills in and the daemon passes on.
\<close>

section \<open>The descriptors\<close>

definition keyboard_reportDescriptor :: bytes where
  "keyboard_reportDescriptor = [
    0x05, 0x01, 0x09, 0x06, 0xa1, 0x01, 0x85, 0x01, 0x05, 0x07, 0x19, 0xe0, 0x29, 0xe7,
    0x15, 0x00, 0x25, 0x01, 0x75, 0x01, 0x95, 0x08, 0x81, 0x02, 0x95, 0x01, 0x75, 0x08,
    0x81, 0x01, 0x95, 0x20, 0x75, 0x10, 0x15, 0x00, 0x26, 0xff, 0x00, 0x05, 0x07, 0x19, 0x00,
    0x2a, 0xff, 0x00, 0x81, 0x00, 0xc0, 0x05, 0x0c, 0x09, 0x01, 0xa1, 0x01, 0x85, 0x02,
    0x05, 0x0c, 0x95, 0x20, 0x75, 0x10, 0x15, 0x00, 0x26, 0x00, 0x03, 0x19, 0x00,
    0x2a, 0x00, 0x03, 0x81, 0x00, 0xc0, 0x06, 0x00, 0xff, 0x09, 0x01, 0xa1, 0x01, 0x85, 0x03,
    0x05, 0xff, 0x95, 0x20, 0x75, 0x10, 0x15, 0x00, 0x26, 0xff, 0x00, 0x19, 0x00,
    0x2a, 0xff, 0x00, 0x81, 0x00, 0xc0, 0x06, 0x00, 0xff, 0x09, 0x06, 0xa1, 0x01, 0x85, 0x04,
    0x06, 0x01, 0xff, 0x95, 0x20, 0x75, 0x10, 0x15, 0x00, 0x26, 0xff, 0x00, 0x19, 0x00,
    0x2a, 0xff, 0x00, 0x81, 0x00, 0xc0, 0x05, 0x01, 0x09, 0x06, 0xa1, 0x01, 0x85, 0x05,
    0x05, 0x08, 0x95, 0x02, 0x75, 0x01, 0x19, 0x01, 0x29, 0x02, 0x91, 0x02, 0x95, 0x01,
    0x75, 0x06, 0x91, 0x01, 0xc0, 0x05, 0x01, 0x09, 0x06, 0xa1, 0x01, 0x85, 0x06, 0x05, 0x08,
    0x95, 0x02, 0x75, 0x01, 0x19, 0x01, 0x29, 0x02, 0x81, 0x02, 0x95, 0x01, 0x75, 0x06,
    0x81, 0x01, 0xc0, 0x05, 0x01, 0x09, 0x06, 0xa1, 0x01, 0x85, 0x07, 0x05, 0x01, 0x95, 0x20,
    0x75, 0x10, 0x15, 0x00, 0x26, 0xff, 0x00, 0x19, 0x00, 0x2a, 0xff, 0x00, 0x81, 0x00, 0xc0  ]"

definition pointing_reportDescriptor :: bytes where
  "pointing_reportDescriptor = [
    0x05, 0x01, 0x09, 0x02, 0xa1, 0x01, 0x09, 0x02, 0xa1, 0x02, 0x09, 0x01, 0xa1, 0x00,
    0x05, 0x09, 0x19, 0x01, 0x29, 0x20, 0x15, 0x00, 0x25, 0x01, 0x75, 0x01, 0x95, 0x20,
    0x81, 0x02, 0x05, 0x01, 0x09, 0x30, 0x09, 0x31, 0x15, 0x81, 0x25, 0x7f, 0x75, 0x08,
    0x95, 0x02, 0x81, 0x06, 0xa1, 0x02, 0x09, 0x48, 0x15, 0x00, 0x25, 0x01, 0x35, 0x01,
    0x45, 0x04, 0x75, 0x02, 0x95, 0x01, 0xa4, 0xb1, 0x02, 0x09, 0x38, 0x15, 0x81, 0x25, 0x7f,
    0x35, 0x00, 0x45, 0x00, 0x75, 0x08, 0x81, 0x06, 0xc0, 0xa1, 0x02, 0x09, 0x48, 0xb4,
    0xb1, 0x02, 0x35, 0x00, 0x45, 0x00, 0x75, 0x04, 0xb1, 0x03, 0x05, 0x0c, 0x0a, 0x38, 0x02,
    0x15, 0x81, 0x25, 0x7f, 0x75, 0x08, 0x81, 0x06, 0xc0, 0xc0, 0xc0, 0xc0  ]"

section \<open>Reading a descriptor\<close>

definition item_size :: "u8 \<Rightarrow> nat" where
  "item_size p = (let n = unat (p AND 3) in if n = 3 then 4 else n)"

function hid_items :: "bytes \<Rightarrow> (u8 \<times> bytes) list option" where
  "hid_items [] = Some []"
| "hid_items (p # bs) =
     (let n = item_size p
      in if length bs < n then None
         else map_option (Cons (p AND 0xfc, take n bs)) (hid_items (drop n bs)))"
  by pat_completeness auto
termination
  by (relation "measure length") auto

datatype report_kind = Input_report | Output_report | Feature_report

record hid_globals =
  g_usage_page :: nat
  g_logical_min :: int
  g_logical_max :: int
  g_report_size :: nat
  g_report_count :: nat
  g_report_id :: "nat option"

record hid_field =
  f_kind :: report_kind
  f_flags :: nat
  f_globals :: hid_globals

record hid_reader =
  r_globals :: hid_globals
  r_stack :: "hid_globals list"
  r_depth :: nat
  r_fields :: "hid_field list"

definition unsigned_data :: "bytes \<Rightarrow> nat" where
  "unsigned_data bs = unat (le_word bs :: u32)"

definition signed_data :: "bytes \<Rightarrow> int" where
  "signed_data bs =
     (let u = int (unsigned_data bs); m = 2 ^ (8 * length bs)
      in if bs \<noteq> [] \<and> m \<le> 2 * u then u - m else u)"

definition hid_init :: hid_reader where
  "hid_init = \<lparr>r_globals = \<lparr>g_usage_page = 0, g_logical_min = 0, g_logical_max = 0,
     g_report_size = 0, g_report_count = 0, g_report_id = None\<rparr>,
     r_stack = [], r_depth = 0, r_fields = []\<rparr>"

definition add_field :: "report_kind \<Rightarrow> bytes \<Rightarrow> hid_reader \<Rightarrow> hid_reader" where
  "add_field k d r = r\<lparr>r_fields := r_fields r @ [\<lparr>f_kind = k, f_flags = unsigned_data d, f_globals = r_globals r\<rparr>]\<rparr>"

definition hid_item :: "u8 \<times> bytes \<Rightarrow> hid_reader \<Rightarrow> hid_reader option" where
  "hid_item i r = (let t = unat (fst i); d = snd i; g = r_globals r in
     if t = 0x04 then Some (r\<lparr>r_globals := g\<lparr>g_usage_page := unsigned_data d\<rparr>\<rparr>)
     else if t = 0x14 then Some (r\<lparr>r_globals := g\<lparr>g_logical_min := signed_data d\<rparr>\<rparr>)
     else if t = 0x24 then Some (r\<lparr>r_globals := g\<lparr>g_logical_max := signed_data d\<rparr>\<rparr>)
     else if t = 0x34 \<or> t = 0x44 then Some r
     else if t = 0x74 then Some (r\<lparr>r_globals := g\<lparr>g_report_size := unsigned_data d\<rparr>\<rparr>)
     else if t = 0x84 then Some (r\<lparr>r_globals := g\<lparr>g_report_id := Some (unsigned_data d)\<rparr>\<rparr>)
     else if t = 0x94 then Some (r\<lparr>r_globals := g\<lparr>g_report_count := unsigned_data d\<rparr>\<rparr>)
     else if t = 0xa4 then Some (r\<lparr>r_stack := g # r_stack r\<rparr>)
     else if t = 0xb4 then
       (case r_stack r of [] \<Rightarrow> None | g' # st \<Rightarrow> Some (r\<lparr>r_globals := g', r_stack := st\<rparr>))
     else if t = 0x08 \<or> t = 0x18 \<or> t = 0x28 then Some r
     else if t = 0x80 then Some (add_field Input_report d r)
     else if t = 0x90 then Some (add_field Output_report d r)
     else if t = 0xb0 then Some (add_field Feature_report d r)
     else if t = 0xa0 then Some (r\<lparr>r_depth := Suc (r_depth r)\<rparr>)
     else if t = 0xc0 then (case r_depth r of 0 \<Rightarrow> None | Suc n \<Rightarrow> Some (r\<lparr>r_depth := n\<rparr>))
     else None)"

primrec hid_run :: "(u8 \<times> bytes) list \<Rightarrow> hid_reader \<Rightarrow> hid_reader option" where
  "hid_run [] r = Some r"
| "hid_run (i # is) r = (case hid_item i r of None \<Rightarrow> None | Some r' \<Rightarrow> hid_run is r')"

text \<open>The fields of a descriptor; \<open>None\<close> for a malformed one or one with an open collection or push.\<close>

definition hid_fields :: "bytes \<Rightarrow> hid_field list option" where
  "hid_fields bs =
     (case hid_items bs of
        None \<Rightarrow> None
      | Some is \<Rightarrow>
          (case hid_run is hid_init of
             None \<Rightarrow> None
           | Some r \<Rightarrow> if r_depth r = 0 \<and> r_stack r = [] then Some (r_fields r) else None))"

text \<open>
  The layout of one report: for each field its size in bits, its count and whether it is constant
  (bit 0 of the flags) and variable (bit 1).
\<close>

definition report_layout :: "report_kind \<Rightarrow> nat option \<Rightarrow> hid_field list \<Rightarrow> (nat \<times> nat \<times> bool \<times> bool) list" where
  "report_layout k rid fs =
     map (\<lambda>f. (g_report_size (f_globals f), g_report_count (f_globals f),
               odd (f_flags f), odd (f_flags f div 2)))
       (filter (\<lambda>f. f_kind f = k \<and> g_report_id (f_globals f) = rid) fs)"

definition report_bits :: "report_kind \<Rightarrow> nat option \<Rightarrow> hid_field list \<Rightarrow> nat" where
  "report_bits k rid fs = sum_list (map (\<lambda>(s, c, _). s * c) (report_layout k rid fs))"

text \<open>The length of a report on the wire: its bits in bytes, and one byte more when it has an id.\<close>

definition report_length :: "report_kind \<Rightarrow> nat option \<Rightarrow> hid_field list \<Rightarrow> nat" where
  "report_length k rid fs = report_bits k rid fs div 8 + (if rid = None then 0 else 1)"

definition report_ids :: "report_kind \<Rightarrow> hid_field list \<Rightarrow> nat option list" where
  "report_ids k fs = remdups (map (\<lambda>f. g_report_id (f_globals f)) (filter (\<lambda>f. f_kind f = k) fs))"

definition keyboard_fields :: "hid_field list" where
  "keyboard_fields = (case hid_fields keyboard_reportDescriptor of None \<Rightarrow> [] | Some fs \<Rightarrow> fs)"

definition pointing_fields :: "hid_field list" where
  "pointing_fields = (case hid_fields pointing_reportDescriptor of None \<Rightarrow> [] | Some fs \<Rightarrow> fs)"

section \<open>What the descriptors declare\<close>

abbreviation hid_field_of ::
  "report_kind \<Rightarrow> nat \<Rightarrow> nat \<Rightarrow> int \<Rightarrow> int \<Rightarrow> nat \<Rightarrow> nat \<Rightarrow> nat option \<Rightarrow> hid_field" where
  "hid_field_of k flags page lo hi s c rid \<equiv>
     \<lparr>f_kind = k, f_flags = flags, f_globals =
        \<lparr>g_usage_page = page, g_logical_min = lo, g_logical_max = hi, g_report_size = s,
         g_report_count = c, g_report_id = rid\<rparr>\<rparr>"

lemmas hid_eval = hid_fields_def item_size_def hid_item_def add_field_def unsigned_data_def
  signed_data_def hid_init_def

lemmas layout_eval = report_layout_def report_bits_def report_length_def report_ids_def

lemma keyboard_descriptor_fields:
  "hid_fields keyboard_reportDescriptor = Some [
      hid_field_of Input_report 2 7 0 1 1 8 (Some 1),
      hid_field_of Input_report 1 7 0 1 8 1 (Some 1),
      hid_field_of Input_report 0 7 0 255 16 32 (Some 1),
      hid_field_of Input_report 0 12 0 768 16 32 (Some 2),
      hid_field_of Input_report 0 255 0 255 16 32 (Some 3),
      hid_field_of Input_report 0 65281 0 255 16 32 (Some 4),
      hid_field_of Output_report 2 8 0 255 1 2 (Some 5),
      hid_field_of Output_report 1 8 0 255 6 1 (Some 5),
      hid_field_of Input_report 2 8 0 255 1 2 (Some 6),
      hid_field_of Input_report 1 8 0 255 6 1 (Some 6),
      hid_field_of Input_report 0 1 0 255 16 32 (Some 7)]"
  by (simp add: keyboard_reportDescriptor_def hid_eval Let_def)

lemma pointing_descriptor_fields:
  "hid_fields pointing_reportDescriptor = Some [
      hid_field_of Input_report 2 9 0 1 1 32 None,
      hid_field_of Input_report 6 1 (-127) 127 8 2 None,
      hid_field_of Feature_report 2 1 0 1 2 1 None,
      hid_field_of Input_report 6 1 (-127) 127 8 1 None,
      hid_field_of Feature_report 2 1 0 1 2 1 None,
      hid_field_of Feature_report 3 1 0 1 4 1 None,
      hid_field_of Input_report 6 12 (-127) 127 8 1 None]"
  by (simp add: pointing_reportDescriptor_def hid_eval Let_def)

lemmas report_init_defs = keyboard_input_init_def consumer_input_init_def
  apple_vendor_top_case_input_init_def apple_vendor_keyboard_input_init_def
  generic_desktop_input_init_def pointing_input_init_def

lemmas sizeof_defs = sizeof_keyboard_input_def sizeof_keys_input_def sizeof_pointing_input_def

section \<open>Reading a report\<close>

text \<open>
  A report as the HID class definition reads it (section 8): the bytes after the report id are a string of bits, the lowest bit of
  each byte first; the fields of the report with that id follow each other in it, each with its number of elements
  of its size. The values of the elements are unsigned. \<open>None\<close> stands for a report that is too short or too long.
\<close>

definition bits_of_bytes :: "bytes \<Rightarrow> bool list" where
  "bits_of_bytes bs = concat (map (\<lambda>b. map (bit b) [0..<8]) bs)"

definition bits_value :: "bool list \<Rightarrow> nat" where
  "bits_value bits = horner_sum of_bool 2 bits"

primrec read_elements :: "nat \<Rightarrow> nat \<Rightarrow> bool list \<Rightarrow> nat list" where
  "read_elements s 0 bits = []"
| "read_elements s (Suc c) bits = bits_value (take s bits) # read_elements s c (drop s bits)"

fun read_layout :: "(nat \<times> nat \<times> bool \<times> bool) list \<Rightarrow> bool list \<Rightarrow> nat list list option" where
  "read_layout [] bits = (if bits = [] then Some [] else None)"
| "read_layout ((s, c, _) # fs) bits =
     (if length bits < s * c then None
      else map_option (\<lambda>vs. read_elements s c bits # vs) (read_layout fs (drop (s * c) bits)))"

definition read_report :: "hid_field list \<Rightarrow> bytes \<Rightarrow> nat list list option" where
  "read_report fs bs =
     (if report_ids Input_report fs = [None] then read_layout (report_layout Input_report None fs) (bits_of_bytes bs)
      else
        (case bs of
           [] \<Rightarrow> None
         | i # body \<Rightarrow> read_layout (report_layout Input_report (Some (unat i)) fs) (bits_of_bytes body)))"

lemma bits_of_bytes_simps [simp]:
  "bits_of_bytes [] = []" "bits_of_bytes (b # bs) = map (bit b) [0..<8] @ bits_of_bytes bs"
  "bits_of_bytes (xs @ ys) = bits_of_bytes xs @ bits_of_bytes ys"
  by (simp_all add: bits_of_bytes_def)

lemma length_bits_of_bytes [simp]: "length (bits_of_bytes bs) = 8 * length bs"
  by (induction bs) simp_all

lemma bits_value_word: "bits_value (map (bit w) [0..<LENGTH('a)]) = unat (w :: 'a::len word)"
proof -
  have bits: "map (bit w) [0..<LENGTH('a)] = map (bit (unat w)) [0..<LENGTH('a)]"
    by (simp add: bit_unsigned_iff)
  show ?thesis
    unfolding bits_value_def bits horner_sum_bit_eq_take_bit by (rule take_bit_nat_eq_self) (rule unsigned_less)
qed

lemma bits_of_le_bytes_2: "bits_of_bytes (le_bytes 2 (w :: u16)) = map (bit w) [0..<16]"
proof -
  have "le_bytes 2 w = [ucast w, ucast (drop_bit 8 w)]" by (simp add: numeral_2_eq_2)
  moreover have "[0..<16] = [0..<8] @ map ((+) 8) [0..<8 :: nat]" by (simp add: upt_rec)
  ultimately show ?thesis by (simp add: bit_simps)
qed

lemma bits_of_le_bytes_4: "bits_of_bytes (le_bytes 4 (w :: u32)) = map (bit w) [0..<32]"
proof -
  have "le_bytes 4 w = [ucast w, ucast (drop_bit 8 w), ucast (drop_bit 16 w), ucast (drop_bit 24 w)]"
    by (simp add: numeral_eq_Suc)
  moreover have "[0..<32] = [0..<8] @ map ((+) 8) [0..<8] @ map ((+) 16) [0..<8] @ map ((+) 24) [0..<8 :: nat]" by (simp add: upt_rec)
  ultimately show ?thesis by (simp add: bit_simps)
qed

lemma bits_of_keys: "bits_of_bytes (keys_image ks) = concat (map (\<lambda>k. map (bit k) [0..<16]) (keys_raw ks))"
proof -
  have "bits_of_bytes (concat (map (le_bytes 2) xs)) = concat (map (\<lambda>k. map (bit k) [0..<16]) xs)" for xs :: "u16 list"
    by (induction xs) (simp_all add: bits_of_le_bytes_2)
  then show ?thesis by (simp add: keys_image_def)
qed

lemma read_elements_blocks:
  "\<forall>xs\<in>set xss. length xs = s \<Longrightarrow> read_elements s (length xss) (concat xss @ rest) = map bits_value xss"
  by (induction xss) simp_all

lemma read_elements_bits: "c \<le> length bits \<Longrightarrow> read_elements 1 c bits = map of_bool (take c bits)"
proof (induction c arbitrary: bits)
  case (Suc c)
  then show ?case by (cases bits) (simp_all add: bits_value_def)
qed simp

lemma read_elements_append: "s * c \<le> length xs \<Longrightarrow> read_elements s c (xs @ ys) = read_elements s c xs"
proof (induction c arbitrary: xs)
  case (Suc c)
  then show ?case by simp
qed simp

lemma read_keys:
  assumes "keys_shape ks"
  shows "read_elements 16 32 (bits_of_bytes (keys_image ks)) = map unat (keys_raw ks)"
proof -
  have "read_elements 16 (length (map (\<lambda>k. map (bit k) [0..<16]) (keys_raw ks)))
      (concat (map (\<lambda>k. map (bit k) [0..<16]) (keys_raw ks)) @ []) =
    map bits_value (map (\<lambda>k. map (bit k) [0..<16]) (keys_raw ks))"
    by (rule read_elements_blocks) auto
  moreover have "bits_value (map (bit k) [0..<16]) = unat k" for k :: u16
    using bits_value_word[of k] by simp
  ultimately show ?thesis using assms by (simp add: bits_of_keys keys_shape_def o_def)
qed

lemma read_byte: "read_elements 8 1 (map (bit b) [0..<8] @ rest) = [unat (b :: u8)]"
  using bits_value_word[of b] by simp

lemma read_bits: "n \<le> LENGTH('a) \<Longrightarrow> read_elements 1 n (map (bit (w :: 'a::len word)) [0..<LENGTH('a)] @ rest) = map (\<lambda>i. of_bool (bit w i)) [0..<n]"
  by (subst read_elements_bits) (simp_all add: take_map)

text \<open>
  C34. The keyboard's report descriptor describes the reports that are sent. It is well formed and declares exactly the input reports
  with the ids 1, 2, 3, 4, 6 and 7. A reader that follows it recovers every value from the memory image of
  every report: of a \<^verbatim>\<open>keyboard_input\<close> the eight modifier bits, the reserved byte and the 32 keys in their slots; of the other four
  classes, each under its id, the 32 keys; and no byte is missing or left over. The LED output report 5 and the LED input
  report 6 are two bytes long, as \<^verbatim>\<open>setReport\<close> uses them.
\<close>

theorem keyboard_descriptor_matches_reports:
  assumes "keys_shape (ki_keys r)" and "ki_report_id r = ki_report_id keyboard_input_init"
    and "keys_shape (kx_keys q)"
    and "kx_report_id q \<in> kx_report_id ` {consumer_input_init, apple_vendor_top_case_input_init,
      apple_vendor_keyboard_input_init, generic_desktop_input_init}"
  shows "hid_fields keyboard_reportDescriptor = Some keyboard_fields \<and>
   report_ids Input_report keyboard_fields = map Some [1, 2, 3, 4, 6, 7] \<and>
   read_report keyboard_fields (keyboard_input_image r) =
     Some [map (\<lambda>i. of_bool (bit (modifiers_raw (ki_modifiers r)) i)) [0..<8], [unat (ki_reserved r)],
       map unat (keys_raw (ki_keys r))] \<and>
   read_report keyboard_fields (keys_input_image q) = Some [map unat (keys_raw (kx_keys q))] \<and>
   report_length Output_report (Some 5) keyboard_fields = 2 \<and>
   report_length Input_report (Some 6) keyboard_fields = 2"
proof -
  have fields: "hid_fields keyboard_reportDescriptor = Some keyboard_fields"
    "report_ids Input_report keyboard_fields = map Some [1, 2, 3, 4, 6, 7]"
    "report_length Output_report (Some 5) keyboard_fields = 2" "report_length Input_report (Some 6) keyboard_fields = 2"
    by (simp_all add: keyboard_fields_def keyboard_descriptor_fields layout_eval)
  have layout: "report_layout Input_report (Some 1) keyboard_fields = [(1, 8, False, True), (8, 1, True, False), (16, 32, False, False)]"
    "n \<in> {2, 3, 4, 7} \<Longrightarrow> report_layout Input_report (Some n) keyboard_fields = [(16, 32, False, False)]" for n
    by (auto simp: keyboard_fields_def keyboard_descriptor_fields layout_eval)
  have "read_report keyboard_fields (keyboard_input_image r) =
     Some [map (\<lambda>i. of_bool (bit (modifiers_raw (ki_modifiers r)) i)) [0..<8], [unat (ki_reserved r)],
       map unat (keys_raw (ki_keys r))]"
    using assms(1,2) read_bits[where 'a = 8, of 8] read_byte length_keys_image[OF assms(1)]
    by (simp add: read_report_def fields layout keyboard_input_image_def report_init_defs read_keys
        del: read_elements.simps One_nat_def)
  moreover have "unat (kx_report_id q) \<in> {2, 3, 4, 7}" using assms(4) by (auto simp: report_init_defs)
  then have "read_report keyboard_fields (keys_input_image q) = Some [map unat (keys_raw (kx_keys q))]"
    using layout(2) length_keys_image[OF assms(3)]
    by (simp add: read_report_def fields keys_input_image_def read_keys[OF assms(3)] del: read_elements.simps)
  ultimately show ?thesis using fields by blast
qed

text \<open>A keyboard report with the left shift and the key E, and a consumer report with one key.\<close>

theorem keyboard_descriptor_matches_reports_witness:
  "read_report keyboard_fields (keyboard_input_image (keyboard_input_init
      \<lparr>ki_modifiers := \<lparr>modifiers_raw = 2\<rparr>, ki_keys := keys_insert 8 (ki_keys keyboard_input_init)\<rparr>)) =
    Some [[0, 1, 0, 0, 0, 0, 0, 0], [0], 8 # replicate 31 0] \<and>
   read_report keyboard_fields (keys_input_image (consumer_input_init\<lparr>kx_keys := keys_insert 0x20c (kx_keys consumer_input_init)\<rparr>)) =
    Some [524 # replicate 31 0]"
proof -
  let ?r = "keyboard_input_init\<lparr>ki_modifiers := \<lparr>modifiers_raw = 2\<rparr>, ki_keys := keys_insert 8 (ki_keys keyboard_input_init)\<rparr>"
  let ?q = "consumer_input_init\<lparr>kx_keys := keys_insert 0x20c (kx_keys consumer_input_init)\<rparr>"
  have k: "keys_raw (keys_insert k keys_init) = k # replicate 31 0" if "k \<noteq> 0" for k
    using that by (simp add: keys_insert_def keys_init_def keys_exists_def numeral_eq_Suc)
  have "keys_shape (ki_keys ?r)" "keys_shape (kx_keys ?q)"
    using k[of 8] k[of "0x20c"] by (simp_all add: keys_shape_def report_init_defs)
  from keyboard_descriptor_matches_reports[OF this(1) _ this(2)] show ?thesis
    using k[of 8] k[of "0x20c"] by (simp add: report_init_defs upt_rec)
qed

text \<open>
  The pointing device's report descriptor is well formed and declares one input report, without a
  report id. A reader that follows it recovers every value from the memory image of every \<^verbatim>\<open>pointing_input\<close>: the 32
  buttons, then X and Y, the vertical wheel and the horizontal wheel, eight bits each with
  the logical range -127 to 127.
\<close>

theorem pointing_descriptor_matches_report:
  "hid_fields pointing_reportDescriptor = Some pointing_fields \<and>
   report_ids Input_report pointing_fields = [None] \<and>
   read_report pointing_fields (pointing_input_image r) =
     Some [map (\<lambda>i. of_bool (bit (buttons_raw (pi_buttons r)) i)) [0..<32], [unat (pi_x r), unat (pi_y r)],
       [unat (pi_vertical_wheel r)], [unat (pi_horizontal_wheel r)]] \<and>
   map (\<lambda>f. (g_logical_min (f_globals f), g_logical_max (f_globals f)))
     (tl (filter (\<lambda>f. f_kind f = Input_report) pointing_fields)) = [(-127, 127), (-127, 127), (-127, 127)]"
proof -
  have fields: "hid_fields pointing_reportDescriptor = Some pointing_fields" "report_ids Input_report pointing_fields = [None]"
    "map (\<lambda>f. (g_logical_min (f_globals f), g_logical_max (f_globals f)))
       (tl (filter (\<lambda>f. f_kind f = Input_report) pointing_fields)) = [(-127, 127), (-127, 127), (-127, 127)]"
    by (simp_all add: pointing_fields_def pointing_descriptor_fields layout_eval)
  have layout: "report_layout Input_report None pointing_fields =
     [(1, 32, False, True), (8, 2, False, True), (8, 1, False, True), (8, 1, False, True)]"
    by (simp add: pointing_fields_def pointing_descriptor_fields layout_eval)
  have byte: "bits_value (map (bit a) [0..<8]) = unat a" for a :: u8 using bits_value_word[of a] by simp
  have "read_elements 8 (Suc (Suc 0)) (map (bit a) [0..<8] @ map (bit b) [0..<8] @ rest) = [unat a, unat b]" for a b :: u8 and rest
    by (simp add: byte)
  then have two: "read_elements 8 2 (map (bit a) [0..<8] @ map (bit b) [0..<8] @ rest) = [unat a, unat b]" for a b :: u8 and rest
    by (simp only: numeral_2_eq_2)
  have "read_report pointing_fields (pointing_input_image r) =
     Some [map (\<lambda>i. of_bool (bit (buttons_raw (pi_buttons r)) i)) [0..<32], [unat (pi_x r), unat (pi_y r)],
       [unat (pi_vertical_wheel r)], [unat (pi_horizontal_wheel r)]]"
    using read_bits[where 'a = 32, of 32] read_byte two read_byte[of "pi_horizontal_wheel r" "[]"]
    by (simp add: read_report_def fields layout pointing_input_image_def bits_of_le_bytes_4 del: read_elements.simps One_nat_def)
  with fields show ?thesis by blast
qed

end
