(* ===== verification/Hid_Report_Tests.thy ===== *)
theory Hid_Report_Tests
  imports Hid_Report
begin

text \<open>
  The repository's own tests of the report classes (\<^verbatim>\<open>tests/src/hid_report\<close>), run on the model: each test program is the
  list of its expectations, in order, on the objects as its statements leave them.
\<close>

section \<open>Buttons\<close>

definition run_buttons_test :: "bool list" where
  "run_buttons_test =
     (let b0 = buttons_init;
          b1 = buttons_insert 1 b0;
          b2 = buttons_insert 32 b1;
          b3 = buttons_insert 0 b2;
          b4 = buttons_insert 33 b3;
          b5 = buttons_erase 1 b4;
          b6 = buttons_clear b5
      in [buttons_raw b0 = 0, buttons_empty b0,
          buttons_raw b1 = 0x1, \<not> buttons_empty b1,
          buttons_raw b2 = 0x80000001, \<not> buttons_empty b2,
          buttons_raw b3 = 0x80000001, \<not> buttons_empty b3,
          buttons_raw b4 = 0x80000001, \<not> buttons_empty b4,
          buttons_raw b5 = 0x80000000, \<not> buttons_empty b5,
          buttons_raw b6 = 0, buttons_empty b6])"

section \<open>Keys\<close>

text \<open>The array \<^verbatim>\<open>expected\<close> of the test, of which only the first two slots are ever set.\<close>

definition expected_keys :: "u16 list \<Rightarrow> u16 list" where
  "expected_keys ks = ks @ replicate (32 - length ks) 0"

definition same_raw :: "keys \<Rightarrow> u16 list \<Rightarrow> bool" where
  "same_raw k ks \<longleftrightarrow> keys_raw k = expected_keys ks"

definition run_keys_test :: "bool list" where
  "run_keys_test =
     (let k0 = keys_init;
          k1 = keys_insert 10 k0;
          k2 = keys_insert 10 k1;
          k3 = keys_erase 20 k2;
          k4 = keys_erase 10 k3;
          k5 = keys_erase 10 k4;
          k6 = keys_insert 10 k5;
          k7 = keys_insert 20 k6;
          k8 = keys_clear k7
      in [keys_count k0 = 0, keys_empty k0, same_raw k0 [],
          keys_count k1 = 1, \<not> keys_empty k1, keys_exists 10 k1, \<not> keys_exists 20 k1, same_raw k1 [10],
          keys_count k2 = 1, \<not> keys_empty k2, same_raw k2 [10],
          keys_count k3 = 1, \<not> keys_empty k3, same_raw k3 [10],
          keys_count k4 = 0, keys_empty k4, same_raw k4 [],
          keys_count k5 = 0, keys_empty k5, same_raw k5 [],
          keys_count k6 = 1, \<not> keys_empty k6, same_raw k6 [10],
          keys_count k7 = 2, \<not> keys_empty k7, same_raw k7 [10, 20],
          keys_count k8 = 0, keys_empty k8, same_raw k8 []])"

text \<open>The loop that fills the table: the iterations from \<open>i\<close> on, \<open>n\<close> of them, with their expectations.\<close>

primrec fill_loop :: "nat \<Rightarrow> nat \<Rightarrow> keys \<Rightarrow> bool list \<times> keys" where
  "fill_loop 0 i k = ([], k)"
| "fill_loop (Suc n) i k =
     (let k1 = keys_insert (of_nat (i + 1)) k; (es, k2) = fill_loop n (i + 1) k1
      in ((keys_count k1 = i + 1) # es, k2))"

definition run_keys_overflow_test :: "bool list" where
  "run_keys_overflow_test =
     (let k0 = keys_init;
          (es, k1) = fill_loop 32 0 k0;
          k2 = keys_insert 10 k1;
          k3 = keys_insert 20 k2
      in [keys_count k0 = 0] @ es @ [keys_count k2 = 32, keys_count k3 = 32])"

section \<open>Modifiers\<close>

text \<open>The expectations after each statement: the raw value, emptiness and all eight modifiers.\<close>

definition modifiers_are :: "modifiers \<Rightarrow> u8 \<Rightarrow> bool \<Rightarrow> modifier list \<Rightarrow> bool list" where
  "modifiers_are m raw no ms =
     [modifiers_raw m = raw, modifiers_empty m = no] @
     map (\<lambda>x. modifiers_exists x m = (x \<in> set ms))
       [left_control, left_shift, left_option, left_command, right_control, right_shift, right_option, right_command]"

definition run_modifiers_test :: "bool list" where
  "run_modifiers_test =
     (let m0 = modifiers_init;
          m1 = modifiers_insert left_control m0;
          m2 = modifiers_insert right_control m1;
          m3 = modifiers_erase left_shift m2;
          m4 = modifiers_erase left_control m3;
          m5 = modifiers_clear m4
      in modifiers_are m0 0 True [] @
         modifiers_are m1 0x1 False [left_control] @
         modifiers_are m2 0x11 False [left_control, right_control] @
         modifiers_are m3 0x11 False [left_control, right_control] @
         modifiers_are m4 0x10 False [right_control] @
         modifiers_are m5 0 True [])"

section \<open>Sizes\<close>

text \<open>The size of a packed class is the number of bytes of an object of it.\<close>

definition run_sizeof_test :: "bool list" where
  "run_sizeof_test =
     [length (keys_input_image apple_vendor_keyboard_input_init) = 65,
      length (keys_input_image apple_vendor_top_case_input_init) = 65,
      length (keys_input_image consumer_input_init) = 65,
      length (keys_input_image generic_desktop_input_init) = 65,
      length (keyboard_input_image keyboard_input_init) = 67,
      length (pointing_input_image pointing_input_init) = 8]"

definition run_hid_report_tests :: "bool list" where
  "run_hid_report_tests =
     run_buttons_test @ (run_keys_test @ run_keys_overflow_test) @ run_modifiers_test @ run_sizeof_test"

section \<open>The tests pass\<close>

lemma buttons_test_passes: "False \<notin> set run_buttons_test"
  by code_simp

lemma keys_test_passes: "False \<notin> set run_keys_test"
  by code_simp

lemma modifiers_test_passes: "False \<notin> set run_modifiers_test"
  by code_simp

lemma sizeof_test_passes: "False \<notin> set run_sizeof_test"
  by code_simp

lemma keys_overflow_test_passes: "False \<notin> set run_keys_overflow_test"
  by code_simp

text \<open>The model meets every expectation of the repository's test program.\<close>

theorem hid_report_tests_pass: "False \<notin> set run_hid_report_tests"
  using buttons_test_passes keys_test_passes keys_overflow_test_passes modifiers_test_passes sizeof_test_passes
  by (simp add: run_hid_report_tests_def)

end
