(* ===== verification/Driver_Device.thy ===== *)
theory Driver_Device
  imports Report_Descriptor
begin

text \<open>
  The two HID devices of the driver extension (\<^verbatim>\<open>VirtualHIDKeyboard.cpp\<close>, \<^verbatim>\<open>VirtualHIDPointing.cpp\<close>)
  and the memory utility they share (\<^verbatim>\<open>IOBufferMemoryDescriptorUtility.hpp\<close>).

  DriverKit itself is not part of the repository. The calls the driver makes into it are the
  functions of the record \<open>driverkit\<close>, a parameter of every definition; they read and change an
  abstract world of type \<open>'w\<close>, so each call may succeed or fail on its own.
\<close>

section \<open>The DriverKit interface\<close>

datatype service_class = Service_keyboard | Service_pointing | Service_user_client | Service_other

record 'w driverkit =
  dk_create_buffer :: "nat \<Rightarrow> 'w \<Rightarrow> kern_return \<times> 'w"
    \<comment> \<open>\<^verbatim>\<open>IOBufferMemoryDescriptor::Create\<close> for a length; on success a buffer exists\<close>
  dk_map_buffer :: "nat \<Rightarrow> 'w \<Rightarrow> (kern_return \<times> nat) \<times> 'w"
    \<comment> \<open>\<^verbatim>\<open>Map\<close> of a fresh buffer of that length: the mapped length\<close>
  dk_map_report :: "bytes \<Rightarrow> 'w \<Rightarrow> (kern_return \<times> bytes) \<times> 'w"
    \<comment> \<open>\<^verbatim>\<open>Map\<close> of a report descriptor: the mapped bytes\<close>
  dk_get_length :: "bytes \<Rightarrow> 'w \<Rightarrow> (kern_return \<times> u64) \<times> 'w"
  dk_handle_report :: "bytes \<Rightarrow> u32 \<Rightarrow> 'w \<Rightarrow> kern_return \<times> 'w"
  dk_create_service :: "string \<Rightarrow> 'w \<Rightarrow> (kern_return \<times> service_class) \<times> 'w"
    \<comment> \<open>\<^verbatim>\<open>IOService::Create\<close> with a property key: the class of the service it made\<close>

text \<open>
  Beside the world the model keeps what the driver did to it: the number of references to memory
  descriptors the driver holds, and the input reports it handed to \<^verbatim>\<open>handleReport\<close>, oldest first.
\<close>

record 'w dk =
  dk_world :: 'w
  dk_live :: int
  dk_posted :: "(bytes \<times> u32) list"

definition dk_retain :: "'w dk \<Rightarrow> 'w dk" where
  "dk_retain s = s\<lparr>dk_live := dk_live s + 1\<rparr>"

text \<open>\<^verbatim>\<open>OSSafeReleaseNULL\<close> of a possibly null descriptor.\<close>

definition dk_release :: "bytes option \<Rightarrow> 'w dk \<Rightarrow> 'w dk" where
  "dk_release m s = (case m of None \<Rightarrow> s | Some _ \<Rightarrow> s\<lparr>dk_live := dk_live s - 1\<rparr>)"

section \<open>IOBufferMemoryDescriptorUtility\<close>

text \<open>
  A memory descriptor is its contents. \<open>src\<close> is the source range (\<open>None\<close> for a null pointer) and
  \<open>memory\<close> says whether the out pointer is non-null. \<^verbatim>\<open>Create\<close> leaves the local pointer null when
  it fails, so the error path then releases nothing.
\<close>

definition createWithBytes ::
  "'w driverkit \<Rightarrow> bytes option \<Rightarrow> bool \<Rightarrow> 'w dk \<Rightarrow> (kern_return \<times> bytes option) \<times> 'w dk" where
  "createWithBytes env src memory s =
     (case src of
        None \<Rightarrow> ((kIOReturnBadArgument, None), s)
      | Some bs \<Rightarrow>
          if \<not> memory then ((kIOReturnBadArgument, None), s)
          else
            (let (kr, w1) = dk_create_buffer env (length bs) (dk_world s);
                 s1 = s\<lparr>dk_world := w1\<rparr>
             in if kr \<noteq> kIOReturnSuccess then ((kr, None), s1)
                else
                  (let m = Some (replicate (length bs) 0);
                       s2 = dk_retain s1;
                       ((kr, len), w3) = dk_map_buffer env (length bs) (dk_world s2);
                       s3 = s2\<lparr>dk_world := w3\<rparr>
                   in if kr \<noteq> kIOReturnSuccess then ((kr, None), dk_release m s3)
                      else if length bs \<noteq> len then ((kIOReturnNoMemory, None), dk_release m s3)
                      else ((kr, Some bs), s3))))"

section \<open>Posting reports\<close>

text \<open>\<^verbatim>\<open>postReport\<close>, the same code in both devices.\<close>

definition postReport :: "'w driverkit \<Rightarrow> bytes option \<Rightarrow> 'w dk \<Rightarrow> kern_return \<times> 'w dk" where
  "postReport env report s =
     (case report of
        None \<Rightarrow> (kIOReturnBadArgument, s)
      | Some bs \<Rightarrow>
          (let ((kr, reportLength), w1) = dk_get_length env bs (dk_world s);
               s1 = s\<lparr>dk_world := w1\<rparr>
           in if kr \<noteq> kIOReturnSuccess then (kr, s1)
              else
                (let len = ucast reportLength;
                     (kr', w2) = dk_handle_report env bs len (dk_world s1)
                 in (kr', s1\<lparr>dk_world := w2, dk_posted := dk_posted s1 @ [(bs, len)]\<rparr>))))"

text \<open>The loop of \<^verbatim>\<open>reset\<close>: create, post (the result is ignored), release; stop at a failed create.\<close>

primrec post_inputs :: "'w driverkit \<Rightarrow> bytes list \<Rightarrow> 'w dk \<Rightarrow> kern_return \<times> 'w dk" where
  "post_inputs env [] s = (kIOReturnSuccess, s)"
| "post_inputs env (i # is) s =
     (let ((kr, memory), s1) = createWithBytes env (Some i) True s
      in if kr \<noteq> kIOReturnSuccess then (kr, s1)
         else post_inputs env is (dk_release memory (snd (postReport env memory s1))))"

definition keyboard_reset :: "'w driverkit \<Rightarrow> 'w dk \<Rightarrow> kern_return \<times> 'w dk" where
  "keyboard_reset env =
     post_inputs env
       [keyboard_input_image keyboard_input_init,
        keys_input_image consumer_input_init,
        keys_input_image apple_vendor_keyboard_input_init,
        keys_input_image apple_vendor_top_case_input_init,
        keys_input_image generic_desktop_input_init]"

definition pointing_reset :: "'w driverkit \<Rightarrow> 'w dk \<Rightarrow> kern_return \<times> 'w dk" where
  "pointing_reset env = post_inputs env [pointing_input_image pointing_input_init]"

section \<open>The keyboard\<close>

text \<open>
  \<open>kb_provider\<close> is the user client the keyboard was started on, \<open>False\<close> for a null pointer: a
  keyboard is only ever created by the user client that then holds it.
\<close>

record keyboard_ivars =
  kb_provider :: bool
  kb_ready :: bool
  kb_lastLedState :: u8

text \<open>\<^verbatim>\<open>init\<close>: \<open>super\<close> is the result of \<^verbatim>\<open>super::init\<close>, \<open>alloc\<close> whether \<^verbatim>\<open>IONewZero\<close> returned memory.\<close>

definition keyboard_init :: "bool \<Rightarrow> bool \<Rightarrow> keyboard_ivars option" where
  "keyboard_init super alloc =
     (if \<not> super then None
      else if \<not> alloc then None
      else Some \<lparr>kb_provider = False, kb_ready = False, kb_lastLedState = 0\<rparr>)"

text \<open>
  \<^verbatim>\<open>free\<close> of the devices, on the instance variables that \<^verbatim>\<open>init\<close> left (\<open>None\<close> is the null pointer of a failed \<^verbatim>\<open>init\<close>):
  \<^verbatim>\<open>IOSafeDeleteNULL\<close> deletes them, if there are any, and leaves the null pointer.
\<close>

definition keyboard_free :: "keyboard_ivars option \<Rightarrow> keyboard_ivars option" where
  "keyboard_free ivars = (case ivars of None \<Rightarrow> ivars | Some kb \<Rightarrow> None)"

definition keyboard_handleStart :: "service_class \<Rightarrow> bool \<Rightarrow> keyboard_ivars \<Rightarrow> bool \<times> keyboard_ivars" where
  "keyboard_handleStart provider super kb =
     (let kb1 = kb\<lparr>kb_provider := (provider = Service_user_client)\<rparr>
      in if \<not> kb_provider kb1 then (False, kb1)
         else if \<not> super then (False, kb1)
         else (True, kb1\<lparr>kb_ready := True\<rparr>))"

definition keyboard_Stop :: "kern_return \<Rightarrow> keyboard_ivars \<Rightarrow> kern_return \<times> keyboard_ivars" where
  "keyboard_Stop super kb = (super, kb\<lparr>kb_provider := False\<rparr>)"

definition keyboard_getReady :: "keyboard_ivars \<Rightarrow> bool" where
  "keyboard_getReady kb = kb_ready kb"

definition keyboard_newReportDescriptor :: bytes where
  "keyboard_newReportDescriptor = keyboard_reportDescriptor"

definition setReport ::
  "'w driverkit \<Rightarrow> bytes option \<Rightarrow> keyboard_ivars \<Rightarrow> 'w dk \<Rightarrow> kern_return \<times> keyboard_ivars \<times> 'w dk" where
  "setReport env report kb s =
     (case report of
        None \<Rightarrow> (kIOReturnBadArgument, kb, s)
      | Some bs \<Rightarrow>
          (let ((kr, mapped), w1) = dk_map_report env bs (dk_world s);
               s1 = s\<lparr>dk_world := w1\<rparr>
           in if kr \<noteq> kIOReturnSuccess then (kr, kb, s1)
              else if length mapped < 2 then (kIOReturnBadArgument, kb, s1)
              else
                (let reportId = mapped ! 0; state = mapped ! 1
                 in if reportId \<noteq> 5 then (kIOReturnUnsupported, kb, s1)
                    else if kb_lastLedState kb = state then (kIOReturnSuccess, kb, s1)
                    else
                      (let kb1 = kb\<lparr>kb_lastLedState := state\<rparr>;
                           ((kr', memory), s2) = createWithBytes env (Some [6, state]) True s1
                       in if kr' \<noteq> kIOReturnSuccess then (kr', kb1, s2)
                          else (kIOReturnSuccess, kb1, dk_release memory (snd (postReport env memory s2)))))))"

section \<open>The pointing device\<close>

record pointing_ivars =
  pt_provider :: bool
  pt_ready :: bool

definition pointing_init :: "bool \<Rightarrow> bool \<Rightarrow> pointing_ivars option" where
  "pointing_init super alloc =
     (if \<not> super then None
      else if \<not> alloc then None
      else Some \<lparr>pt_provider = False, pt_ready = False\<rparr>)"

definition pointing_free :: "pointing_ivars option \<Rightarrow> pointing_ivars option" where
  "pointing_free ivars = (case ivars of None \<Rightarrow> ivars | Some pt \<Rightarrow> None)"

definition pointing_handleStart :: "service_class \<Rightarrow> bool \<Rightarrow> pointing_ivars \<Rightarrow> bool \<times> pointing_ivars" where
  "pointing_handleStart provider super pt =
     (let pt1 = pt\<lparr>pt_provider := (provider = Service_user_client)\<rparr>
      in if \<not> pt_provider pt1 then (False, pt1)
         else if \<not> super then (False, pt1)
         else (True, pt1\<lparr>pt_ready := True\<rparr>))"

definition pointing_Stop :: "kern_return \<Rightarrow> pointing_ivars \<Rightarrow> kern_return \<times> pointing_ivars" where
  "pointing_Stop super pt = (super, pt\<lparr>pt_provider := False\<rparr>)"

definition pointing_getReady :: "pointing_ivars \<Rightarrow> bool" where
  "pointing_getReady pt = pt_ready pt"

definition pointing_newReportDescriptor :: bytes where
  "pointing_newReportDescriptor = pointing_reportDescriptor"

section \<open>Device descriptions\<close>

text \<open>
  The property keys and the usage constants the sources take from the SDK are constructors. Every
  \<^verbatim>\<open>OSString\<close> and \<^verbatim>\<open>OSNumber\<close> is allocated, and its property is left out when that fails: \<open>alloc key\<close>
  says whether the object of a property could be made.
\<close>

datatype property_key =
    Property string
  | kIOHIDManufacturerKey | kIOHIDProductKey | kIOHIDSerialNumberKey | kIOHIDVendorIDKey
  | kIOHIDProductIDKey | kIOHIDLocationIDKey | kIOHIDCountryCodeKey | kIOHIDPrimaryUsagePageKey
  | kIOHIDPrimaryUsageKey

datatype property_value =
    OS_boolean bool | OS_string string | OS_number u32
  | kHIDPage_GenericDesktop | kHIDUsage_GD_Keyboard | kHIDUsage_GD_Mouse

definition set_property ::
  "(property_key \<Rightarrow> bool) \<Rightarrow> property_key \<Rightarrow> property_value \<Rightarrow>
   (property_key \<times> property_value) list \<Rightarrow> (property_key \<times> property_value) list" where
  "set_property alloc k v d = (if alloc k then d @ [(k, v)] else d)"

text \<open>
  \<open>dict\<close> is the result of \<^verbatim>\<open>OSDictionary::withCapacity\<close>, \<open>ids\<close> the answers of the provider's
  \<^verbatim>\<open>getKeyboardVendorId\<close>, \<^verbatim>\<open>getKeyboardProductId\<close> and \<^verbatim>\<open>getKeyboardCountryCode\<close>, and \<open>version\<close> the
  string the build substitutes for \<^verbatim>\<open>KARABINER_DRIVERKIT_VERSION\<close>.
\<close>

definition keyboard_newDeviceDescription ::
  "string \<Rightarrow> bool \<Rightarrow> (property_key \<Rightarrow> bool) \<Rightarrow> u32 \<times> u32 \<times> u32 \<Rightarrow> keyboard_ivars \<Rightarrow>
   (property_key \<times> property_value) list option" where
  "keyboard_newDeviceDescription version dict alloc ids kb =
     (if \<not> dict then None
      else
        (let (vendor, product, country) =
               (if kb_provider kb then ids else (0x16c0, 0x27db, 0));
             d0 = [(Property ''RegisterService'', OS_boolean True),
                   (Property ''HIDDefaultBehavior'', OS_boolean True),
                   (Property ''AppleVendorSupported'', OS_boolean True)];
             d1 = set_property alloc kIOHIDManufacturerKey (OS_string ''pqrs.org'') d0;
             d2 = set_property alloc kIOHIDProductKey
                    (OS_string (''Karabiner DriverKit VirtualHIDKeyboard '' @ version)) d1;
             d3 = set_property alloc kIOHIDSerialNumberKey
                    (OS_string ''pqrs.org:Karabiner-DriverKit-VirtualHIDKeyboard'') d2;
             d4 = set_property alloc kIOHIDVendorIDKey (OS_number vendor) d3;
             d5 = set_property alloc kIOHIDProductIDKey (OS_number product) d4;
             d6 = set_property alloc kIOHIDLocationIDKey (OS_number 0) d5;
             d7 = set_property alloc kIOHIDCountryCodeKey (OS_number country) d6;
             d8 = set_property alloc kIOHIDPrimaryUsagePageKey kHIDPage_GenericDesktop d7;
             d9 = set_property alloc kIOHIDPrimaryUsageKey kHIDUsage_GD_Keyboard d8
         in Some d9))"

definition pointing_newDeviceDescription ::
  "string \<Rightarrow> bool \<Rightarrow> (property_key \<Rightarrow> bool) \<Rightarrow> (property_key \<times> property_value) list option" where
  "pointing_newDeviceDescription version dict alloc =
     (if \<not> dict then None
      else
        (let d0 = [(Property ''RegisterService'', OS_boolean True),
                   (Property ''HIDDefaultBehavior'', OS_boolean True)];
             d1 = set_property alloc kIOHIDManufacturerKey (OS_string ''pqrs.org'') d0;
             d2 = set_property alloc kIOHIDProductKey
                    (OS_string (''Karabiner DriverKit VirtualHIDPointing '' @ version)) d1;
             d3 = set_property alloc kIOHIDSerialNumberKey
                    (OS_string ''pqrs.org:Karabiner-DriverKit-VirtualHIDPointing'') d2;
             d4 = set_property alloc kIOHIDVendorIDKey (OS_number 0x16c0) d3;
             d5 = set_property alloc kIOHIDProductIDKey (OS_number 0x27da) d4;
             d6 = set_property alloc kIOHIDLocationIDKey (OS_number 0) d5;
             d7 = set_property alloc kIOHIDPrimaryUsagePageKey kHIDPage_GenericDesktop d6;
             d8 = set_property alloc kIOHIDPrimaryUsageKey kHIDUsage_GD_Mouse d7
         in Some d8))"

section \<open>Effects of the operations\<close>

lemma dk_release_simps [simp]:
  "dk_world (dk_release m s) = dk_world s" "dk_posted (dk_release m s) = dk_posted s"
  "dk_live (dk_release m s) = dk_live s - (if m = None then 0 else 1)"
  by (simp_all add: dk_release_def split: option.split)

lemma dk_retain_simps [simp]:
  "dk_world (dk_retain s) = dk_world s" "dk_posted (dk_retain s) = dk_posted s"
  "dk_live (dk_retain s) = dk_live s + 1"
  by (simp_all add: dk_retain_def)

lemma createWithBytes_effect:
  assumes "createWithBytes env src memory s = ((kr, m), s')"
  shows "dk_posted s' = dk_posted s"
    and "dk_live s' = dk_live s + (if m = None then 0 else 1)"
    and "kr = kIOReturnSuccess \<longleftrightarrow> m \<noteq> None"
    and "m \<noteq> None \<Longrightarrow> m = src"
  using assms
  by (auto simp: createWithBytes_def Let_def split: option.splits if_splits prod.splits)

lemma postReport_effect:
  assumes "postReport env m s = (kr, s')"
  shows "dk_live s' = dk_live s"
    and "dk_posted s' = dk_posted s \<or> (\<exists>bs len. m = Some bs \<and> dk_posted s' = dk_posted s @ [(bs, len)])"
    and "m = None \<Longrightarrow> kr = kIOReturnBadArgument \<and> s' = s"
  using assms by (auto simp: postReport_def Let_def split: option.splits if_splits prod.splits)

lemma post_inputs_live [frame_simps]: "dk_live (snd (post_inputs env is s)) = dk_live s"
proof (induction "is" arbitrary: s)
  case (Cons i "is")
  obtain kr m s1 where c: "createWithBytes env (Some i) True s = ((kr, m), s1)"
    by (metis surj_pair)
  note e = createWithBytes_effect[OF c]
  have "dk_live (snd (postReport env m s1)) = dk_live s1"
    by (metis postReport_effect(1) prod.collapse)
  with e show ?case using Cons.IH by (auto simp: c Let_def)
qed simp

lemma keyboard_reset_live [frame_simps]: "dk_live (snd (keyboard_reset env s)) = dk_live s"
  unfolding keyboard_reset_def by (rule post_inputs_live)

lemma pointing_reset_live [frame_simps]: "dk_live (snd (pointing_reset env s)) = dk_live s"
  unfolding pointing_reset_def by (rule post_inputs_live)

text \<open>
  The behaviour of the framework when nothing goes wrong: buffers of a length can be made and are
  mapped with that length, a report is mapped as its bytes, and the length of a descriptor is the
  number of its bytes. A theorem that says a report \<^emph>\<open>is\<close> delivered assumes it.
\<close>

definition dk_reliable :: "'w driverkit \<Rightarrow> bool" where
  "dk_reliable env \<longleftrightarrow>
     (\<forall>n w. fst (dk_create_buffer env n w) = kIOReturnSuccess) \<and>
     (\<forall>n w. fst (dk_map_buffer env n w) = (kIOReturnSuccess, n)) \<and>
     (\<forall>bs w. fst (dk_map_report env bs w) = (kIOReturnSuccess, bs)) \<and>
     (\<forall>bs w. fst (dk_get_length env bs w) = (kIOReturnSuccess, of_nat (length bs)))"

text \<open>A concrete framework with these properties, used by the witnesses: the world is a unit value.\<close>

definition dk_unit :: "unit driverkit" where
  "dk_unit = \<lparr>dk_create_buffer = (\<lambda>n w. (kIOReturnSuccess, w)),
     dk_map_buffer = (\<lambda>n w. ((kIOReturnSuccess, n), w)),
     dk_map_report = (\<lambda>bs w. ((kIOReturnSuccess, bs), w)),
     dk_get_length = (\<lambda>bs w. ((kIOReturnSuccess, of_nat (length bs)), w)),
     dk_handle_report = (\<lambda>bs n w. (kIOReturnSuccess, w)),
     dk_create_service = (\<lambda>key w. ((kIOReturnSuccess,
        if key = ''VirtualHIDKeyboardProperties'' then Service_keyboard
        else if key = ''VirtualHIDPointingProperties'' then Service_pointing
        else Service_user_client), w))\<rparr>"

definition dk_idle :: "unit dk" where
  "dk_idle = \<lparr>dk_world = (), dk_live = 0, dk_posted = []\<rparr>"

lemma dk_unit_reliable: "dk_reliable dk_unit"
  by (simp add: dk_reliable_def dk_unit_def)

abbreviation posted_as :: "bytes \<Rightarrow> bytes \<times> u32" where
  "posted_as bs \<equiv> (bs, of_nat (length bs))"

lemma createWithBytes_reliable:
  assumes "dk_reliable env"
  shows "\<exists>w. createWithBytes env (Some bs) True s =
     ((kIOReturnSuccess, Some bs), s\<lparr>dk_world := w, dk_live := dk_live s + 1\<rparr>)"
proof -
  obtain w1 where c: "dk_create_buffer env (length bs) (dk_world s) = (kIOReturnSuccess, w1)"
    using assms unfolding dk_reliable_def by (metis prod.collapse)
  obtain w2 where m: "dk_map_buffer env (length bs) w1 = ((kIOReturnSuccess, length bs), w2)"
    using assms unfolding dk_reliable_def by (metis prod.collapse)
  show ?thesis
    by (rule exI[of _ w2]) (simp add: createWithBytes_def Let_def dk_retain_def c m)
qed

lemma ucast_word_of_nat: "ucast (of_nat n :: u64) = (of_nat n :: u32)"
  by (simp add: unsigned_of_nat word_of_nat_eq_iff)

lemma postReport_reliable:
  assumes "dk_reliable env"
  shows "\<exists>w. snd (postReport env (Some bs) s) =
     s\<lparr>dk_world := w, dk_posted := dk_posted s @ [(bs, of_nat (length bs))]\<rparr>"
proof -
  obtain w1 where l: "dk_get_length env bs (dk_world s) = ((kIOReturnSuccess, of_nat (length bs)), w1)"
    using assms unfolding dk_reliable_def by (metis prod.collapse)
  show ?thesis
    by (rule exI[of _ "snd (dk_handle_report env bs (of_nat (length bs)) w1)"])
      (simp add: postReport_def Let_def l ucast_word_of_nat split: prod.split)
qed

lemma post_inputs_reliable:
  assumes "dk_reliable env"
  shows "fst (post_inputs env is s) = kIOReturnSuccess \<and>
     dk_posted (snd (post_inputs env is s)) = dk_posted s @ map posted_as is"
proof (induction "is" arbitrary: s)
  case (Cons i "is")
  obtain w where c: "createWithBytes env (Some i) True s =
     ((kIOReturnSuccess, Some i), s\<lparr>dk_world := w, dk_live := dk_live s + 1\<rparr>)"
    using createWithBytes_reliable[OF assms] by blast
  obtain w' where p: "snd (postReport env (Some i) (s\<lparr>dk_world := w, dk_live := dk_live s + 1\<rparr>)) =
     s\<lparr>dk_live := dk_live s + 1, dk_world := w', dk_posted := dk_posted s @ [posted_as i]\<rparr>"
    using postReport_reliable[OF assms, of i "s\<lparr>dk_world := w, dk_live := dk_live s + 1\<rparr>"] by auto
  show ?case by (simp add: c p Cons.IH)
qed simp

section \<open>Properties\<close>

definition keyboard_empty_reports :: "bytes list" where
  "keyboard_empty_reports =
     [keyboard_input_image keyboard_input_init, keys_input_image consumer_input_init,
      keys_input_image apple_vendor_keyboard_input_init,
      keys_input_image apple_vendor_top_case_input_init, keys_input_image generic_desktop_input_init]"

lemma keyboard_empty_report_lengths: "map length keyboard_empty_reports = [67, 65, 65, 65, 65]"
  using keys_wf_init
  by (simp add: keyboard_empty_reports_def keyboard_input_image_def keys_input_image_def
      report_init_defs image_simps keys_wf_def)

text \<open>
  \<^verbatim>\<open>reset\<close> of the keyboard releases everything: it posts exactly one empty report per report class, in
  the order of the source, and each has the length the report descriptor declares for its id.
\<close>

theorem keyboard_reset_posts_empty_reports:
  assumes "dk_reliable env"
  shows "fst (keyboard_reset env s) = kIOReturnSuccess \<and>
    dk_posted (snd (keyboard_reset env s)) = dk_posted s @ map posted_as keyboard_empty_reports \<and>
    map (\<lambda>bs. report_length Input_report (Some (unat (hd bs))) keyboard_fields) keyboard_empty_reports
      = map length keyboard_empty_reports"
  using post_inputs_reliable[OF assms, of keyboard_empty_reports s]
  unfolding keyboard_empty_report_lengths
  by (simp add: keyboard_reset_def keyboard_empty_reports_def keyboard_input_image_def
      keys_input_image_def report_init_defs keyboard_fields_def keyboard_descriptor_fields layout_eval)

theorem keyboard_reset_posts_empty_reports_witness:
  "map (\<lambda>r. hd (fst r)) (dk_posted (snd (keyboard_reset dk_unit dk_idle))) = [1, 2, 4, 3, 7]"
  using keyboard_reset_posts_empty_reports[OF dk_unit_reliable, of dk_idle]
  by (simp add: dk_idle_def keyboard_empty_reports_def keyboard_input_image_def
      keys_input_image_def report_init_defs)

lemma setReport_effect:
  assumes "setReport env report kb s = (kr, kb', s')"
  shows "dk_live s' = dk_live s" "kb_provider kb' = kb_provider kb" "kb_ready kb' = kb_ready kb"
    and "dk_posted s' = dk_posted s \<or>
      (\<exists>state len. dk_posted s' = dk_posted s @ [([6, state], len)] \<and>
         kb_lastLedState kb' = state \<and> state \<noteq> kb_lastLedState kb \<and> kr = kIOReturnSuccess)"
    and "report = None \<Longrightarrow> kr = kIOReturnBadArgument \<and> kb' = kb \<and> s' = s"
proof -
  have led: "dk_live (dk_release m (snd (postReport env m s2))) = dk_live s1 \<and>
      (dk_posted (snd (postReport env m s2)) = dk_posted s1 \<or>
       (\<exists>len. dk_posted (snd (postReport env m s2)) = dk_posted s1 @ [([6, st], len)]))"
    if "createWithBytes env (Some [6, st]) True s1 = ((kr1, m), s2)" for st s1 s2 kr1 m
    using createWithBytes_effect[OF that] postReport_effect[of env m s2, OF prod.collapse[symmetric]]
    by auto
  from assms show "dk_live s' = dk_live s" "kb_provider kb' = kb_provider kb" "kb_ready kb' = kb_ready kb"
    "dk_posted s' = dk_posted s \<or>
      (\<exists>state len. dk_posted s' = dk_posted s @ [([6, state], len)] \<and>
         kb_lastLedState kb' = state \<and> state \<noteq> kb_lastLedState kb \<and> kr = kIOReturnSuccess)"
    "report = None \<Longrightarrow> kr = kIOReturnBadArgument \<and> kb' = kb \<and> s' = s"
    by (auto simp: setReport_def Let_def createWithBytes_effect
        split: option.splits if_splits prod.splits dest!: led)
qed

text \<open>
  \<^verbatim>\<open>setReport\<close> is safe on every path: it keeps no memory descriptor, changes no field but
  \<^verbatim>\<open>lastLedState\<close>, and posts at most one report, the LED input report 6 with a state that differs
  from the one last seen; a null report and a report of another id are refused.
\<close>

theorem setReport_safe:
  assumes "setReport env report kb s = (kr, kb', s')"
  shows "dk_live s' = dk_live s \<and>
    kb_provider kb' = kb_provider kb \<and> kb_ready kb' = kb_ready kb \<and>
    (dk_posted s' = dk_posted s \<or>
      (\<exists>state len. dk_posted s' = dk_posted s @ [([6, state], len)] \<and>
         kb_lastLedState kb' = state \<and> state \<noteq> kb_lastLedState kb \<and> kr = kIOReturnSuccess)) \<and>
    (report = None \<longrightarrow> kr = kIOReturnBadArgument \<and> kb' = kb \<and> s' = s)"
  using setReport_effect[OF assms] by blast

theorem setReport_safe_witness:
  "dk_posted (snd (snd (setReport dk_unit (Some [5, 2])
     \<lparr>kb_provider = True, kb_ready = True, kb_lastLedState = 0\<rparr> dk_idle))) = [([6, 2], 2)] \<and>
   dk_live (snd (snd (setReport dk_unit (Some [5, 2])
     \<lparr>kb_provider = True, kb_ready = True, kb_lastLedState = 0\<rparr> dk_idle))) = 0"
proof -
  let ?r = "setReport dk_unit (Some [5, 2])
     \<lparr>kb_provider = True, kb_ready = True, kb_lastLedState = 0\<rparr> dk_idle"
  have "dk_live (snd (snd ?r)) = dk_live dk_idle"
    by (rule setReport_safe[of dk_unit "Some [5, 2]" _ dk_idle "fst ?r" "fst (snd ?r)", THEN conjunct1]) simp
  then show ?thesis
    by (simp add: setReport_def dk_unit_def dk_idle_def createWithBytes_def postReport_def
        dk_release_def dk_retain_def)
qed

text \<open>A sequence of LED output reports and the states that differ from their predecessor.\<close>

primrec set_leds :: "'w driverkit \<Rightarrow> u8 list \<Rightarrow> keyboard_ivars \<times> 'w dk \<Rightarrow> keyboard_ivars \<times> 'w dk" where
  "set_leds env [] ks = ks"
| "set_leds env (st # sts) ks = set_leds env sts (snd (setReport env (Some [5, st]) (fst ks) (snd ks)))"

primrec led_changes :: "u8 \<Rightarrow> u8 list \<Rightarrow> u8 list" where
  "led_changes l [] = []"
| "led_changes l (x # xs) = (if l = x then led_changes l xs else x # led_changes x xs)"

lemma setReport_reliable:
  assumes "dk_reliable env"
  shows "\<exists>w. setReport env (Some [5, st]) kb s = (kIOReturnSuccess, kb\<lparr>kb_lastLedState := st\<rparr>,
     s\<lparr>dk_world := w, dk_posted := dk_posted s @ (if kb_lastLedState kb = st then [] else [([6, st], 2)])\<rparr>)"
proof -
  obtain w1 where m: "dk_map_report env [5, st] (dk_world s) = ((kIOReturnSuccess, [5, st]), w1)"
    using assms unfolding dk_reliable_def by (metis prod.collapse)
  obtain w2 where c: "createWithBytes env (Some [6, st]) True (s\<lparr>dk_world := w1\<rparr>) =
     ((kIOReturnSuccess, Some [6, st]), s\<lparr>dk_world := w2, dk_live := dk_live s + 1\<rparr>)"
    using createWithBytes_reliable[OF assms, of "[6, st]" "s\<lparr>dk_world := w1\<rparr>"] by auto
  obtain w3 where p: "snd (postReport env (Some [6, st]) (s\<lparr>dk_world := w2, dk_live := dk_live s + 1\<rparr>)) =
     s\<lparr>dk_live := dk_live s + 1, dk_world := w3, dk_posted := dk_posted s @ [([6, st], 2)]\<rparr>"
    using postReport_reliable[OF assms, of "[6, st]" "s\<lparr>dk_world := w2, dk_live := dk_live s + 1\<rparr>"] by auto
  show ?thesis
    by (cases "kb_lastLedState kb = st")
      (auto simp: setReport_def m c p dk_release_def)
qed

text \<open>
  Whatever LED states the system sets, the keyboard posts one LED report per change and none for a
  repeated state, in order, and remembers the last state.
\<close>

theorem led_reports_follow_changes:
  assumes "dk_reliable env"
  shows "dk_posted (snd (set_leds env sts (kb, s))) =
      dk_posted s @ map (\<lambda>st. ([6, st], 2)) (led_changes (kb_lastLedState kb) sts) \<and>
    kb_lastLedState (fst (set_leds env sts (kb, s))) = last (kb_lastLedState kb # sts)"
proof (induction sts arbitrary: kb s)
  case (Cons st sts)
  obtain w where "setReport env (Some [5, st]) kb s = (kIOReturnSuccess, kb\<lparr>kb_lastLedState := st\<rparr>,
     s\<lparr>dk_world := w, dk_posted := dk_posted s @ (if kb_lastLedState kb = st then [] else [([6, st], 2)])\<rparr>)"
    using setReport_reliable[OF assms] by blast
  then show ?case
    using Cons.IH[of "kb\<lparr>kb_lastLedState := st\<rparr>"] by auto
qed simp

theorem led_reports_follow_changes_witness:
  "dk_posted (snd (set_leds dk_unit [2, 2, 0]
     (\<lparr>kb_provider = True, kb_ready = True, kb_lastLedState = 0\<rparr>, dk_idle))) = [([6, 2], 2), ([6, 0], 2)]"
  using led_reports_follow_changes[OF dk_unit_reliable, of "[2, 2, 0]"
      "\<lparr>kb_provider = True, kb_ready = True, kb_lastLedState = 0\<rparr>" dk_idle]
  by (simp add: dk_idle_def)

text \<open>
  When the buffer of an LED report cannot be made, \<^verbatim>\<open>setReport\<close> returns the error, but it has already
  stored the new state: setting the same state again reports success and posts nothing, so the
  change is lost.
\<close>

theorem led_change_lost_after_failure:
  assumes map_ok: "\<And>w. fst (dk_map_report env [5, st] w) = (kIOReturnSuccess, [5, st])"
    and fail: "\<And>w. fst (dk_create_buffer env 2 w) = kern_return_other e"
    and changed: "st \<noteq> kb_lastLedState kb"
    and first: "setReport env (Some [5, st]) kb s = (kr1, kb1, s1)"
    and second: "setReport env' (Some [5, st]) kb1 s1 = (kr2, kb2, s2)"
    and map_ok': "\<And>w. fst (dk_map_report env' [5, st] w) = (kIOReturnSuccess, [5, st])"
  shows "kr1 = kern_return_other e \<and> kr2 = kIOReturnSuccess \<and> dk_posted s2 = dk_posted s"
proof -
  obtain w1 where m: "dk_map_report env [5, st] (dk_world s) = ((kIOReturnSuccess, [5, st]), w1)"
    using map_ok by (metis prod.collapse)
  obtain w2 where c: "dk_create_buffer env (Suc (Suc 0)) w1 = (kern_return_other e, w2)"
    using fail by (metis numeral_2_eq_2 prod.collapse)
  have 1: "kr1 = kern_return_other e" "kb_lastLedState kb1 = st" "dk_posted s1 = dk_posted s"
    using first changed by (auto simp: setReport_def createWithBytes_def m c)
  obtain w3 where "dk_map_report env' [5, st] (dk_world s1) = ((kIOReturnSuccess, [5, st]), w3)"
    using map_ok' by (metis prod.collapse)
  with 1 second show ?thesis by (auto simp: setReport_def)
qed

theorem led_change_lost_after_failure_witness:
  "let env = dk_unit\<lparr>dk_create_buffer := \<lambda>n w. (kern_return_other 1, w)\<rparr>;
       kb = \<lparr>kb_provider = True, kb_ready = True, kb_lastLedState = 0\<rparr>;
       (kr1, kb1, s1) = setReport env (Some [5, 2]) kb dk_idle;
       (kr2, kb2, s2) = setReport dk_unit (Some [5, 2]) kb1 s1
   in kr1 = kern_return_other 1 \<and> kr2 = kIOReturnSuccess \<and> dk_posted s2 = []"
proof -
  let ?env = "dk_unit\<lparr>dk_create_buffer := \<lambda>n w. (kern_return_other 1, w)\<rparr>"
  let ?kb = "\<lparr>kb_provider = True, kb_ready = True, kb_lastLedState = 0\<rparr>"
  let ?a = "setReport ?env (Some [5, 2]) ?kb dk_idle"
  let ?b = "setReport dk_unit (Some [5, 2]) (fst (snd ?a)) (snd (snd ?a))"
  have "fst ?a = kern_return_other 1 \<and> fst ?b = kIOReturnSuccess \<and> dk_posted (snd (snd ?b)) = dk_posted dk_idle"
    by (rule led_change_lost_after_failure[of ?env 2 1 ?kb dk_idle "fst ?a" "fst (snd ?a)" "snd (snd ?a)"
          dk_unit "fst ?b" "fst (snd ?b)"]) (simp_all add: dk_unit_def)
  then show ?thesis by (simp add: Let_def case_prod_beta dk_idle_def)
qed

end
