(* ===== verification/Driver_Interface.thy ===== *)
theory Driver_Interface
  imports Prelude
begin

text \<open>
  The methods of the driver's user client (\<^verbatim>\<open>virtual_hid_device_driver/user_client_method.hpp\<close>), which
  the daemon names in its IOKit calls and the user client decodes.
\<close>

datatype user_client_method =
    method_driver_version
  | method_virtual_hid_keyboard_initialize
  | method_virtual_hid_keyboard_ready
  | method_virtual_hid_keyboard_post_report
  | method_virtual_hid_keyboard_reset
  | method_virtual_hid_pointing_initialize
  | method_virtual_hid_pointing_ready
  | method_virtual_hid_pointing_post_report
  | method_virtual_hid_pointing_reset

primrec method_value :: "user_client_method \<Rightarrow> u32" where
  "method_value method_driver_version = 0"
| "method_value method_virtual_hid_keyboard_initialize = 1"
| "method_value method_virtual_hid_keyboard_ready = 2"
| "method_value method_virtual_hid_keyboard_post_report = 3"
| "method_value method_virtual_hid_keyboard_reset = 4"
| "method_value method_virtual_hid_pointing_initialize = 5"
| "method_value method_virtual_hid_pointing_ready = 6"
| "method_value method_virtual_hid_pointing_post_report = 7"
| "method_value method_virtual_hid_pointing_reset = 8"

definition all_methods :: "user_client_method list" where
  "all_methods = [method_driver_version, method_virtual_hid_keyboard_initialize,
     method_virtual_hid_keyboard_ready, method_virtual_hid_keyboard_post_report,
     method_virtual_hid_keyboard_reset, method_virtual_hid_pointing_initialize,
     method_virtual_hid_pointing_ready, method_virtual_hid_pointing_post_report,
     method_virtual_hid_pointing_reset]"

text \<open>
  \<^verbatim>\<open>user_client_method(selector)\<close>: the 64-bit selector is converted to the enumeration's underlying
  32-bit integer; \<open>None\<close> is the \<^verbatim>\<open>default\<close> case of the switch.
\<close>

definition method_of_selector :: "u64 \<Rightarrow> user_client_method option" where
  "method_of_selector selector = find (\<lambda>m. method_value m = ucast selector) all_methods"

text \<open>The selector the daemon passes: \<^verbatim>\<open>static_cast<uint32_t>(user_client_method)\<close>, widened by the kernel.\<close>

definition selector_of_method :: "user_client_method \<Rightarrow> u64" where
  "selector_of_method m = ucast (method_value m)"

lemma method_of_selector_of_method [simp]: "method_of_selector (selector_of_method m) = Some m"
  by (cases m) (simp_all add: method_of_selector_def selector_of_method_def all_methods_def)

end
