(* ===== verification/Driver_User_Client.thy ===== *)
theory Driver_User_Client
  imports Driver_Device Driver_Interface
begin

text \<open>
  The driver's user client, the object behind one connection of the daemon
  (\<^verbatim>\<open>VirtualHIDDeviceUserClient.cpp\<close>), and the root service that creates it
  (\<^verbatim>\<open>VirtualHIDDeviceRoot.cpp\<close>). The number the build substitutes for
  \<^verbatim>\<open>KARABINER_DRIVERKIT_VERSION_NUMBER\<close> is the parameter \<open>version\<close>.
\<close>

section \<open>State\<close>

record user_client =
  uc_keyboardVendorId :: u32
  uc_keyboardProductId :: u32
  uc_keyboardCountryCode :: u32
  uc_keyboard :: "keyboard_ivars option"
  uc_pointing :: "pointing_ivars option"

definition user_client_init :: "bool \<Rightarrow> bool \<Rightarrow> user_client option" where
  "user_client_init super alloc =
     (if \<not> super then None
      else if \<not> alloc then None
      else Some \<lparr>uc_keyboardVendorId = 0, uc_keyboardProductId = 0, uc_keyboardCountryCode = 0,
                 uc_keyboard = None, uc_pointing = None\<rparr>)"

text \<open>
  \<^verbatim>\<open>free\<close>: the devices the user client releases, or the access through a null pointer when there are no instance
  variables. The framework calls it for an object whose \<^verbatim>\<open>init\<close> failed, too.
\<close>

datatype free_error = Null_dereference

definition user_client_free :: "user_client option \<Rightarrow> free_error + service_class list" where
  "user_client_free ivars =
     (case ivars of
        None \<Rightarrow> Inl Null_dereference
      | Some uc \<Rightarrow>
          Inr ((case uc_keyboard uc of None \<Rightarrow> [] | Some kb \<Rightarrow> [Service_keyboard]) @
               (case uc_pointing uc of None \<Rightarrow> [] | Some pt \<Rightarrow> [Service_pointing])))"

definition user_client_Start :: "kern_return \<Rightarrow> kern_return" where
  "user_client_Start super = (if super \<noteq> kIOReturnSuccess then super else kIOReturnSuccess)"

definition user_client_Stop :: "kern_return \<Rightarrow> kern_return" where
  "user_client_Stop super = super"

definition getKeyboardVendorId :: "user_client \<Rightarrow> u32" where
  "getKeyboardVendorId uc = uc_keyboardVendorId uc"

definition getKeyboardProductId :: "user_client \<Rightarrow> u32" where
  "getKeyboardProductId uc = uc_keyboardProductId uc"

definition getKeyboardCountryCode :: "user_client \<Rightarrow> u32" where
  "getKeyboardCountryCode uc = uc_keyboardCountryCode uc"

section \<open>Method arguments\<close>

text \<open>
  \<^verbatim>\<open>IOUserClientMethodArguments\<close>. The scalar arrays carry their counts as lengths and \<open>None\<close> is a null
  output array. \<open>ma_structureInput\<close> is the \<^verbatim>\<open>OSData\<close> (\<open>None\<close> when absent), itself the result of
  \<^verbatim>\<open>getBytesNoCopy\<close>, which may be null.
\<close>

record method_arguments =
  ma_scalarInput :: "u64 list"
  ma_scalarOutput :: "u64 list option"
  ma_structureInput :: "bytes option option"
  ma_structureInputDescriptor :: "bytes option"

definition createIOMemoryDescriptor ::
  "'w driverkit \<Rightarrow> method_arguments \<Rightarrow> bool \<Rightarrow> 'w dk \<Rightarrow> (kern_return \<times> bytes option) \<times> 'w dk" where
  "createIOMemoryDescriptor env arguments memory s =
     (if \<not> memory then ((kIOReturnBadArgument, None), s)
      else
        (case ma_structureInput arguments of
           Some bs \<Rightarrow>
             (let ((kr, m), s1) = createWithBytes env bs True s
              in if kr \<noteq> kIOReturnSuccess then ((kr, None), s1) else ((kIOReturnSuccess, m), s1))
         | None \<Rightarrow>
             (case ma_structureInputDescriptor arguments of
                Some d \<Rightarrow> ((kIOReturnSuccess, Some d), dk_retain s)
              | None \<Rightarrow> ((kIOReturnSuccess, None), s))))"

text \<open>The report of a \<^verbatim>\<open>post_report\<close> method: create, post, release.\<close>

definition post_report_method ::
  "'w driverkit \<Rightarrow> method_arguments \<Rightarrow> 'w dk \<Rightarrow> kern_return \<times> 'w dk" where
  "post_report_method env arguments s =
     (let ((kr, memory), s1) = createIOMemoryDescriptor env arguments True s
      in if kr = kIOReturnSuccess
         then (let (kr', s2) = postReport env memory s1 in (kr', dk_release memory s2))
         else (kr, s1))"

text \<open>A scalar result goes into the first output slot, if there is one.\<close>

definition scalar_result ::
  "u64 \<Rightarrow> method_arguments \<Rightarrow> kern_return \<times> method_arguments" where
  "scalar_result v arguments =
     (case ma_scalarOutput arguments of
        Some out \<Rightarrow>
          if 0 < length out
          then (kIOReturnSuccess, arguments\<lparr>ma_scalarOutput := Some (out[0 := v])\<rparr>)
          else (kIOReturnError, arguments)
      | None \<Rightarrow> (kIOReturnError, arguments))"

section \<open>ExternalMethod\<close>

text \<open>
  \<^verbatim>\<open>Create\<close> instantiates the class named by the property; a service of another class fails the
  \<^verbatim>\<open>OSDynamicCast\<close>. A freshly created device has run its \<^verbatim>\<open>init\<close>; \<^verbatim>\<open>handleStart\<close> comes later.
\<close>

definition new_keyboard :: "keyboard_ivars" where
  "new_keyboard = \<lparr>kb_provider = False, kb_ready = False, kb_lastLedState = 0\<rparr>"

definition new_pointing :: "pointing_ivars" where
  "new_pointing = \<lparr>pt_provider = False, pt_ready = False\<rparr>"

definition keyboard_initialize_method ::
  "'w driverkit \<Rightarrow> method_arguments \<Rightarrow> user_client \<Rightarrow> 'w dk \<Rightarrow> kern_return \<times> user_client \<times> 'w dk" where
  "keyboard_initialize_method env arguments uc s =
     (if uc_keyboard uc = None then
        (let uc1 = (if length (ma_scalarInput arguments) > 2
                    then uc\<lparr>uc_keyboardVendorId := ucast (ma_scalarInput arguments ! 0),
                            uc_keyboardProductId := ucast (ma_scalarInput arguments ! 1),
                            uc_keyboardCountryCode := ucast (ma_scalarInput arguments ! 2)\<rparr>
                    else uc);
             ((kr, service), w1) = dk_create_service env ''VirtualHIDKeyboardProperties'' (dk_world s);
             s1 = s\<lparr>dk_world := w1\<rparr>
         in if kr \<noteq> kIOReturnSuccess then (kr, uc1, s1)
            else if service \<noteq> Service_keyboard then (kIOReturnError, uc1, s1)
            else (kIOReturnSuccess, uc1\<lparr>uc_keyboard := Some new_keyboard\<rparr>, s1))
      else (kIOReturnSuccess, uc, s))"

definition pointing_initialize_method ::
  "'w driverkit \<Rightarrow> user_client \<Rightarrow> 'w dk \<Rightarrow> kern_return \<times> user_client \<times> 'w dk" where
  "pointing_initialize_method env uc s =
     (if uc_pointing uc = None then
        (let ((kr, service), w1) = dk_create_service env ''VirtualHIDPointingProperties'' (dk_world s);
             s1 = s\<lparr>dk_world := w1\<rparr>
         in if kr \<noteq> kIOReturnSuccess then (kr, uc, s1)
            else if service \<noteq> Service_pointing then (kIOReturnError, uc, s1)
            else (kIOReturnSuccess, uc\<lparr>uc_pointing := Some new_pointing\<rparr>, s1))
      else (kIOReturnSuccess, uc, s))"

definition ExternalMethod ::
  "'w driverkit \<Rightarrow> u64 \<Rightarrow> u64 \<Rightarrow> method_arguments \<Rightarrow> user_client \<Rightarrow> 'w dk \<Rightarrow>
   kern_return \<times> method_arguments \<times> user_client \<times> 'w dk" where
  "ExternalMethod env version selector arguments uc s =
     (case method_of_selector selector of
        Some method_driver_version \<Rightarrow>
          (let (kr, a) = scalar_result version arguments in (kr, a, uc, s))
      | Some method_virtual_hid_keyboard_initialize \<Rightarrow>
          (let (kr, uc1, s1) = keyboard_initialize_method env arguments uc s in (kr, arguments, uc1, s1))
      | Some method_virtual_hid_keyboard_ready \<Rightarrow>
          (let ready = (case uc_keyboard uc of None \<Rightarrow> False | Some kb \<Rightarrow> keyboard_getReady kb);
               (kr, a) = scalar_result (if ready then 1 else 0) arguments
           in (kr, a, uc, s))
      | Some method_virtual_hid_keyboard_post_report \<Rightarrow>
          (if uc_keyboard uc \<noteq> None
           then (let (kr, s1) = post_report_method env arguments s in (kr, arguments, uc, s1))
           else (kIOReturnError, arguments, uc, s))
      | Some method_virtual_hid_keyboard_reset \<Rightarrow>
          (if uc_keyboard uc \<noteq> None
           then (let (kr, s1) = keyboard_reset env s in (kr, arguments, uc, s1))
           else (kIOReturnError, arguments, uc, s))
      | Some method_virtual_hid_pointing_initialize \<Rightarrow>
          (let (kr, uc1, s1) = pointing_initialize_method env uc s in (kr, arguments, uc1, s1))
      | Some method_virtual_hid_pointing_ready \<Rightarrow>
          (let ready = (case uc_pointing uc of None \<Rightarrow> False | Some pt \<Rightarrow> pointing_getReady pt);
               (kr, a) = scalar_result (if ready then 1 else 0) arguments
           in (kr, a, uc, s))
      | Some method_virtual_hid_pointing_post_report \<Rightarrow>
          (if uc_pointing uc \<noteq> None
           then (let (kr, s1) = post_report_method env arguments s in (kr, arguments, uc, s1))
           else (kIOReturnError, arguments, uc, s))
      | Some method_virtual_hid_pointing_reset \<Rightarrow>
          (if uc_pointing uc \<noteq> None
           then (let (kr, s1) = pointing_reset env s in (kr, arguments, uc, s1))
           else (kIOReturnError, arguments, uc, s))
      | None \<Rightarrow> (kIOReturnBadArgument, arguments, uc, s))"

section \<open>The root service\<close>

datatype root_action = Root_super_Stop | Root_RegisterService

definition root_init :: "bool \<Rightarrow> bool \<Rightarrow> bool" where
  "root_init super alloc = (if \<not> super then False else if \<not> alloc then False else True)"

definition root_free :: "unit option \<Rightarrow> unit option" where
  "root_free ivars = (case ivars of None \<Rightarrow> ivars | Some u \<Rightarrow> None)"

text \<open>The result of \<^verbatim>\<open>Start\<close> and the framework calls it makes after \<^verbatim>\<open>super::Start\<close>.\<close>

definition root_Start :: "kern_return \<Rightarrow> kern_return \<times> root_action list" where
  "root_Start super =
     (if super \<noteq> kIOReturnSuccess then (super, [Root_super_Stop])
      else (kIOReturnSuccess, [Root_RegisterService]))"

definition root_Stop :: "kern_return \<Rightarrow> kern_return" where
  "root_Stop super = super"

text \<open>\<^verbatim>\<open>NewUserClient\<close>: the new user client, or \<open>None\<close> with the error.\<close>

definition NewUserClient :: "'w driverkit \<Rightarrow> 'w dk \<Rightarrow> kern_return \<times> user_client option \<times> 'w dk" where
  "NewUserClient env s =
     (let ((kr, service), w1) = dk_create_service env ''UserClientProperties'' (dk_world s);
          s1 = s\<lparr>dk_world := w1\<rparr>
      in if kr \<noteq> kIOReturnSuccess then (kr, None, s1)
         else if service \<noteq> Service_user_client then (kIOReturnError, None, s1)
         else (kIOReturnSuccess, user_client_init True True, s1))"

section \<open>The life of a user client\<close>

text \<open>
  The steps the framework makes on one user client: calls of external methods, the start and stop
  of the devices it created, and output reports to its keyboard.
\<close>

inductive uc_step :: "'w driverkit \<Rightarrow> u64 \<Rightarrow> user_client \<times> 'w dk \<Rightarrow> user_client \<times> 'w dk \<Rightarrow> bool"
  for env version where
  step_method: "ExternalMethod env version selector arguments uc s = (kr, a, uc', s') \<Longrightarrow>
     uc_step env version (uc, s) (uc', s')"
| step_keyboard_start: "uc_keyboard uc = Some kb \<Longrightarrow> keyboard_handleStart provider super kb = (ok, kb') \<Longrightarrow>
     uc_step env version (uc, s) (uc\<lparr>uc_keyboard := Some kb'\<rparr>, s)"
| step_keyboard_stop: "uc_keyboard uc = Some kb \<Longrightarrow> keyboard_Stop super' kb = (kr, kb') \<Longrightarrow>
     uc_step env version (uc, s) (uc\<lparr>uc_keyboard := Some kb'\<rparr>, s)"
| step_led: "uc_keyboard uc = Some kb \<Longrightarrow> setReport env report kb s = (kr, kb', s') \<Longrightarrow>
     uc_step env version (uc, s) (uc\<lparr>uc_keyboard := Some kb'\<rparr>, s')"
| step_pointing_start: "uc_pointing uc = Some pt \<Longrightarrow> pointing_handleStart provider super pt = (ok, pt') \<Longrightarrow>
     uc_step env version (uc, s) (uc\<lparr>uc_pointing := Some pt'\<rparr>, s)"
| step_pointing_stop: "uc_pointing uc = Some pt \<Longrightarrow> pointing_Stop super' pt = (kr, pt') \<Longrightarrow>
     uc_step env version (uc, s) (uc\<lparr>uc_pointing := Some pt'\<rparr>, s)"

abbreviation uc_steps :: "'w driverkit \<Rightarrow> u64 \<Rightarrow> user_client \<times> 'w dk \<Rightarrow> user_client \<times> 'w dk \<Rightarrow> bool" where
  "uc_steps env version \<equiv> rtranclp (uc_step env version)"

inductive_cases uc_stepE: "uc_step env version x y"

section \<open>Effects\<close>

lemma createIOMemoryDescriptor_effect:
  assumes "createIOMemoryDescriptor env arguments memory s = ((kr, m), s')"
  shows "dk_live s' = dk_live s + (if m = None then 0 else 1) \<and> dk_posted s' = dk_posted s \<and>
    (kr \<noteq> kIOReturnSuccess \<longrightarrow> m = None)"
proof (cases "ma_structureInput arguments")
  case (Some bs)
  obtain kr1 m1 s1 where c: "createWithBytes env bs True s = ((kr1, m1), s1)" by (metis surj_pair)
  show ?thesis
    using assms Some createWithBytes_effect[OF c]
    by (auto simp: createIOMemoryDescriptor_def c split: if_splits)
qed (use assms in \<open>auto simp: createIOMemoryDescriptor_def split: option.splits if_splits\<close>)

lemma post_report_method_live [frame_simps]: "dk_live (snd (post_report_method env arguments s)) = dk_live s"
proof -
  obtain kr m s1 where c: "createIOMemoryDescriptor env arguments True s = ((kr, m), s1)"
    by (metis surj_pair)
  obtain kr' s2 where p: "postReport env m s1 = (kr', s2)" by (metis surj_pair)
  from createIOMemoryDescriptor_effect[OF c] postReport_effect(1)[OF p]
  show ?thesis by (auto simp: post_report_method_def c p)
qed

lemma keyboard_initialize_effect:
  assumes "keyboard_initialize_method env arguments uc s = (kr, uc', s')"
  shows "dk_live s' = dk_live s" "dk_posted s' = dk_posted s" "uc_pointing uc' = uc_pointing uc"
    and "uc_keyboard uc \<noteq> None \<Longrightarrow> uc' = uc \<and> s' = s \<and> kr = kIOReturnSuccess"
    and "uc_keyboard uc = None \<Longrightarrow>
       uc_keyboard uc' = (if kr = kIOReturnSuccess then Some new_keyboard else None)"
  using assms
  by (auto simp: keyboard_initialize_method_def Let_def split: if_splits prod.splits)

lemma pointing_initialize_effect:
  assumes "pointing_initialize_method env uc s = (kr, uc', s')"
  shows "dk_live s' = dk_live s" "dk_posted s' = dk_posted s"
    and "uc_pointing uc \<noteq> None \<Longrightarrow> uc' = uc \<and> s' = s \<and> kr = kIOReturnSuccess"
    and "uc_pointing uc = None \<Longrightarrow>
       uc' = uc\<lparr>uc_pointing := (if kr = kIOReturnSuccess then Some new_pointing else None)\<rparr>"
  using assms
  by (auto simp: pointing_initialize_method_def Let_def split: if_splits prod.splits)

lemma ExternalMethod_live:
  assumes "ExternalMethod env version selector arguments uc s = (kr, a, uc', s')"
  shows "dk_live s' = dk_live s"
proof -
  have r: "dk_live (snd (post_report_method env arguments s)) = dk_live s"
    "dk_live (snd (keyboard_reset env s)) = dk_live s" "dk_live (snd (pointing_reset env s)) = dk_live s"
    by (simp_all add: frame_simps)
  with assms show ?thesis
    by (auto simp: ExternalMethod_def Let_def
        split: option.splits user_client_method.splits if_splits prod.splits
        dest: keyboard_initialize_effect pointing_initialize_effect)
qed

abbreviation keyboard_ids :: "user_client \<Rightarrow> u32 \<times> u32 \<times> u32" where
  "keyboard_ids uc \<equiv> (uc_keyboardVendorId uc, uc_keyboardProductId uc, uc_keyboardCountryCode uc)"

lemma ExternalMethod_keyboard:
  assumes "ExternalMethod env version selector arguments uc s = (kr, a, uc', s')" "uc_keyboard uc \<noteq> None"
  shows "keyboard_ids uc' = keyboard_ids uc \<and> uc_keyboard uc' = uc_keyboard uc"
proof -
  have "pointing_initialize_method env uc s = (kr1, uc1, s1) \<Longrightarrow>
      keyboard_ids uc1 = keyboard_ids uc \<and> uc_keyboard uc1 = uc_keyboard uc" for kr1 uc1 s1
    by (cases "uc_pointing uc") (auto dest: pointing_initialize_effect)
  with assms show ?thesis
    by (auto simp: ExternalMethod_def Let_def
        split: option.splits user_client_method.splits if_splits prod.splits
        dest: keyboard_initialize_effect(4))
qed

definition keyboard_is_ready :: "user_client \<Rightarrow> bool" where
  "keyboard_is_ready uc = (case uc_keyboard uc of None \<Rightarrow> False | Some kb \<Rightarrow> keyboard_getReady kb)"

definition pointing_is_ready :: "user_client \<Rightarrow> bool" where
  "pointing_is_ready uc = (case uc_pointing uc of None \<Rightarrow> False | Some pt \<Rightarrow> pointing_getReady pt)"

lemma ready_defs_new: "\<not> keyboard_getReady new_keyboard" "\<not> pointing_getReady new_pointing"
  by (simp_all add: new_keyboard_def new_pointing_def keyboard_getReady_def pointing_getReady_def)

lemma keyboard_initialize_ready:
  assumes "keyboard_initialize_method env arguments uc s = (kr, uc', s')"
  shows "keyboard_is_ready uc' = keyboard_is_ready uc \<and> pointing_is_ready uc' = pointing_is_ready uc"
  using keyboard_initialize_effect[OF assms] ready_defs_new
  by (cases "uc_keyboard uc") (auto simp: keyboard_is_ready_def pointing_is_ready_def)

lemma pointing_initialize_ready:
  assumes "pointing_initialize_method env uc s = (kr, uc', s')"
  shows "keyboard_is_ready uc' = keyboard_is_ready uc \<and> pointing_is_ready uc' = pointing_is_ready uc"
  using pointing_initialize_effect[OF assms] ready_defs_new
  by (cases "uc_pointing uc") (auto simp: keyboard_is_ready_def pointing_is_ready_def)

text \<open>Two things that no step of the framework changes: the held descriptors, and the identity of a keyboard there is.\<close>

interpretation memory: step_invariant "uc_step env version" "\<lambda>y. y = x" "\<lambda>y. dk_live (snd y) = dk_live (snd x)"
  for env version x
proof unfold_locales
  show "dk_live (snd z) = dk_live (snd x)" if "uc_step env version y z" "dk_live (snd y) = dk_live (snd x)" for y z
    using that by (cases rule: uc_step.cases) (auto dest: ExternalMethod_live setReport_effect(1))
qed simp

interpretation identity: step_invariant "uc_step env version" "\<lambda>y. y = x"
  "\<lambda>y. uc_keyboard (fst x) \<noteq> None \<longrightarrow> uc_keyboard (fst y) \<noteq> None \<and> keyboard_ids (fst y) = keyboard_ids (fst x)"
  for env version x
proof unfold_locales
  fix y z
  assume s: "uc_step env version y z"
    and i: "uc_keyboard (fst x) \<noteq> None \<longrightarrow> uc_keyboard (fst y) \<noteq> None \<and> keyboard_ids (fst y) = keyboard_ids (fst x)"
  from s show "uc_keyboard (fst x) \<noteq> None \<longrightarrow> uc_keyboard (fst z) \<noteq> None \<and> keyboard_ids (fst z) = keyboard_ids (fst x)"
  proof (cases rule: uc_step.cases)
    case (step_method selector arguments uc1 s1 kr a uc2 s2)
    then show ?thesis using ExternalMethod_keyboard[OF step_method(3)] i by simp
  qed (use i in auto)
qed simp

section \<open>Properties\<close>

text \<open>
  C14. The driver leaks no memory descriptor: however the framework calls into a user client, the number
  of descriptor references it holds at the end is the number it held at the start, on error paths
  too.
\<close>

theorem driver_releases_memory:
  assumes "uc_steps env version (uc, s) (uc', s')"
  shows "dk_live s' = dk_live s"
  using memory.reachable[OF refl assms] by simp

theorem driver_releases_memory_witness:
  "dk_live (snd (snd (snd (ExternalMethod dk_unit 10800 4 \<lparr>ma_scalarInput = [], ma_scalarOutput = None,
      ma_structureInput = None, ma_structureInputDescriptor = None\<rparr>
      \<lparr>uc_keyboardVendorId = 0, uc_keyboardProductId = 0, uc_keyboardCountryCode = 0,
       uc_keyboard = Some new_keyboard, uc_pointing = None\<rparr> dk_idle)))) = 0"
proof -
  let ?a = "\<lparr>ma_scalarInput = [], ma_scalarOutput = None, ma_structureInput = None,
     ma_structureInputDescriptor = None\<rparr>"
  let ?uc = "\<lparr>uc_keyboardVendorId = 0, uc_keyboardProductId = 0, uc_keyboardCountryCode = 0,
       uc_keyboard = Some new_keyboard, uc_pointing = None\<rparr>"
  let ?r = "ExternalMethod dk_unit 10800 4 ?a ?uc dk_idle"
  have "uc_steps dk_unit 10800 (?uc, dk_idle) (fst (snd (snd ?r)), snd (snd (snd ?r)))"
    by (rule r_into_rtranclp, rule step_method[of _ _ 4 ?a _ _ "fst ?r" "fst (snd ?r)"]) simp
  from driver_releases_memory[OF this] show ?thesis by (simp add: dk_idle_def)
qed

lemma keyboard_latched_steps:
  assumes "uc_steps env version (uc, s) (uc', s')" and "uc_keyboard uc \<noteq> None"
  shows "uc_keyboard uc' \<noteq> None \<and> keyboard_ids uc' = keyboard_ids uc"
  using identity.reachable[OF refl assms(1)] assms(2) by simp

text \<open>
  The keyboard's identity is latched: once a user client has a keyboard, no further step changes the
  vendor, product and country code it was created with, nor removes it. Parameters of a later
  initialize request are ignored, so a client of the driver has to open a new connection to change
  them.
\<close>

theorem keyboard_identity_latched:
  assumes "uc_steps env version (uc, s) (uc', s')" and "uc_keyboard uc \<noteq> None"
  shows "uc_keyboard uc' \<noteq> None \<and> keyboard_ids uc' = keyboard_ids uc"
  by (rule keyboard_latched_steps[OF assms])

theorem keyboard_identity_latched_witness:
  "let uc = \<lparr>uc_keyboardVendorId = 0x16c0, uc_keyboardProductId = 0x27db, uc_keyboardCountryCode = 33,
       uc_keyboard = Some new_keyboard, uc_pointing = None\<rparr>;
       r = ExternalMethod dk_unit 10800 1 \<lparr>ma_scalarInput = [1, 2, 3], ma_scalarOutput = None,
            ma_structureInput = None, ma_structureInputDescriptor = None\<rparr> uc dk_idle
   in keyboard_ids (fst (snd (snd r))) = (0x16c0, 0x27db, 33)"
proof -
  let ?uc = "\<lparr>uc_keyboardVendorId = 0x16c0, uc_keyboardProductId = 0x27db, uc_keyboardCountryCode = 33,
       uc_keyboard = Some new_keyboard, uc_pointing = None\<rparr>"
  let ?a = "\<lparr>ma_scalarInput = [1, 2, 3], ma_scalarOutput = None,
            ma_structureInput = None, ma_structureInputDescriptor = None\<rparr>"
  let ?r = "ExternalMethod dk_unit 10800 1 ?a ?uc dk_idle"
  have "uc_steps dk_unit 10800 (?uc, dk_idle) (fst (snd (snd ?r)), snd (snd (snd ?r)))"
    by (rule r_into_rtranclp, rule step_method[of _ _ 1 ?a _ _ "fst ?r" "fst (snd ?r)"]) simp
  from keyboard_identity_latched[OF this] show ?thesis by (simp add: Let_def)
qed

text \<open>
  A device becomes ready only by a successful \<^verbatim>\<open>handleStart\<close> on a user client: no external method
  changes what the ready queries answer, and a start that fails or has another provider does not
  make a device ready.
\<close>

theorem readiness_only_by_start:
  assumes "ExternalMethod env version selector arguments uc s = (kr, a, uc', s')"
  shows "keyboard_is_ready uc' = keyboard_is_ready uc \<and> pointing_is_ready uc' = pointing_is_ready uc \<and>
    (fst (keyboard_handleStart provider super kb) = (provider = Service_user_client \<and> super)) \<and>
    (kb_ready (snd (keyboard_handleStart provider super kb)) =
       (kb_ready kb \<or> provider = Service_user_client \<and> super)) \<and>
    (pt_ready (snd (pointing_handleStart provider super pt)) =
       (pt_ready pt \<or> provider = Service_user_client \<and> super))"
proof -
  have "keyboard_is_ready uc' = keyboard_is_ready uc \<and> pointing_is_ready uc' = pointing_is_ready uc"
    using assms
    by (auto simp: ExternalMethod_def Let_def
        split: option.splits user_client_method.splits if_splits prod.splits
        dest: keyboard_initialize_ready pointing_initialize_ready)
  then show ?thesis by (simp add: keyboard_handleStart_def pointing_handleStart_def Let_def)
qed

theorem readiness_only_by_start_witness:
  "let uc = \<lparr>uc_keyboardVendorId = 0, uc_keyboardProductId = 0, uc_keyboardCountryCode = 0,
       uc_keyboard = None, uc_pointing = None\<rparr>;
       r = ExternalMethod dk_unit 10800 1 \<lparr>ma_scalarInput = [1, 2, 3], ma_scalarOutput = None,
            ma_structureInput = None, ma_structureInputDescriptor = None\<rparr> uc dk_idle
   in uc_keyboard (fst (snd (snd r))) = Some new_keyboard \<and> \<not> keyboard_is_ready (fst (snd (snd r)))"
proof -
  let ?uc = "\<lparr>uc_keyboardVendorId = 0, uc_keyboardProductId = 0, uc_keyboardCountryCode = 0,
       uc_keyboard = None, uc_pointing = None\<rparr>"
  let ?a = "\<lparr>ma_scalarInput = [1, 2, 3], ma_scalarOutput = None,
            ma_structureInput = None, ma_structureInputDescriptor = None\<rparr>"
  let ?r = "ExternalMethod dk_unit 10800 1 ?a ?uc dk_idle"
  have "keyboard_is_ready (fst (snd (snd ?r))) = keyboard_is_ready ?uc"
    using readiness_only_by_start[of dk_unit 10800 1 ?a ?uc dk_idle "fst ?r" "fst (snd ?r)"
        "fst (snd (snd ?r))" "snd (snd (snd ?r))"] by simp
  then show ?thesis
    by (simp add: Let_def keyboard_is_ready_def ExternalMethod_def method_of_selector_def all_methods_def
        keyboard_initialize_method_def dk_unit_def dk_idle_def)
qed

lemma post_report_method_reliable:
  assumes "dk_reliable env" "ma_structureInput arguments = Some (Some bs)"
  shows "dk_posted (snd (post_report_method env arguments s)) = dk_posted s @ [posted_as bs]"
proof -
  obtain w where c: "createWithBytes env (Some bs) True s =
     ((kIOReturnSuccess, Some bs), s\<lparr>dk_world := w, dk_live := dk_live s + 1\<rparr>)"
    using createWithBytes_reliable[OF assms(1)] by blast
  obtain w' where p: "snd (postReport env (Some bs) (s\<lparr>dk_world := w, dk_live := dk_live s + 1\<rparr>)) =
     s\<lparr>dk_live := dk_live s + 1, dk_world := w', dk_posted := dk_posted s @ [posted_as bs]\<rparr>"
    using postReport_reliable[OF assms(1), of bs "s\<lparr>dk_world := w, dk_live := dk_live s + 1\<rparr>"] by auto
  show ?thesis
    using assms(2) p by (auto simp: post_report_method_def createIOMemoryDescriptor_def c split: prod.split)
qed

text \<open>
  A report posted by the daemon reaches the HID system unchanged: with a keyboard (a pointing
  device), \<^verbatim>\<open>post_report\<close> hands exactly the bytes of the call to \<^verbatim>\<open>handleReport\<close>, with their number as
  the length, and nothing else.
\<close>

theorem post_report_delivers:
  assumes "dk_reliable env" and "ma_structureInput arguments = Some (Some bs)"
    and "m = method_virtual_hid_keyboard_post_report \<and> uc_keyboard uc \<noteq> None \<or>
         m = method_virtual_hid_pointing_post_report \<and> uc_pointing uc \<noteq> None"
    and "ExternalMethod env version (selector_of_method m) arguments uc s = (kr, a, uc', s')"
  shows "dk_posted s' = dk_posted s @ [posted_as bs] \<and> uc' = uc"
  using assms(3,4) post_report_method_reliable[OF assms(1,2), of s]
  by (auto simp: ExternalMethod_def split: prod.splits)

theorem post_report_delivers_witness:
  "dk_posted (snd (snd (snd (ExternalMethod dk_unit 10800
     (selector_of_method method_virtual_hid_pointing_post_report)
     \<lparr>ma_scalarInput = [], ma_scalarOutput = None, ma_structureInput = Some (Some [1, 0, 0, 0, 5, 251, 0, 0]),
      ma_structureInputDescriptor = None\<rparr>
     \<lparr>uc_keyboardVendorId = 0, uc_keyboardProductId = 0, uc_keyboardCountryCode = 0,
      uc_keyboard = None, uc_pointing = Some new_pointing\<rparr> dk_idle)))) = [([1, 0, 0, 0, 5, 251, 0, 0], 8)]"
proof -
  let ?a = "\<lparr>ma_scalarInput = [], ma_scalarOutput = None,
     ma_structureInput = Some (Some [1, 0, 0, 0, 5, 251, 0, 0]), ma_structureInputDescriptor = None\<rparr>"
  let ?uc = "\<lparr>uc_keyboardVendorId = 0, uc_keyboardProductId = 0, uc_keyboardCountryCode = 0,
      uc_keyboard = None, uc_pointing = Some new_pointing\<rparr>"
  let ?m = "method_virtual_hid_pointing_post_report"
  let ?r = "ExternalMethod dk_unit 10800 (selector_of_method ?m) ?a ?uc dk_idle"
  have "dk_posted (snd (snd (snd ?r))) = dk_posted dk_idle @ [posted_as [1, 0, 0, 0, 5, 251, 0, 0]]"
    using post_report_delivers[OF dk_unit_reliable, of ?a "[1, 0, 0, 0, 5, 251, 0, 0]" ?m ?uc 10800 dk_idle
        "fst ?r" "fst (snd ?r)" "fst (snd (snd ?r))" "snd (snd (snd ?r))"] by simp
  then show ?thesis by (simp add: dk_idle_def)
qed

text \<open>
  Without a device the report and reset methods fail with \<^verbatim>\<open>kIOReturnError\<close>, and a selector that is no
  method fails with \<^verbatim>\<open>kIOReturnBadArgument\<close>; both leave the driver as it was and post nothing.
\<close>

theorem refused_methods_change_nothing:
  assumes "method_of_selector selector \<in>
      Some ` ({method_virtual_hid_keyboard_post_report, method_virtual_hid_keyboard_reset} \<inter> {m. uc_keyboard uc = None})
    \<union> Some ` ({method_virtual_hid_pointing_post_report, method_virtual_hid_pointing_reset} \<inter> {m. uc_pointing uc = None})
    \<union> {None}"
  shows "ExternalMethod env version selector arguments uc s =
    (if method_of_selector selector = None then kIOReturnBadArgument else kIOReturnError, arguments, uc, s)"
  using assms by (auto simp: ExternalMethod_def)

theorem refused_methods_change_nothing_witness:
  "fst (ExternalMethod dk_unit 10800 3 \<lparr>ma_scalarInput = [], ma_scalarOutput = None,
     ma_structureInput = Some (Some [1]), ma_structureInputDescriptor = None\<rparr>
     \<lparr>uc_keyboardVendorId = 0, uc_keyboardProductId = 0, uc_keyboardCountryCode = 0,
      uc_keyboard = None, uc_pointing = None\<rparr> dk_idle) = kIOReturnError"
  using refused_methods_change_nothing[of 3 "\<lparr>uc_keyboardVendorId = 0, uc_keyboardProductId = 0,
      uc_keyboardCountryCode = 0, uc_keyboard = None, uc_pointing = None\<rparr>" dk_unit 10800
      "\<lparr>ma_scalarInput = [], ma_scalarOutput = None,
       ma_structureInput = Some (Some [1]), ma_structureInputDescriptor = None\<rparr>" dk_idle]
  by (simp add: method_of_selector_def all_methods_def)

text \<open>
  The objects of the driver are freed safely with one exception: freeing a user client releases exactly the
  devices it holds, and the devices and the root service can be freed whether or not their \<^verbatim>\<open>init\<close> succeeded; but a
  user client whose \<^verbatim>\<open>init\<close> failed is freed through a null pointer.
\<close>

theorem free_after_init:
  "user_client_free (user_client_init super alloc) = (if super \<and> alloc then Inr [] else Inl Null_dereference) \<and>
   user_client_free (Some uc) =
     Inr (filter (\<lambda>c. case c of Service_keyboard \<Rightarrow> uc_keyboard uc \<noteq> None | Service_pointing \<Rightarrow> uc_pointing uc \<noteq> None | _ \<Rightarrow> False)
       [Service_keyboard, Service_pointing]) \<and>
   keyboard_free (keyboard_init super alloc) = None \<and> pointing_free (pointing_init super alloc) = None \<and>
   root_free (if root_init super alloc then Some () else None) = None"
  by (simp add: user_client_free_def user_client_init_def keyboard_free_def keyboard_init_def pointing_free_def pointing_init_def
      root_free_def root_init_def split: option.splits)

end
