(* ===== verification/Stream_Protocol.thy ===== *)
theory Stream_Protocol
  imports Prelude
begin

text \<open>
  The stream between the client library and the daemon: the frame format
  (\<^verbatim>\<open>pqrs/unix_domain_stream/impl/protocol.hpp\<close>) and the object at either end of a connection
  (\<^verbatim>\<open>pqrs/unix_domain_stream/impl/peer.hpp\<close>), both in \<^verbatim>\<open>vendor/vendor/include\<close>.

  The sockets and timers of asio are outside: an operation that starts one is a \<open>peer_effect\<close>, and the
  completion handlers are functions of what asio hands them.
\<close>

section \<open>Frames\<close>

datatype message_type =
    Heartbeat | User_data | Health_check | Health_check_response | Request_message | Response_message

primrec message_type_value :: "message_type \<Rightarrow> u8" where
  "message_type_value Heartbeat = 0"
| "message_type_value User_data = 1"
| "message_type_value Health_check = 2"
| "message_type_value Health_check_response = 3"
| "message_type_value Request_message = 4"
| "message_type_value Response_message = 5"

definition message_type_of_value :: "u8 \<Rightarrow> message_type option" where
  "message_type_of_value v = find (\<lambda>t. message_type_value t = v)
     [Heartbeat, User_data, Health_check, Health_check_response, Request_message, Response_message]"

definition header_size :: nat where "header_size = 4"
definition type_size :: nat where "type_size = 1"
definition request_id_size :: nat where "request_id_size = 8"

definition encode_uint32 :: "u32 \<Rightarrow> bytes" where
  "encode_uint32 v =
     [ucast (drop_bit 24 v AND 0xff), ucast (drop_bit 16 v AND 0xff),
      ucast (drop_bit 8 v AND 0xff), ucast (v AND 0xff)]"

definition decode_uint32 :: "bytes \<Rightarrow> u32" where
  "decode_uint32 i =
     push_bit 24 (ucast (i ! 0)) OR push_bit 16 (ucast (i ! 1)) OR push_bit 8 (ucast (i ! 2)) OR ucast (i ! 3)"

definition encode_uint64 :: "u64 \<Rightarrow> bytes" where
  "encode_uint64 v =
     [ucast (drop_bit 56 v AND 0xff), ucast (drop_bit 48 v AND 0xff),
      ucast (drop_bit 40 v AND 0xff), ucast (drop_bit 32 v AND 0xff),
      ucast (drop_bit 24 v AND 0xff), ucast (drop_bit 16 v AND 0xff),
      ucast (drop_bit 8 v AND 0xff), ucast (v AND 0xff)]"

definition decode_uint64 :: "bytes \<Rightarrow> nat \<Rightarrow> u64" where
  "decode_uint64 i offset =
     push_bit 56 (ucast (i ! offset)) OR push_bit 48 (ucast (i ! (offset + 1))) OR
     push_bit 40 (ucast (i ! (offset + 2))) OR push_bit 32 (ucast (i ! (offset + 3))) OR
     push_bit 24 (ucast (i ! (offset + 4))) OR push_bit 16 (ucast (i ! (offset + 5))) OR
     push_bit 8 (ucast (i ! (offset + 6))) OR ucast (i ! (offset + 7))"

definition make_frame :: "message_type \<Rightarrow> bytes \<Rightarrow> bytes" where
  "make_frame t data =
     encode_uint32 (of_nat (type_size + length data)) @ [message_type_value t] @ data"

definition make_user_data_frame :: "bytes \<Rightarrow> bytes" where
  "make_user_data_frame data = make_frame User_data data"

definition make_request_response_frame :: "message_type \<Rightarrow> u64 \<Rightarrow> bytes \<Rightarrow> bytes" where
  "make_request_response_frame t request_id data =
     encode_uint32 (of_nat (type_size + request_id_size + length data)) @
     [message_type_value t] @ encode_uint64 request_id @ data"

definition make_request_frame :: "u64 \<Rightarrow> bytes \<Rightarrow> bytes" where
  "make_request_frame = make_request_response_frame Request_message"

definition make_response_frame :: "u64 \<Rightarrow> bytes \<Rightarrow> bytes" where
  "make_response_frame = make_request_response_frame Response_message"

definition make_heartbeat_frame :: bytes where
  "make_heartbeat_frame = make_frame Heartbeat []"

definition make_health_check_frame :: bytes where
  "make_health_check_frame = make_frame Health_check []"

definition make_health_check_response_frame :: bytes where
  "make_health_check_response_frame = make_frame Health_check_response []"

section \<open>The peer\<close>

text \<open>The asio errors the code names; any other one is \<open>Asio_error\<close>.\<close>

datatype asio_error =
    Eof | Message_size | Operation_aborted | Timed_out | No_buffer_space | Operation_not_supported
  | Invalid_argument | Connection_reset | Not_connected | Asio_error int

datatype peer_signal =
    Peer_ready
  | Peer_received bytes
  | Peer_request_received u64 bytes
  | Peer_response_received u64 bytes
  | Peer_health_check_response_received
  | Peer_error_occurred asio_error
  | Peer_closed

datatype peer_timer = Ready_deadline | Heartbeat_timer | Heartbeat_deadline | Read_deadline | Write_deadline

text \<open>
  \<open>Signal\<close> is a signal enqueued on the dispatcher, \<open>Read_bytes\<close> and \<open>Write_bytes\<close> start an asynchronous read
  of a number of bytes and write of a buffer, \<open>Arm\<close> and \<open>Cancel\<close> set a timer (milliseconds) and cancel it.
\<close>

datatype peer_effect =
    Signal peer_signal
  | Read_bytes nat
  | Write_bytes bytes
  | Arm peer_timer int
  | Cancel peer_timer
  | Close_socket

record peer_options =
  po_max_message_size :: nat
  po_max_send_queue_size :: nat
  po_heartbeat_interval :: int
  po_heartbeat_timeout :: int
  po_read_timeout :: int
  po_write_timeout :: int
  po_invalidate_connection_on_request_error :: bool

definition default_options :: peer_options where
  "default_options = \<lparr>po_max_message_size = 32 * 1024, po_max_send_queue_size = 1024,
     po_heartbeat_interval = 3000, po_heartbeat_timeout = 10000, po_read_timeout = 5000, po_write_timeout = 5000,
     po_invalidate_connection_on_request_error = True\<rparr>"

text \<open>Who is at the other end, as far as the operating system tells.\<close>

record peer_credentials =
  pc_pid :: "int option"
  pc_uid :: "int option"
  pc_gid :: "int option"

definition normalize_scheduling_interval :: "int \<Rightarrow> int" where
  "normalize_scheduling_interval v = (if v < 100 then 100 else v)"

record peer =
  pr_options :: peer_options
  pr_open :: bool
  pr_closed_on_executor :: bool
  pr_ready :: bool
  pr_close_after_write :: bool
  pr_write_queue :: "bytes list"

definition peer_new :: "peer_options \<Rightarrow> peer" where
  "peer_new opts = \<lparr>pr_options = opts, pr_open = True, pr_closed_on_executor = False, pr_ready = False,
     pr_close_after_write = False, pr_write_queue = []\<rparr>"

text \<open>One operation after the other.\<close>

definition and_then :: "'s \<times> 'e list \<Rightarrow> ('s \<Rightarrow> 's \<times> 'e list) \<Rightarrow> 's \<times> 'e list" where
  "and_then r g = (let (p1, f1) = r; (p2, f2) = g p1 in (p2, f1 @ f2))"

subsection \<open>Closing and errors\<close>

definition close_socket :: "peer \<Rightarrow> peer \<times> peer_effect list" where
  "close_socket p =
     (p\<lparr>pr_closed_on_executor := True, pr_open := False\<rparr>,
      [Cancel Ready_deadline, Cancel Heartbeat_timer, Cancel Heartbeat_deadline, Cancel Read_deadline,
       Cancel Write_deadline, Close_socket])"

definition peer_close :: "peer \<Rightarrow> peer \<times> peer_effect list" where
  "peer_close p =
     (if \<not> pr_open p then (p, [])
      else (let (p1, f) = close_socket p in (p1, f @ [Signal Peer_closed])))"

definition handle_error :: "asio_error \<Rightarrow> peer \<Rightarrow> peer \<times> peer_effect list" where
  "handle_error err p =
     (if err = Operation_aborted then (p, [])
      else (let (p1, f) = peer_close p in (p1, Signal (Peer_error_occurred err) # f)))"

subsection \<open>Timers\<close>

definition start_heartbeat_timer :: "peer \<Rightarrow> peer_effect list" where
  "start_heartbeat_timer p =
     [Arm Heartbeat_timer (normalize_scheduling_interval (po_heartbeat_interval (pr_options p)))]"

definition refresh_heartbeat_deadline :: "peer \<Rightarrow> peer_effect list" where
  "refresh_heartbeat_deadline p = [Arm Heartbeat_deadline (po_heartbeat_timeout (pr_options p))]"

definition start_ready_deadline :: "peer_effect list" where
  "start_ready_deadline = [Arm Ready_deadline 100]"

definition start_read_deadline :: "peer \<Rightarrow> peer_effect list" where
  "start_read_deadline p = [Arm Read_deadline (po_read_timeout (pr_options p))]"

definition ensure_ready :: "peer \<Rightarrow> peer \<times> peer_effect list" where
  "ensure_ready p =
     (if pr_ready p then (p, [])
      else (p\<lparr>pr_ready := True\<rparr>, [Cancel Ready_deadline, Signal Peer_ready]))"

subsection \<open>Writing\<close>

definition valid_outgoing_frame :: "peer_options \<Rightarrow> bytes \<Rightarrow> bool" where
  "valid_outgoing_frame opts frame =
     (if length frame < header_size + type_size then False
      else
        (let body_size = unat (decode_uint32 (take header_size frame))
         in if length frame \<noteq> header_size + body_size \<or> body_size < type_size then False
            else
              (case message_type_of_value (frame ! header_size) of
                 None \<Rightarrow> False
               | Some t \<Rightarrow>
                   if t = Request_message \<or> t = Response_message
                   then body_size \<ge> type_size + request_id_size \<and>
                        body_size \<le> po_max_message_size opts + type_size + request_id_size
                   else body_size \<le> po_max_message_size opts + type_size)))"

definition peer_write :: "peer \<Rightarrow> peer \<times> peer_effect list" where
  "peer_write p =
     (if \<not> pr_open p \<or> pr_write_queue p = [] then (p, [])
      else (p, [Arm Write_deadline (po_write_timeout (pr_options p)), Write_bytes (hd (pr_write_queue p))]))"

definition push_frame :: "bytes \<Rightarrow> peer \<Rightarrow> peer \<times> peer_effect list" where
  "push_frame frame p =
     (if \<not> pr_open p then (p, [])
      else if \<not> valid_outgoing_frame (pr_options p) frame \<or>
              length (pr_write_queue p) \<ge> po_max_send_queue_size (pr_options p)
      then handle_error No_buffer_space p
      else
        (let was_empty = (pr_write_queue p = []);
             p1 = p\<lparr>pr_write_queue := pr_write_queue p @ [frame]\<rparr>
         in if was_empty then peer_write p1 else (p1, [])))"

text \<open>The handler of a finished write; \<open>None\<close> is no error.\<close>

definition on_written :: "asio_error option \<Rightarrow> peer \<Rightarrow> peer \<times> peer_effect list" where
  "on_written err p =
     and_then (p, [Cancel Write_deadline])
       (\<lambda>p. case err of
          Some e \<Rightarrow> handle_error e p
        | None \<Rightarrow>
            (let p1 = p\<lparr>pr_write_queue := tl (pr_write_queue p)\<rparr>
             in if pr_write_queue p1 = [] \<and> pr_close_after_write p1 then peer_close p1 else peer_write p1))"

subsection \<open>Reading\<close>

definition read_header :: "peer \<Rightarrow> peer \<times> peer_effect list" where
  "read_header p = (p, if \<not> pr_open p then [] else start_read_deadline p @ [Read_bytes header_size])"

definition read_body :: "nat \<Rightarrow> peer \<Rightarrow> peer \<times> peer_effect list" where
  "read_body n p = (p, start_read_deadline p @ [Read_bytes n])"

definition on_header :: "asio_error option \<Rightarrow> bytes \<Rightarrow> peer \<Rightarrow> peer \<times> peer_effect list" where
  "on_header err bs p =
     and_then (p, [Cancel Read_deadline])
       (\<lambda>p. case err of
          Some e \<Rightarrow> if e = Eof \<and> length bs = 0 then peer_close p else handle_error e p
        | None \<Rightarrow>
            if length bs \<noteq> header_size then handle_error Message_size p
            else
              (let body_size = unat (decode_uint32 bs)
               in if body_size < type_size \<or>
                     body_size > po_max_message_size (pr_options p) + type_size + request_id_size
                  then handle_error Message_size p
                  else read_body body_size p))"

text \<open>The switch over the message type of a complete body.\<close>

definition handle_body :: "bytes \<Rightarrow> peer \<Rightarrow> peer \<times> peer_effect list" where
  "handle_body body p =
     (let limit = po_max_message_size (pr_options p)
      in case message_type_of_value (body ! 0) of
           Some Heartbeat \<Rightarrow> read_header p
         | Some User_data \<Rightarrow>
             and_then (ensure_ready p)
               (\<lambda>p. if length body > limit + type_size then handle_error Message_size p
                    else and_then (p, [Signal (Peer_received (drop type_size body))]) read_header)
         | Some Request_message \<Rightarrow>
             and_then (ensure_ready p)
               (\<lambda>p. if length body < type_size + request_id_size \<or> length body > limit + type_size + request_id_size
                    then handle_error Message_size p
                    else and_then (p, [Signal (Peer_request_received (decode_uint64 body type_size)
                           (drop (type_size + request_id_size) body))]) read_header)
         | Some Response_message \<Rightarrow>
             and_then (ensure_ready p)
               (\<lambda>p. if length body < type_size + request_id_size \<or> length body > limit + type_size + request_id_size
                    then handle_error Message_size p
                    else and_then (p, [Signal (Peer_response_received (decode_uint64 body type_size)
                           (drop (type_size + request_id_size) body))]) read_header)
         | Some Health_check \<Rightarrow>
             (if pr_ready p then handle_error Operation_not_supported p
              else push_frame make_health_check_response_frame (p\<lparr>pr_close_after_write := True\<rparr>))
         | Some Health_check_response \<Rightarrow>
             and_then (p, [Signal Peer_health_check_response_received]) read_header
         | None \<Rightarrow> handle_error Invalid_argument p)"

definition on_body :: "nat \<Rightarrow> asio_error option \<Rightarrow> bytes \<Rightarrow> peer \<Rightarrow> peer \<times> peer_effect list" where
  "on_body n err bs p =
     and_then (p, [Cancel Read_deadline])
       (\<lambda>p. case err of
          Some e \<Rightarrow> handle_error e p
        | None \<Rightarrow>
            if length bs \<noteq> n then handle_error Message_size p
            else and_then (p, refresh_heartbeat_deadline p) (handle_body bs))"

subsection \<open>Entry points\<close>

definition peer_start :: "peer \<Rightarrow> peer \<times> peer_effect list" where
  "peer_start p =
     and_then (p, start_ready_deadline @ start_heartbeat_timer p @ refresh_heartbeat_deadline p) read_header"

text \<open>The handlers of the timers, run with an error when the timer was cancelled.\<close>

definition on_timer :: "peer_timer \<Rightarrow> bool \<Rightarrow> peer \<Rightarrow> peer \<times> peer_effect list" where
  "on_timer t cancelled p =
     (if cancelled then (p, [])
      else
        (case t of
           Ready_deadline \<Rightarrow> ensure_ready p
         | Heartbeat_timer \<Rightarrow>
             if pr_open p
             then and_then (push_frame make_heartbeat_frame p) (\<lambda>p. (p, start_heartbeat_timer p))
             else (p, [])
         | _ \<Rightarrow> handle_error Timed_out p))"

section \<open>Encoding\<close>

lemma ucast_low_byte: "(ucast (x AND 0xff) :: u8) = ucast (x :: 'a::len word)"
proof -
  have m: "(0xff :: 'a word) = mask 8" by (simp add: mask_eq_exp_minus_1)
  show ?thesis
    unfolding m by (intro bit_word_eqI) (auto simp: bit_simps dest: bit_imp_le_length)
qed

lemma le_bytes_4: "le_bytes 4 w = [ucast w, ucast (drop_bit 8 w), ucast (drop_bit 16 w), ucast (drop_bit 24 w)]"
  by (simp add: eval_nat_numeral)

lemma le_bytes_8: "le_bytes 8 w = [ucast w, ucast (drop_bit 8 w), ucast (drop_bit 16 w), ucast (drop_bit 24 w),
    ucast (drop_bit 32 w), ucast (drop_bit 40 w), ucast (drop_bit 48 w), ucast (drop_bit 56 w)]"
  by (simp add: eval_nat_numeral)

lemma encode_uint32_be: "encode_uint32 v = be_bytes 4 v"
  by (simp add: encode_uint32_def be_bytes_def le_bytes_4 ucast_low_byte)

lemma encode_uint64_be: "encode_uint64 v = be_bytes 8 v"
  by (simp add: encode_uint64_def be_bytes_def le_bytes_8 ucast_low_byte)

lemma decode_uint32_be: "decode_uint32 [a, b, c, d] = be_word [a, b, c, d]"
  by (simp add: decode_uint32_def be_word_def push_bit_or push_bit_push_bit ac_simps)

lemma decode_uint64_be: "decode_uint64 (xs @ [a, b, c, d, e, f, g, h] @ ys) (length xs) = be_word [a, b, c, d, e, f, g, h]"
  by (simp add: decode_uint64_def be_word_def push_bit_or push_bit_push_bit ac_simps nth_append)

lemma length_encode_uint64 [simp]: "length (encode_uint64 v) = 8"
  by (simp add: encode_uint64_def)

lemma length_encode_uint32 [simp]: "length (encode_uint32 v) = 4"
  by (simp add: encode_uint32_def)

lemma be_codec:
  fixes bs :: bytes
  shows "LENGTH('a::len) = 8 * n \<Longrightarrow> length bs = n \<Longrightarrow> be_bytes n (be_word bs :: 'a word) = bs"
  using le_bytes_of_width[of "rev bs" n, where 'a = 'a] by (simp add: be_bytes_def be_word_def)

lemma list_of_length_4: "length bs = 4 \<Longrightarrow> \<exists>a b c d. bs = [a, b, c, d]"
  by (auto simp: numeral_eq_Suc length_Suc_conv)

lemma decode_encode_uint32: "decode_uint32 (encode_uint32 v) = v"
proof -
  obtain a b c d where "be_bytes 4 v = [a, b, c, d]" using list_of_length_4[of "be_bytes 4 v"] by auto
  then show ?thesis
    using be_word_be_bytes[of 4 v] by (simp add: encode_uint32_be decode_uint32_be)
qed

text \<open>The length field of a frame is a fixed-width codec; so is the request id.\<close>

interpretation uint32_codec: codec encode_uint32 decode_uint32 4 "\<lambda>_. True"
proof unfold_locales
  fix bs :: bytes assume "length bs = 4"
  then obtain a b c d where bs: "bs = [a, b, c, d]" using list_of_length_4 by blast
  have "be_bytes 4 (be_word bs :: u32) = bs" by (rule be_codec) (simp_all add: bs)
  then show "encode_uint32 (decode_uint32 bs) = bs"
    by (simp add: bs encode_uint32_be decode_uint32_be)
qed (simp_all add: decode_encode_uint32)

lemma decode_encode_uint64: "decode_uint64 (t # encode_uint64 v @ ys) type_size = v"
proof -
  let ?b = "be_bytes 8 v"
  obtain a b c d e f g h where e: "?b = [a, b, c, d, e, f, g, h]"
    by (simp add: be_bytes_def le_bytes_8)
  have "decode_uint64 (t # encode_uint64 v @ ys) type_size = be_word ?b"
    using decode_uint64_be[of "[t]" a b c d e f g h ys]
    by (simp add: encode_uint64_be e type_size_def)
  also have "\<dots> = v" by (rule be_word_be_bytes) simp
  finally show ?thesis .
qed

lemma message_type_of_value_value [simp]: "message_type_of_value (message_type_value t) = Some t"
  by (cases t) (simp_all add: message_type_of_value_def)

section \<open>Reading a stream\<close>

text \<open>
  The handlers driven by a stream of bytes: asio's \<^verbatim>\<open>async_read\<close> completes when all requested bytes have
  arrived, whatever the pieces they arrive in. The loop goes on while a header read is pending.
\<close>

function receive :: "bytes \<Rightarrow> peer \<Rightarrow> peer \<times> peer_effect list" where
  "receive bs p =
     (if length bs < 4 then (p, [])
      else
        (let n = unat (decode_uint32 (take 4 bs)); (p1, f1) = on_header None (take 4 bs) p
         in if Read_bytes n \<notin> set f1 \<or> length bs < 4 + n then (p1, f1)
            else
              (let (p2, f2) = on_body n None (take n (drop 4 bs)) p1
               in if Read_bytes header_size \<notin> set f2 then (p2, f1 @ f2)
                  else (let (p3, f3) = receive (drop (4 + n) bs) p2 in (p3, f1 @ f2 @ f3)))))"
  by pat_completeness auto
termination by (relation "measure (\<lambda>(bs, p). length bs)") auto

declare receive.simps [simp del]

datatype message =
    Msg_heartbeat
  | Msg_user_data bytes
  | Msg_request u64 bytes
  | Msg_response u64 bytes
  | Msg_health_check_response

primrec frame_of :: "message \<Rightarrow> bytes" where
  "frame_of Msg_heartbeat = make_heartbeat_frame"
| "frame_of (Msg_user_data d) = make_user_data_frame d"
| "frame_of (Msg_request i d) = make_request_frame i d"
| "frame_of (Msg_response i d) = make_response_frame i d"
| "frame_of Msg_health_check_response = make_health_check_response_frame"

primrec signals_of :: "message \<Rightarrow> peer_signal list" where
  "signals_of Msg_heartbeat = []"
| "signals_of (Msg_user_data d) = [Peer_received d]"
| "signals_of (Msg_request i d) = [Peer_request_received i d]"
| "signals_of (Msg_response i d) = [Peer_response_received i d]"
| "signals_of Msg_health_check_response = [Peer_health_check_response_received]"

primrec payload_of :: "message \<Rightarrow> bytes" where
  "payload_of Msg_heartbeat = []"
| "payload_of (Msg_user_data d) = d"
| "payload_of (Msg_request i d) = d"
| "payload_of (Msg_response i d) = d"
| "payload_of Msg_health_check_response = []"

text \<open>The signals among the effects, without the one that announces the connection.\<close>

primrec deliveries :: "peer_effect list \<Rightarrow> peer_signal list" where
  "deliveries [] = []"
| "deliveries (f # fs) = (case f of Signal s \<Rightarrow> if s = Peer_ready then [] else [s] | _ \<Rightarrow> []) @ deliveries fs"

lemma deliveries_append [simp]: "deliveries (xs @ ys) = deliveries xs @ deliveries ys"
  by (induction xs) simp_all

lemmas frame_defs = make_heartbeat_frame_def make_user_data_frame_def make_request_frame_def
  make_response_frame_def make_health_check_frame_def make_health_check_response_frame_def make_frame_def
  make_request_response_frame_def type_size_def request_id_size_def header_size_def

text \<open>The body of a message's frame.\<close>

definition body_of :: "message \<Rightarrow> bytes" where
  "body_of m = drop 4 (frame_of m)"

lemma frame_of_body: "frame_of m = encode_uint32 (of_nat (length (body_of m))) @ body_of m"
  by (cases m) (simp_all add: body_of_def frame_defs)

lemma length_body_of: "1 \<le> length (body_of m) \<and> length (body_of m) \<le> length (payload_of m) + 9"
  by (cases m) (simp_all add: body_of_def frame_defs)

lemma handle_body_message:
  assumes "pr_open p" "length (payload_of m) \<le> po_max_message_size (pr_options p)"
  shows "\<exists>p' f. handle_body (body_of m) p = (p', f) \<and> pr_open p' \<and> pr_options p' = pr_options p \<and>
    deliveries f = signals_of m \<and> Read_bytes header_size \<in> set f"
  using assms decode_encode_uint64[unfolded type_size_def]
  by (cases m)
    (auto simp: handle_body_def body_of_def frame_defs read_header_def start_read_deadline_def ensure_ready_def
      and_then_def Let_def simp del: message_type_value.simps)

lemma unat_body_size: "n < 2 ^ 32 \<Longrightarrow> unat (of_nat n :: u32) = n"
  by (simp add: unsigned_of_nat take_bit_nat_eq_self)

lemma receive_frame:
  assumes "pr_open p" "length (payload_of m) \<le> po_max_message_size (pr_options p)"
    and "po_max_message_size (pr_options p) + 9 < 2 ^ 32"
  shows "\<exists>p' f. receive (frame_of m @ rest) p = and_then (p', f) (receive rest) \<and> pr_open p' \<and>
     pr_options p' = pr_options p \<and> deliveries f = signals_of m"
proof -
  let ?n = "length (body_of m)" and ?h = "encode_uint32 (of_nat (length (body_of m)))"
  have n: "1 \<le> ?n" "?n \<le> po_max_message_size (pr_options p) + 9"
    using length_body_of[of m] assms(2) by auto
  then have size: "unat (decode_uint32 ?h) = ?n"
    using assms(3) by (simp add: decode_encode_uint32 unat_body_size)
  obtain p' f where b: "handle_body (body_of m) p = (p', f)" "pr_open p'" "pr_options p' = pr_options p"
    "deliveries f = signals_of m" "Read_bytes header_size \<in> set f"
    using handle_body_message[OF assms(1,2)] by blast
  have h: "on_header None ?h p = (p, [Cancel Read_deadline] @ start_read_deadline p @ [Read_bytes ?n])"
    using n size
    by (auto simp: on_header_def and_then_def read_body_def header_size_def type_size_def request_id_size_def)
  have o: "on_body ?n None (body_of m) p =
      (p', [Cancel Read_deadline] @ refresh_heartbeat_deadline p @ f)"
    by (simp add: on_body_def and_then_def b(1))
  let ?f = "([Cancel Read_deadline] @ start_read_deadline p @ [Read_bytes ?n]) @
      [Cancel Read_deadline] @ refresh_heartbeat_deadline p @ f"
  have "receive (frame_of m @ rest) p = and_then (p', ?f) (receive rest)"
    using b(5)
    by (subst receive.simps) (simp add: frame_of_body size h o Let_def and_then_def split: prod.split)
  moreover have "deliveries ?f = signals_of m"
    by (simp add: b(4) start_read_deadline_def refresh_heartbeat_deadline_def)
  ultimately show ?thesis using b(2,3) by blast
qed

section \<open>Runs of a peer\<close>

text \<open>Any handler may run at any time, with anything asio may hand it.\<close>

datatype peer_event =
    Ev_start
  | Ev_close
  | Ev_send bytes
  | Ev_written "asio_error option"
  | Ev_header "asio_error option" bytes
  | Ev_body nat "asio_error option" bytes
  | Ev_timer peer_timer bool

primrec run_event :: "peer_event \<Rightarrow> peer \<Rightarrow> peer \<times> peer_effect list" where
  "run_event Ev_start = peer_start"
| "run_event Ev_close = peer_close"
| "run_event (Ev_send frame) = push_frame frame"
| "run_event (Ev_written err) = on_written err"
| "run_event (Ev_header err bs) = on_header err bs"
| "run_event (Ev_body n err bs) = on_body n err bs"
| "run_event (Ev_timer t cancelled) = on_timer t cancelled"

primrec peer_run :: "peer_event list \<Rightarrow> peer \<Rightarrow> peer \<times> peer_effect list" where
  "peer_run [] p = (p, [])"
| "peer_run (ev # evs) p = and_then (run_event ev p) (peer_run evs)"

text \<open>
  What every operation respects: the options stay, a closed peer stays closed, the transition is
  announced once and made on the io thread, a peer becomes ready once and announces it, and the write queue stays within its bound.
\<close>

definition closings :: "peer_effect list \<Rightarrow> nat" where
  "closings fs = length (filter (\<lambda>f. f = Signal Peer_closed) fs)"

definition readies :: "peer_effect list \<Rightarrow> nat" where
  "readies fs = length (filter (\<lambda>f. f = Signal Peer_ready) fs)"

definition sound_op :: "peer \<Rightarrow> peer \<times> peer_effect list \<Rightarrow> bool" where
  "sound_op p r \<longleftrightarrow> (case r of (p', fs) \<Rightarrow>
     pr_options p' = pr_options p \<and> (pr_open p' \<longrightarrow> pr_open p) \<and>
     (pr_open p \<or> pr_closed_on_executor p \<longrightarrow> pr_open p' \<or> pr_closed_on_executor p') \<and>
     closings fs = (if pr_open p \<and> \<not> pr_open p' then 1 else 0) \<and>
     (pr_ready p \<longrightarrow> pr_ready p') \<and> readies fs = (if pr_ready p' \<and> \<not> pr_ready p then 1 else 0) \<and>
     (length (pr_write_queue p) \<le> po_max_send_queue_size (pr_options p) \<longrightarrow>
        length (pr_write_queue p') \<le> po_max_send_queue_size (pr_options p)))"

lemma closings_simps [simp]:
  "closings [] = 0" "closings (f # fs) = (if f = Signal Peer_closed then 1 else 0) + closings fs"
  "closings (xs @ ys) = closings xs + closings ys"
  by (simp_all add: closings_def)

lemma readies_simps [simp]:
  "readies [] = 0" "readies (f # fs) = (if f = Signal Peer_ready then 1 else 0) + readies fs"
  "readies (xs @ ys) = readies xs + readies ys"
  by (simp_all add: readies_def)

lemma sound_then:
  assumes "sound_op p r" "\<And>q. pr_options q = pr_options p \<Longrightarrow> sound_op q (g q)"
  shows "sound_op p (and_then r g)"
proof -
  obtain p1 f1 where r: "r = (p1, f1)" by fastforce
  obtain p2 f2 where g: "g p1 = (p2, f2)" by fastforce
  have 1: "sound_op p (p1, f1)" using assms(1) by (simp add: r)
  then have "pr_options p1 = pr_options p" by (simp add: sound_op_def)
  from assms(2)[OF this] have 2: "sound_op p1 (p2, f2)" by (simp add: g)
  from 1 2 have "sound_op p (p2, f1 @ f2)"
    by (cases "pr_open p"; cases "pr_open p1"; cases "pr_open p2"; cases "pr_ready p"; cases "pr_ready p1"; cases "pr_ready p2")
      (simp_all add: sound_op_def)
  then show ?thesis by (simp add: r g and_then_def)
qed

lemma sound_quiet: "closings f = 0 \<Longrightarrow> readies f = 0 \<Longrightarrow> sound_op p (p, f)"
  by (simp add: sound_op_def)

lemma sound_close: "sound_op p (peer_close p)"
  by (simp add: sound_op_def peer_close_def close_socket_def)

lemma sound_error: "sound_op p (handle_error e p)"
  using sound_close[of p] by (auto simp: sound_op_def handle_error_def split: prod.splits)

lemma sound_ready: "sound_op p (ensure_ready p)"
  by (simp add: sound_op_def ensure_ready_def)

lemma sound_write: "sound_op p (peer_write p)"
  by (simp add: sound_op_def peer_write_def)

lemma sound_push: "sound_op p (push_frame frame p)"
  using sound_error[of p No_buffer_space]
  by (auto simp: push_frame_def peer_write_def sound_op_def Let_def split: prod.splits)

lemma sound_read_header: "sound_op p (read_header p)"
  by (simp add: sound_op_def read_header_def start_read_deadline_def)

lemmas sound_intros = sound_then sound_quiet sound_close sound_error sound_ready
  sound_write sound_push sound_read_header

lemma sound_written: "sound_op p (on_written err p)"
proof -
  have "sound_op p (let p1 = p\<lparr>pr_write_queue := tl (pr_write_queue p)\<rparr>
     in if pr_write_queue p1 = [] \<and> pr_close_after_write p1 then peer_close p1 else peer_write p1)" for p
    by (auto simp: sound_op_def peer_close_def close_socket_def peer_write_def Let_def)
  then show ?thesis
    unfolding on_written_def by (intro sound_then) (auto intro: sound_intros split: option.split)
qed

lemma sound_header: "sound_op p (on_header err bs p)"
  unfolding on_header_def
  by (intro sound_then)
    (auto intro: sound_intros simp: Let_def read_body_def start_read_deadline_def split: option.split)

lemma sound_handle_body: "sound_op p (handle_body body p)"
proof -
  have hc: "sound_op p (push_frame frame (p\<lparr>pr_close_after_write := b\<rparr>))" for frame b
    using sound_push[of "p\<lparr>pr_close_after_write := b\<rparr>" frame] by (simp add: sound_op_def)
  have msg: "sound_op q (if c then handle_error e q else and_then (q, [Signal s]) read_header)"
    if "s \<noteq> Peer_closed" "s \<noteq> Peer_ready" for q c e s
    using that by (auto intro!: sound_then sound_quiet sound_read_header sound_error)
  show ?thesis
    unfolding handle_body_def Let_def
    by (auto intro!: sound_then[OF sound_ready] msg hc sound_read_header sound_error
        sound_then[OF sound_quiet] split: option.split message_type.split)
qed

lemma sound_body: "sound_op p (on_body n err bs p)"
  unfolding on_body_def
  by (auto intro!: sound_then[OF sound_quiet] sound_error sound_handle_body
      simp: refresh_heartbeat_deadline_def split: option.split)

lemma sound_event: "sound_op p (run_event ev p)"
proof (cases ev)
  case Ev_start
  then show ?thesis
    by (auto simp: peer_start_def start_ready_deadline_def start_heartbeat_timer_def refresh_heartbeat_deadline_def
        intro!: sound_then[OF sound_quiet] sound_read_header)
next
  case (Ev_timer t c)
  then show ?thesis
    by (auto simp: on_timer_def start_heartbeat_timer_def intro!: sound_then[OF sound_push] sound_quiet
        sound_ready sound_error split: peer_timer.split)
qed (simp_all add: sound_close sound_push sound_written sound_header sound_body)

lemma sound_run: "sound_op p (peer_run evs p)"
proof (induction evs arbitrary: p)
  case (Cons ev evs)
  then show ?case by (simp add: sound_then sound_event)
qed (simp add: sound_quiet)

section \<open>Properties\<close>

text \<open>
  C6. What is sent is what arrives: a peer that reads the frames of any sequence of messages within the
  size limit delivers exactly these messages, in order, with their request ids and bytes, and
  stays open.
\<close>

theorem stream_roundtrip:
  assumes "pr_open p" and "po_max_message_size (pr_options p) + 9 < 2 ^ 32"
    and "\<forall>m\<in>set ms. length (payload_of m) \<le> po_max_message_size (pr_options p)"
  shows "deliveries (snd (receive (concat (map frame_of ms)) p)) = concat (map signals_of ms) \<and>
    pr_open (fst (receive (concat (map frame_of ms)) p))"
  using assms
proof (induction ms arbitrary: p)
  case Nil
  then show ?case by (simp add: receive.simps)
next
  case (Cons m ms)
  obtain p' f where r: "receive (frame_of m @ concat (map frame_of ms)) p = and_then (p', f) (receive (concat (map frame_of ms)))"
    "pr_open p'" "pr_options p' = pr_options p" "deliveries f = signals_of m"
    using receive_frame[OF Cons.prems(1) _ Cons.prems(2)] Cons.prems(3) by (metis list.set_intros(1))
  from Cons.IH[OF r(2)] Cons.prems r(3,4) show ?case
    by (simp add: r(1) and_then_def case_prod_beta)
qed

theorem stream_roundtrip_witness:
  "deliveries (snd (receive (concat (map frame_of [Msg_request 7 [1, 2], Msg_heartbeat, Msg_response 7 []]))
     (peer_new default_options))) = [Peer_request_received 7 [1, 2], Peer_response_received 7 []]"
  using stream_roundtrip[of "peer_new default_options" "[Msg_request 7 [1, 2], Msg_heartbeat, Msg_response 7 []]"]
  by (simp add: peer_new_def default_options_def)

text \<open>
  A hostile or broken length field cannot make a peer allocate or read more than a message: a header that
  announces an empty body or one over the limit ends the connection with an error, before any byte
  of the body is read.
\<close>

theorem bad_length_closes:
  assumes "pr_open p" and "length bs = header_size"
    and "unat (decode_uint32 bs) = 0 \<or> unat (decode_uint32 bs) > po_max_message_size (pr_options p) + 9"
  shows "\<not> pr_open (fst (on_header None bs p)) \<and>
    deliveries (snd (on_header None bs p)) = [Peer_error_occurred Message_size, Peer_closed] \<and>
    (\<forall>n. Read_bytes n \<notin> set (snd (on_header None bs p)))"
  using assms
  by (auto simp: on_header_def and_then_def handle_error_def peer_close_def close_socket_def type_size_def
      request_id_size_def)

theorem bad_length_closes_witness:
  "deliveries (snd (on_header None [0xff, 0xff, 0xff, 0xff] (peer_new default_options))) =
   [Peer_error_occurred Message_size, Peer_closed]"
proof -
  have "unat (decode_uint32 [0xff, 0xff, 0xff, 0xff]) > po_max_message_size (pr_options (peer_new default_options)) + 9"
    by (simp add: decode_uint32_def peer_new_def default_options_def)
  from bad_length_closes[OF _ _ disjI2[OF this]] show ?thesis
    by (simp add: header_size_def peer_new_def)
qed

text \<open>
  C26. Whatever happens to a peer, in any order of completions, timeouts, sends and closes, it announces that
  it is ready exactly once, when it becomes ready, and its closing exactly once, when it closes, never opens again, and
  its write queue never exceeds the configured bound.
\<close>

theorem peer_closes_once:
  "closings (snd (peer_run evs (peer_new opts))) = (if pr_open (fst (peer_run evs (peer_new opts))) then 0 else 1) \<and>
   readies (snd (peer_run evs (peer_new opts))) = (if pr_ready (fst (peer_run evs (peer_new opts))) then 1 else 0) \<and>
   length (pr_write_queue (fst (peer_run evs (peer_new opts)))) \<le> po_max_send_queue_size opts"
  using sound_run[of "peer_new opts" evs] by (auto simp: sound_op_def peer_new_def split: prod.splits)

lemma valid_outgoing_frame_body:
  "valid_outgoing_frame opts (frame_of m) \<longleftrightarrow>
     length (body_of m) < 2 ^ 32 \<and> length (payload_of m) \<le> po_max_message_size opts"
proof -
  let ?n = "length (body_of m)"
  have size: "unat (decode_uint32 (take 4 (frame_of m))) = ?n mod 2 ^ 32"
    by (simp add: frame_of_body decode_encode_uint32 unsigned_of_nat take_bit_eq_mod)
  show ?thesis
  proof (cases "?n < 2 ^ 32")
    case True
    then have "unat (decode_uint32 (take 4 (frame_of m))) = ?n" using size by simp
    then show ?thesis using True
      by (cases m) (auto simp: valid_outgoing_frame_def body_of_def frame_defs Let_def nth_append message_type_of_value_def)
  next
    case False
    moreover have "length (frame_of m) = 4 + ?n" by (simp add: frame_of_body)
    ultimately show ?thesis using size by (auto simp: valid_outgoing_frame_def Let_def header_size_def)
  qed
qed

text \<open>
  C27. What leaves a peer is within the bounds: a message given to an open peer is queued, as its frame, exactly when the
  size of its body does not wrap around in the 32 bits of the header, its payload is within the limit of the
  options, and the queue has room; otherwise nothing is written or queued, the error is reported and the peer is
  closed. So a message of 4 GiB and more is never sent under a truncated size.
\<close>

theorem outgoing_messages_bounded:
  assumes "pr_open p"
  shows "\<exists>p' fs. push_frame (frame_of m) p = (p', fs) \<and>
    (if length (body_of m) < 2 ^ 32 \<and> length (payload_of m) \<le> po_max_message_size (pr_options p) \<and>
        length (pr_write_queue p) < po_max_send_queue_size (pr_options p)
     then pr_open p' \<and> pr_write_queue p' = pr_write_queue p @ [frame_of m] \<and>
       (\<forall>b. Write_bytes b \<in> set fs \<longleftrightarrow> pr_write_queue p = [] \<and> b = frame_of m)
     else \<not> pr_open p' \<and> Signal (Peer_error_occurred No_buffer_space) \<in> set fs \<and> (\<forall>b. Write_bytes b \<notin> set fs))"
  using assms
  by (auto simp: push_frame_def valid_outgoing_frame_body handle_error_def peer_close_def close_socket_def peer_write_def
      Let_def not_less not_le)

theorem outgoing_messages_bounded_witness:
  "\<exists>p' fs. push_frame (frame_of (Msg_request 1 [1, 2, 3])) (peer_new (default_options\<lparr>po_max_message_size := 2\<rparr>)) = (p', fs) \<and>
     \<not> pr_open p' \<and> Signal (Peer_error_occurred No_buffer_space) \<in> set fs"
  using outgoing_messages_bounded[of "peer_new (default_options\<lparr>po_max_message_size := 2\<rparr>)" "Msg_request 1 [1, 2, 3]"]
  by (auto simp: peer_new_def)

end
