(* ===== verification/Request_Manager.thy ===== *)
theory Request_Manager
  imports Stream_Protocol "HOL-Library.Multiset"
begin

text \<open>
  The bookkeeping of pending requests at either end of a stream
  (\<^verbatim>\<open>pqrs/unix_domain_stream/impl/request_manager.hpp\<close>). A callback is a number; its invocation, enqueued on
  the dispatcher, is a \<open>callback_call\<close>. The hash table is an association list without duplicate keys;
  nothing below depends on its order.
\<close>

section \<open>Data and operations\<close>

record pending_request =
  pd_peer :: "nat option"
  pd_callback :: nat

record request_manager =
  rm_next_request_id :: u64
  rm_pending :: "(u64 \<times> pending_request) list"

datatype callback_call = Callback nat "asio_error option" "bytes option"

definition request_manager_new :: request_manager where
  "request_manager_new = \<lparr>rm_next_request_id = 0, rm_pending = []\<rparr>"

text \<open>\<^verbatim>\<open>add\<close>: the id is incremented with wrap-around, and \<^verbatim>\<open>emplace\<close> keeps an entry that has the id.\<close>

definition rm_add :: "nat option \<Rightarrow> nat \<Rightarrow> request_manager \<Rightarrow> u64 \<times> request_manager" where
  "rm_add peer callback s =
     (let i = rm_next_request_id s + 1;
          p = \<lparr>pd_peer = peer, pd_callback = callback\<rparr>
      in (i, s\<lparr>rm_next_request_id := i,
               rm_pending := (if map_of (rm_pending s) i = None then rm_pending s @ [(i, p)] else rm_pending s)\<rparr>))"

definition rm_complete ::
  "u64 \<Rightarrow> asio_error option \<Rightarrow> bytes option \<Rightarrow> request_manager \<Rightarrow> request_manager \<times> callback_call list" where
  "rm_complete i err data s =
     (case map_of (rm_pending s) i of
        None \<Rightarrow> (s, [])
      | Some p \<Rightarrow>
          (s\<lparr>rm_pending := filter (\<lambda>(j, q). j \<noteq> i) (rm_pending s)\<rparr>, [Callback (pd_callback p) err data]))"

definition rm_complete_for ::
  "nat \<Rightarrow> u64 \<Rightarrow> asio_error option \<Rightarrow> bytes option \<Rightarrow> request_manager \<Rightarrow> request_manager \<times> callback_call list" where
  "rm_complete_for peer i err data s =
     (case map_of (rm_pending s) i of
        None \<Rightarrow> (s, [])
      | Some p \<Rightarrow> if pd_peer p \<noteq> Some peer then (s, []) else rm_complete i err data s)"

definition rm_complete_peer :: "nat \<Rightarrow> asio_error \<Rightarrow> request_manager \<Rightarrow> request_manager \<times> callback_call list" where
  "rm_complete_peer peer err s =
     (s\<lparr>rm_pending := filter (\<lambda>(i, p). pd_peer p \<noteq> Some peer) (rm_pending s)\<rparr>,
      map (\<lambda>(i, p). Callback (pd_callback p) (Some err) None)
        (filter (\<lambda>(i, p). pd_peer p = Some peer) (rm_pending s)))"

definition rm_complete_all :: "asio_error \<Rightarrow> request_manager \<Rightarrow> request_manager \<times> callback_call list" where
  "rm_complete_all err s =
     (s\<lparr>rm_pending := []\<rparr>, map (\<lambda>(i, p). Callback (pd_callback p) (Some err) None) (rm_pending s))"

text \<open>
  The timer of a request, when it was not cancelled: the request is completed, and the optional
  timeout callback, the last component, is called.
\<close>

definition rm_on_timeout ::
  "u64 \<Rightarrow> nat option \<Rightarrow> request_manager \<Rightarrow> request_manager \<times> callback_call list \<times> nat option" where
  "rm_on_timeout i timeout_callback s =
     (let (s1, calls) = rm_complete i (Some Timed_out) None s in (s1, calls, timeout_callback))"

section \<open>Runs\<close>

datatype rm_op =
    Rm_add "nat option" nat
  | Rm_complete u64 "asio_error option" "bytes option"
  | Rm_complete_for nat u64 "asio_error option" "bytes option"
  | Rm_complete_peer nat asio_error
  | Rm_complete_all asio_error
  | Rm_timeout u64 "nat option"

primrec run_rm_op :: "rm_op \<Rightarrow> request_manager \<Rightarrow> request_manager \<times> callback_call list" where
  "run_rm_op (Rm_add peer cb) s = (snd (rm_add peer cb s), [])"
| "run_rm_op (Rm_complete i err data) s = rm_complete i err data s"
| "run_rm_op (Rm_complete_for peer i err data) s = rm_complete_for peer i err data s"
| "run_rm_op (Rm_complete_peer peer err) s = rm_complete_peer peer err s"
| "run_rm_op (Rm_complete_all err) s = rm_complete_all err s"
| "run_rm_op (Rm_timeout i cb) s = (let (s1, calls, called_back) = rm_on_timeout i cb s in (s1, calls))"

primrec rm_run :: "rm_op list \<Rightarrow> request_manager \<Rightarrow> request_manager \<times> callback_call list" where
  "rm_run [] s = (s, [])"
| "rm_run (k # ks) s = (let (s1, f1) = run_rm_op k s; (s2, f2) = rm_run ks s1 in (s2, f1 @ f2))"

primrec called :: "callback_call \<Rightarrow> nat" where
  "called (Callback cb err data) = cb"

primrec added :: "rm_op list \<Rightarrow> nat list" where
  "added [] = []"
| "added (k # ks) = (case k of Rm_add peer cb \<Rightarrow> [cb] | _ \<Rightarrow> []) @ added ks"

definition pending_callbacks :: "request_manager \<Rightarrow> nat multiset" where
  "pending_callbacks s = mset (map (pd_callback \<circ> snd) (rm_pending s))"

text \<open>The ids are distinct, and after \<open>n\<close> additions they are among the first \<open>n\<close>.\<close>

definition rm_inv :: "nat \<Rightarrow> request_manager \<Rightarrow> bool" where
  "rm_inv n s \<longleftrightarrow> rm_next_request_id s = of_nat n \<and> distinct (map fst (rm_pending s)) \<and>
     (\<forall>i\<in>set (map fst (rm_pending s)). unat i \<le> n)"

lemma mset_map_split: "mset (map g xs) = mset (map g (filter P xs)) + mset (map g (filter (\<lambda>x. \<not> P x) xs))"
  by (induction xs) auto

lemma rm_complete_effect:
  assumes "rm_inv n s" "rm_complete i err data s = (s', f)"
  shows "rm_inv n s' \<and> pending_callbacks s = pending_callbacks s' + mset (map called f)"
proof (cases "map_of (rm_pending s) i")
  case None
  then show ?thesis using assms by (simp add: rm_complete_def)
next
  case (Some p)
  then have s': "s' = s\<lparr>rm_pending := filter (\<lambda>(j, q). j \<noteq> i) (rm_pending s)\<rparr>" "f = [Callback (pd_callback p) err data]"
    using assms(2) by (simp_all add: rm_complete_def)
  have d: "distinct (map fst (rm_pending s))" using assms(1) by (simp add: rm_inv_def)
  have "filter (\<lambda>(j, q). \<not> j \<noteq> i) xs = [(i, p)]" if "distinct (map fst xs)" "map_of xs i = Some p" for xs
    using that by (induction xs) (auto simp: filter_empty_conv image_def split: if_splits)
  from this[OF d Some] have "filter (\<lambda>x. \<not> (case x of (j, q) \<Rightarrow> j \<noteq> i)) (rm_pending s) = [(i, p)]"
    by (simp add: case_prod_unfold)
  then have "mset (map (pd_callback \<circ> snd) (rm_pending s)) =
      mset (map (pd_callback \<circ> snd) (filter (\<lambda>(j, q). j \<noteq> i) (rm_pending s))) + {#pd_callback p#}"
    using mset_map_split[of "pd_callback \<circ> snd" "rm_pending s" "\<lambda>(j, q). j \<noteq> i"] by simp
  moreover have "rm_inv n s'"
    using assms(1) by (auto simp: rm_inv_def s' distinct_map_filter)
  ultimately show ?thesis
    by (simp add: pending_callbacks_def s' del: mset_map)
qed

lemma rm_complete_for_effect:
  assumes "rm_inv n s" "rm_complete_for peer i err data s = (s', f)"
  shows "rm_inv n s' \<and> pending_callbacks s = pending_callbacks s' + mset (map called f)"
  using assms rm_complete_effect[OF assms(1)]
  by (auto simp: rm_complete_for_def split: option.splits if_splits)

lemma rm_complete_peer_effect:
  assumes "rm_inv n s" "rm_complete_peer peer err s = (s', f)"
  shows "rm_inv n s' \<and> pending_callbacks s = pending_callbacks s' + mset (map called f)"
proof -
  let ?P = "\<lambda>(i :: u64, p). pd_peer p \<noteq> Some peer"
  have f: "map called f = map (pd_callback \<circ> snd) (filter (\<lambda>(i, p). pd_peer p = Some peer) (rm_pending s))"
    and s': "s' = s\<lparr>rm_pending := filter ?P (rm_pending s)\<rparr>"
    using assms(2) by (auto simp: rm_complete_peer_def)
  show ?thesis
    using assms(1) mset_map_split[of "pd_callback \<circ> snd" "rm_pending s" ?P]
    by (auto simp: pending_callbacks_def f s' rm_inv_def distinct_map_filter case_prod_unfold simp del: mset_map)
qed

lemma rm_complete_all_effect:
  assumes "rm_inv n s" "rm_complete_all err s = (s', f)"
  shows "rm_inv n s' \<and> pending_callbacks s = pending_callbacks s' + mset (map called f)"
proof -
  have "map called f = map (pd_callback \<circ> snd) (rm_pending s)" and "s' = s\<lparr>rm_pending := []\<rparr>"
    using assms(2) by (auto simp: rm_complete_all_def)
  then show ?thesis
    using assms(1) by (simp add: rm_inv_def pending_callbacks_def del: mset_map)
qed

lemma rm_add_effect:
  assumes "rm_inv n s" "Suc n < 2 ^ 64"
  shows "rm_inv (Suc n) (snd (rm_add peer cb s)) \<and>
    pending_callbacks (snd (rm_add peer cb s)) = pending_callbacks s + {#cb#}"
proof -
  let ?i = "rm_next_request_id s + 1"
  have i: "?i = of_nat (Suc n)" using assms(1) by (simp add: rm_inv_def)
  have u: "unat (of_nat (Suc n) :: u64) = Suc n"
    using assms(2) by (simp add: unsigned_of_nat take_bit_nat_eq_self del: of_nat_Suc)
  from i u have "?i \<notin> set (map fst (rm_pending s))"
    using assms(1) unfolding rm_inv_def by (metis Suc_n_not_le_n)
  moreover from this have "map_of (rm_pending s) ?i = None" by (simp add: map_of_eq_None_iff)
  ultimately show ?thesis
    using assms(1) i u by (auto simp: rm_add_def Let_def rm_inv_def pending_callbacks_def le_SucI simp del: of_nat_Suc)
qed

lemma rm_run_effect:
  assumes "rm_inv n s" "n + length (added ks) < 2 ^ 64" "rm_run ks s = (s', f)"
  shows "\<exists>n'. rm_inv n' s' \<and> pending_callbacks s + mset (added ks) = pending_callbacks s' + mset (map called f)"
  using assms
proof (induction ks arbitrary: n s f)
  case Nil
  then show ?case by auto
next
  case (Cons k ks)
  obtain s1 f1 where o: "run_rm_op k s = (s1, f1)" by fastforce
  obtain f2 where r: "rm_run ks s1 = (s', f2)" and f: "f = f1 @ f2"
    using Cons.prems(3) by (auto simp: o split: prod.splits)
  show ?case
  proof (cases "\<exists>peer cb. k = Rm_add peer cb")
    case True
    then obtain peer cb where k: "k = Rm_add peer cb" by blast
    have "rm_inv (Suc n) s1 \<and> pending_callbacks s1 = pending_callbacks s + {#cb#} \<and> f1 = []"
      using rm_add_effect[OF Cons.prems(1), of peer cb] Cons.prems(2) o by (auto simp: k)
    with Cons.IH[of "Suc n" s1 f2] Cons.prems(2) r show ?thesis by (auto simp: k f)
  next
    case False
    then have "rm_inv n s1 \<and> pending_callbacks s = pending_callbacks s1 + mset (map called f1)"
      using o Cons.prems(1)
      by (cases k) (auto simp: rm_on_timeout_def case_prod_unfold Let_def dest: rm_complete_effect rm_complete_for_effect
          rm_complete_peer_effect rm_complete_all_effect)
    moreover have "added (k # ks) = added ks" using False by (cases k) auto
    ultimately show ?thesis using Cons.IH[of n s1 f2] Cons.prems(2) r by (auto simp: f)
  qed
qed

section \<open>Properties\<close>

text \<open>
  Every request gets exactly one answer: whatever responses, timeouts, peer failures and stops occur, in
  whatever order, the callbacks invoked and those still pending are together exactly the ones
  registered, and completing all invokes every remaining one. The ids do not repeat within
  the first 2^64 requests.
\<close>

theorem callbacks_exactly_once:
  assumes "length (added ks) < 2 ^ 64" and "rm_run ks request_manager_new = (s, f)"
  shows "mset (added ks) = pending_callbacks s + mset (map called f) \<and>
    mset (added ks) = mset (map called (f @ snd (rm_complete_all err s)))"
proof -
  have 0: "rm_inv 0 request_manager_new" "pending_callbacks request_manager_new = {#}"
    by (simp_all add: rm_inv_def request_manager_new_def pending_callbacks_def)
  obtain n where n: "rm_inv n s" "mset (added ks) = pending_callbacks s + mset (map called f)"
    using rm_run_effect[OF 0(1) _ assms(2)] assms(1) 0(2) by auto
  have "pending_callbacks (fst (rm_complete_all err s)) = {#}"
    by (simp add: rm_complete_all_def pending_callbacks_def)
  with rm_complete_all_effect[OF n(1), of err "fst (rm_complete_all err s)" "snd (rm_complete_all err s)"] n(2)
  show ?thesis by (simp add: add.commute)
qed

theorem callbacks_exactly_once_witness:
  "mset (map called (snd (rm_run [Rm_add None 5, Rm_add None 6, Rm_complete 1 None (Some []), Rm_timeout 1 None]
     request_manager_new))) = {#5#}"
proof -
  let ?k = "[Rm_add None 5, Rm_add None 6, Rm_complete 1 None (Some []), Rm_timeout 1 None]"
  let ?r = "rm_run ?k request_manager_new"
  have "pending_callbacks (fst ?r) = {#6#}"
    by (simp add: pending_callbacks_def request_manager_new_def rm_add_def rm_complete_def rm_on_timeout_def)
  moreover have "mset (added ?k) = pending_callbacks (fst ?r) + mset (map called (snd ?r))"
    using callbacks_exactly_once[of ?k "fst ?r" "snd ?r"] by simp
  ultimately show ?thesis by (simp del: rm_run.simps)
qed

text \<open>
  A peer cannot answer for another one: completing a request on behalf of a peer changes nothing unless
  the request was made to that peer.
\<close>

theorem foreign_response_ignored:
  assumes "map_of (rm_pending s) i = Some p" and "pd_peer p \<noteq> Some peer"
  shows "rm_complete_for peer i err data s = (s, [])"
  using assms by (simp add: rm_complete_for_def)

theorem foreign_response_ignored_witness:
  "rm_complete_for 2 1 None None (snd (rm_add (Some 1) 5 request_manager_new)) =
   (snd (rm_add (Some 1) 5 request_manager_new), [])"
  using foreign_response_ignored[of "snd (rm_add (Some 1) 5 request_manager_new)" 1
      "\<lparr>pd_peer = Some 1, pd_callback = 5\<rparr>" 2]
  by (simp add: rm_add_def request_manager_new_def)

end
