(* ===== verification/Dispatcher.thy ===== *)
theory Dispatcher
  imports Prelude
begin

text \<open>
  The dispatcher on whose thread the daemon and the client library run their closures
  (\<^verbatim>\<open>pqrs/dispatcher/dispatcher.hpp\<close> in \<^verbatim>\<open>vendor/vendor/include\<close>). Each operation below is one critical
  section of the code, or the code between two of them, so a run of the program is a sequence of
  operations, whatever threads they come from. A closure is a value of type \<open>'f\<close>; times are
  milliseconds since the epoch.
\<close>

section \<open>Data and operations\<close>

record 'f queue_entry =
  qe_object_id :: u64
  qe_function :: 'f
  qe_when :: int

record 'f dispatcher =
  di_queue :: "'f queue_entry list"
  di_exit :: bool
  di_object_id :: u64
    \<comment> \<open>the dispatcher's own id, for functions that run after a detach\<close>
  di_object_ids :: "u64 list"
  di_running :: "u64 option"

definition when_internal_detached :: int where
  "when_internal_detached = 0"

definition when_immediately :: int where
  "when_immediately = 1"

definition dispatcher_attach :: "u64 \<Rightarrow> 'f dispatcher \<Rightarrow> bool \<times> 'f dispatcher" where
  "dispatcher_attach object_id d =
     (if di_exit d then (False, d) else (True, d\<lparr>di_object_ids := List.insert object_id (di_object_ids d)\<rparr>))"

definition dispatcher_new :: "u64 \<Rightarrow> 'f dispatcher" where
  "dispatcher_new own =
     snd (dispatcher_attach own
       \<lparr>di_queue = [], di_exit = False, di_object_id = own, di_object_ids = [], di_running = None\<rparr>)"

text \<open>
  \<^verbatim>\<open>detach\<close> erases the id and the object's entries under the locks. Off the dispatcher thread it then waits
  until no function of the object runs; \<open>detach_wait_over\<close> is the condition it waits for.
\<close>

definition dispatcher_detach :: "u64 \<Rightarrow> 'f dispatcher \<Rightarrow> bool \<times> 'f dispatcher" where
  "dispatcher_detach object_id d =
     (if object_id \<notin> set (di_object_ids d) then (False, d)
      else (True, d\<lparr>di_object_ids := remove1 object_id (di_object_ids d),
                    di_queue := filter (\<lambda>e. qe_object_id e \<noteq> object_id) (di_queue d)\<rparr>))"

definition detach_wait_over :: "u64 \<Rightarrow> 'f dispatcher \<Rightarrow> bool" where
  "detach_wait_over object_id d \<longleftrightarrow> di_running d \<noteq> Some object_id"

text \<open>
  The insertion. \<^verbatim>\<open>upper_bound\<close> on a queue sorted by \<^verbatim>\<open>when\<close> is the position behind all entries that are due no
  later.
\<close>

definition insert_entry :: "'f queue_entry \<Rightarrow> 'f queue_entry list \<Rightarrow> 'f queue_entry list" where
  "insert_entry e q =
     (if qe_when e = when_internal_detached then e # q
      else takeWhile (\<lambda>x. qe_when x \<le> qe_when e) q @ e # dropWhile (\<lambda>x. qe_when x \<le> qe_when e) q)"

definition dispatcher_enqueue :: "u64 \<Rightarrow> 'f \<Rightarrow> int \<Rightarrow> 'f dispatcher \<Rightarrow> bool \<times> 'f dispatcher" where
  "dispatcher_enqueue object_id f when_time d =
     (if object_id \<notin> set (di_object_ids d) then (False, d)
      else if di_exit d then (False, d)
      else (True, d\<lparr>di_queue := insert_entry
             \<lparr>qe_object_id = object_id, qe_function = f, qe_when = when_time\<rparr> (di_queue d)\<rparr>))"

text \<open>
  What \<^verbatim>\<open>detach\<close> with a function does once the object is detached: on the dispatcher thread the function runs
  inline (the first component of the result), elsewhere it is queued under the dispatcher's own id, in
  front of everything.
\<close>

definition dispatcher_detach_function :: "bool \<Rightarrow> 'f \<Rightarrow> 'f dispatcher \<Rightarrow> 'f option \<times> bool \<times> 'f dispatcher" where
  "dispatcher_detach_function dispatcher_thread f d =
     (if dispatcher_thread then (Some f, True, d)
      else (None, dispatcher_enqueue (di_object_id d) f when_internal_detached d))"

text \<open>\<^verbatim>\<open>terminate\<close>; \<open>None\<close> is the \<^verbatim>\<open>abort\<close> of a call on the dispatcher thread.\<close>

definition dispatcher_terminate :: "bool \<Rightarrow> 'f dispatcher \<Rightarrow> 'f dispatcher option" where
  "dispatcher_terminate dispatcher_thread d = (if dispatcher_thread then None else Some (d\<lparr>di_exit := True\<rparr>))"

text \<open>The time source is held weakly; \<open>None\<close> stands for one that is gone.\<close>

definition calculate_duration :: "int option \<Rightarrow> 'f dispatcher \<Rightarrow> int" where
  "calculate_duration time_now d =
     (let now = (case time_now of None \<Rightarrow> when_immediately
                 | Some n \<Rightarrow> if when_immediately < n then n else when_immediately);
          due = (if di_queue d \<noteq> [] then qe_when (hd (di_queue d)) else when_immediately)
      in if now < due then due - now else 0)"

text \<open>
  The worker thread after its wait: it stops on exit, waits again while the front is not due, and
  otherwise takes the front. It then marks the object as running, calls the function if the object is
  still attached, and clears the mark.
\<close>

datatype 'f turn = Stop_worker | Wait_again | Run "'f queue_entry"

definition worker_turn :: "int option \<Rightarrow> 'f dispatcher \<Rightarrow> 'f turn \<times> 'f dispatcher" where
  "worker_turn time_now d =
     (if di_exit d then (Stop_worker, d)
      else if calculate_duration time_now d > 0 then (Wait_again, d)
      else
        (case di_queue d of
           [] \<Rightarrow> (Wait_again, d)
         | e # q \<Rightarrow> (Run e, d\<lparr>di_queue := q\<rparr>)))"

definition set_running :: "'f queue_entry \<Rightarrow> 'f dispatcher \<Rightarrow> 'f dispatcher" where
  "set_running e d = d\<lparr>di_running := Some (qe_object_id e)\<rparr>"

definition call_function :: "'f queue_entry \<Rightarrow> 'f dispatcher \<Rightarrow> 'f option" where
  "call_function e d = (if qe_object_id e \<notin> set (di_object_ids d) then None else Some (qe_function e))"

definition unset_running :: "'f dispatcher \<Rightarrow> 'f dispatcher" where
  "unset_running d = d\<lparr>di_running := None\<rparr>"

text \<open>
  The worker loop alone, with the clock standing still and functions that do not touch the dispatcher:
  the functions it runs before it waits, within the given number of turns.
\<close>

fun worker_loop :: "nat \<Rightarrow> int option \<Rightarrow> 'f dispatcher \<Rightarrow> 'f list \<times> 'f dispatcher" where
  "worker_loop 0 now d = ([], d)"
| "worker_loop (Suc n) now d =
     (case worker_turn now d of
        (Run e, d1) \<Rightarrow>
          let d2 = set_running e d1;
              r = call_function e d2;
              (fs, d3) = worker_loop n now (unset_running d2)
          in ((case r of None \<Rightarrow> [] | Some f \<Rightarrow> [f]) @ fs, d3)
      | (_, d1) \<Rightarrow> ([], d1))"

section \<open>Runs\<close>

text \<open>
  Where the worker thread is: waiting, with an entry taken, with its object marked as running, behind
  the test that the object is attached (made under the lock, which is released before the call), in the
  function, or behind it.
\<close>

datatype phase =
    Waiting
  | Taken "nat queue_entry"
  | Marked "nat queue_entry"
  | Checked "nat queue_entry"
  | Executing "nat queue_entry"
  | Finished

text \<open>
  A run of the dispatcher. Functions are numbered by the order of their enqueue, so \<open>ds_next\<close> is the
  number of the next one. \<open>ds_executed\<close> has the functions started so far with their objects;
  \<open>ds_erased\<close> the objects whose detach has erased them, and \<open>ds_returned\<close> those whose detach off the
  dispatcher thread has returned. Object ids come from a counter and are attached once, so an erased
  id is not attached again. Public callers enqueue at a time after the epoch.
\<close>

record dispatcher_system =
  ds_dispatcher :: "nat dispatcher"
  ds_phase :: phase
  ds_executed :: "(u64 \<times> nat) list"
  ds_next :: nat
  ds_erased :: "u64 list"
  ds_returned :: "u64 list"

inductive dispatcher_step :: "dispatcher_system \<Rightarrow> dispatcher_system \<Rightarrow> bool" where
  ds_attach: "i \<notin> set (ds_erased s) \<Longrightarrow> dispatcher_attach i (ds_dispatcher s) = (ok, d') \<Longrightarrow>
     dispatcher_step s (s\<lparr>ds_dispatcher := d'\<rparr>)"
| ds_detach: "dispatcher_detach i (ds_dispatcher s) = (True, d') \<Longrightarrow>
     dispatcher_step s (s\<lparr>ds_dispatcher := d', ds_erased := i # ds_erased s\<rparr>)"
| ds_detach_returns: "i \<in> set (ds_erased s) \<Longrightarrow> detach_wait_over i (ds_dispatcher s) \<Longrightarrow>
     dispatcher_step s (s\<lparr>ds_returned := i # ds_returned s\<rparr>)"
| ds_detach_function: "dispatcher_detach_function False (ds_next s) (ds_dispatcher s) = (None, ok, d') \<Longrightarrow>
     dispatcher_step s (s\<lparr>ds_dispatcher := d', ds_next := ds_next s + 1\<rparr>)"
| ds_enqueue: "0 < t \<Longrightarrow> dispatcher_enqueue i (ds_next s) t (ds_dispatcher s) = (ok, d') \<Longrightarrow>
     dispatcher_step s (s\<lparr>ds_dispatcher := d', ds_next := ds_next s + 1\<rparr>)"
| ds_terminate: "dispatcher_terminate False (ds_dispatcher s) = Some d' \<Longrightarrow>
     dispatcher_step s (s\<lparr>ds_dispatcher := d'\<rparr>)"
| ds_take: "ds_phase s = Waiting \<Longrightarrow> worker_turn now (ds_dispatcher s) = (Run e, d') \<Longrightarrow>
     dispatcher_step s (s\<lparr>ds_dispatcher := d', ds_phase := Taken e\<rparr>)"
| ds_mark: "ds_phase s = Taken e \<Longrightarrow>
     dispatcher_step s (s\<lparr>ds_dispatcher := set_running e (ds_dispatcher s), ds_phase := Marked e\<rparr>)"
| ds_skip: "ds_phase s = Marked e \<Longrightarrow> call_function e (ds_dispatcher s) = None \<Longrightarrow>
     dispatcher_step s (s\<lparr>ds_phase := Finished\<rparr>)"
| ds_check: "ds_phase s = Marked e \<Longrightarrow> call_function e (ds_dispatcher s) = Some f \<Longrightarrow>
     dispatcher_step s (s\<lparr>ds_phase := Checked e\<rparr>)"
| ds_call: "ds_phase s = Checked e \<Longrightarrow>
     dispatcher_step s (s\<lparr>ds_phase := Executing e,
       ds_executed := ds_executed s @ [(qe_object_id e, qe_function e)]\<rparr>)"
| ds_finish: "ds_phase s = Executing e \<Longrightarrow> dispatcher_step s (s\<lparr>ds_phase := Finished\<rparr>)"
| ds_unmark: "ds_phase s = Finished \<Longrightarrow>
     dispatcher_step s (s\<lparr>ds_dispatcher := unset_running (ds_dispatcher s), ds_phase := Waiting\<rparr>)"

abbreviation dispatcher_steps :: "dispatcher_system \<Rightarrow> dispatcher_system \<Rightarrow> bool" where
  "dispatcher_steps \<equiv> rtranclp dispatcher_step"

definition dispatcher_start :: "u64 \<Rightarrow> dispatcher_system" where
  "dispatcher_start own = \<lparr>ds_dispatcher = dispatcher_new own, ds_phase = Waiting, ds_executed = [],
     ds_next = 0, ds_erased = [], ds_returned = []\<rparr>"

section \<open>The queue\<close>

text \<open>Due earlier, or due at the same time and enqueued earlier.\<close>

definition before :: "nat queue_entry \<Rightarrow> nat queue_entry \<Rightarrow> bool" where
  "before a b \<longleftrightarrow> qe_when a < qe_when b \<or> qe_when a = qe_when b \<and> (qe_when a \<noteq> 0 \<longrightarrow> qe_function a < qe_function b)"

definition queue_inv :: "nat dispatcher \<Rightarrow> nat \<Rightarrow> bool" where
  "queue_inv d n \<longleftrightarrow> sorted_wrt before (di_queue d) \<and>
     (\<forall>e\<in>set (di_queue d). 0 \<le> qe_when e \<and> qe_function e < n \<and> qe_object_id e \<in> set (di_object_ids d)) \<and>
     distinct (di_object_ids d)"

lemma before_trans: "before a b \<Longrightarrow> before b c \<Longrightarrow> before a c"
  by (auto simp: before_def)

lemma before_when: "before a b \<Longrightarrow> qe_when a \<le> qe_when b"
  by (auto simp: before_def)

lemma dropWhile_later:
  "sorted_wrt before q \<Longrightarrow> x \<in> set (dropWhile (\<lambda>x. qe_when x \<le> t) q) \<Longrightarrow> t < qe_when x"
proof (induction q)
  case (Cons y q)
  show ?case
  proof (cases "qe_when y \<le> t")
    case False
    with Cons.prems have "x = y \<or> before y x" by auto
    with False show ?thesis using before_when by fastforce
  qed (use Cons in auto)
qed simp

lemma set_insert_entry: "set (insert_entry e q) = insert e (set q)"
proof -
  have "set (takeWhile P q) \<union> set (dropWhile P q) = set q" for P
    by (metis set_append takeWhile_dropWhile_id)
  then show ?thesis by (auto simp: insert_entry_def)
qed

lemma sorted_insert_entry:
  assumes "sorted_wrt before q" "\<forall>x\<in>set q. 0 \<le> qe_when x \<and> qe_function x < qe_function e" "0 \<le> qe_when e"
  shows "sorted_wrt before (insert_entry e q)"
proof (cases "qe_when e = 0")
  case True
  then show ?thesis
    using assms by (auto simp: insert_entry_def when_internal_detached_def before_def order_less_le)
next
  case False
  let ?P = "\<lambda>x. qe_when x \<le> qe_when e"
  have 1: "before x e" if "x \<in> set (takeWhile ?P q)" for x
    using set_takeWhileD[OF that] assms(2) by (auto simp: before_def)
  have 2: "before e x" if "x \<in> set (dropWhile ?P q)" for x
    using dropWhile_later[OF assms(1) that] by (auto simp: before_def)
  have "sorted_wrt before (takeWhile ?P q)" "sorted_wrt before (dropWhile ?P q)"
    using assms(1) sorted_wrt_append[of before "takeWhile ?P q" "dropWhile ?P q"] by simp_all
  with 1 2 before_trans False show ?thesis
    by (simp add: insert_entry_def when_internal_detached_def sorted_wrt_append) blast
qed

lemma queue_inv_attach:
  "queue_inv d n \<Longrightarrow> dispatcher_attach i d = (ok, d') \<Longrightarrow> queue_inv d' n"
  by (auto simp: queue_inv_def dispatcher_attach_def split: if_splits)

lemma queue_inv_detach:
  "queue_inv d n \<Longrightarrow> dispatcher_detach i d = (ok, d') \<Longrightarrow> queue_inv d' n"
  by (auto simp: queue_inv_def dispatcher_detach_def sorted_wrt_filter split: if_splits)

lemma queue_inv_enqueue:
  assumes "queue_inv d n" "0 \<le> t" "dispatcher_enqueue i n t d = (ok, d')"
  shows "queue_inv d' (Suc n)"
proof -
  let ?e = "\<lparr>qe_object_id = i, qe_function = n, qe_when = t\<rparr>"
  have "sorted_wrt before (insert_entry ?e (di_queue d))"
    using assms(1,2) by (intro sorted_insert_entry) (auto simp: queue_inv_def)
  with assms show ?thesis
    by (auto simp: queue_inv_def dispatcher_enqueue_def set_insert_entry less_SucI split: if_splits)
qed

lemma queue_inv_turn:
  "queue_inv d n \<Longrightarrow> worker_turn now d = (r, d') \<Longrightarrow> queue_inv d' n"
  by (auto simp: worker_turn_def queue_inv_def split: if_splits list.splits)

lemma queue_inv_running [simp]:
  "queue_inv (set_running e d) n = queue_inv d n"
  "queue_inv (unset_running d) n = queue_inv d n"
  by (simp_all add: queue_inv_def set_running_def unset_running_def)

lemma queue_inv_terminate: "queue_inv d n \<Longrightarrow> dispatcher_terminate b d = Some d' \<Longrightarrow> queue_inv d' n"
  by (auto simp: queue_inv_def dispatcher_terminate_def split: if_splits)

lemma dispatcher_step_inv:
  "dispatcher_step s t \<Longrightarrow> queue_inv (ds_dispatcher s) (ds_next s) \<Longrightarrow> queue_inv (ds_dispatcher t) (ds_next t)"
proof (induction rule: dispatcher_step.induct)
  case (ds_enqueue t i s ok d')
  then show ?case using queue_inv_enqueue[of _ _ t] by simp
next
  case (ds_detach_function s ok d')
  then show ?case
    by (auto simp: dispatcher_detach_function_def when_internal_detached_def dest: queue_inv_enqueue)
qed (auto intro: queue_inv_attach queue_inv_detach queue_inv_turn queue_inv_terminate)

lemma dispatcher_start_inv: "queue_inv (ds_dispatcher (dispatcher_start own)) (ds_next (dispatcher_start own))"
  by (simp add: dispatcher_start_def dispatcher_new_def dispatcher_attach_def queue_inv_def)

interpretation queue: step_invariant dispatcher_step "\<lambda>s. s = dispatcher_start own" "\<lambda>s. queue_inv (ds_dispatcher s) (ds_next s)"
  for own
  by unfold_locales (auto intro: dispatcher_start_inv dispatcher_step_inv)

lemmas dispatcher_invariant = queue.reachable[OF refl]

lemma worker_turn_Run:
  assumes "worker_turn now d = (Run e, d')"
  shows "di_queue d = e # di_queue d'" "\<not> di_exit d" "d' = d\<lparr>di_queue := di_queue d'\<rparr>"
    "calculate_duration now d = 0"
  using assms by (auto simp: worker_turn_def calculate_duration_def Let_def split: if_splits list.splits)

lemma worker_turn_frame:
  "worker_turn now d = (r, d') \<Longrightarrow>
   di_object_ids d' = di_object_ids d \<and> di_running d' = di_running d \<and> di_exit d' = di_exit d"
  by (auto simp: worker_turn_def split: if_splits list.splits)

text \<open>
  C28. In every reachable state the entry that the worker takes is due (or the clock is before the epoch and the entry
  is an immediate one), belongs to an attached object, and comes before all entries that stay: it is due
  earlier, or due at the same time and was enqueued earlier. So functions with equal times run in the order of
  their enqueue, and a cleanup function of a detach overtakes everything else.
\<close>
theorem worker_takes_first_due:
  assumes "dispatcher_steps (dispatcher_start own) s"
    and "worker_turn (Some now) (ds_dispatcher s) = (Run e, d')"
  shows "qe_when e \<le> max when_immediately now \<and> qe_object_id e \<in> set (di_object_ids (ds_dispatcher s)) \<and>
    (\<forall>x\<in>set (di_queue d'). before e x) \<and> set (di_queue (ds_dispatcher s)) = insert e (set (di_queue d'))"
proof (intro conjI)
  note r = worker_turn_Run[OF assms(2)]
  from dispatcher_invariant[OF assms(1)] r(1)
  show "qe_object_id e \<in> set (di_object_ids (ds_dispatcher s))" "\<forall>x\<in>set (di_queue d'). before e x"
    by (simp_all add: queue_inv_def)
  from r(4) r(1) show "qe_when e \<le> max when_immediately now"
    by (auto simp: calculate_duration_def Let_def split: if_splits)
  from r(1) show "set (di_queue (ds_dispatcher s)) = insert e (set (di_queue d'))" by simp
qed

text \<open>Two functions enqueued at the same time, and a later one for an earlier time.\<close>

definition example_queue :: "dispatcher_system" where
  "example_queue =
     (dispatcher_start 1)\<lparr>ds_dispatcher := (dispatcher_new 1)\<lparr>di_queue := [\<lparr>qe_object_id = 1, qe_function = 2, qe_when = 5\<rparr>,
        \<lparr>qe_object_id = 1, qe_function = 0, qe_when = 9\<rparr>, \<lparr>qe_object_id = 1, qe_function = 1, qe_when = 9\<rparr>]\<rparr>,
        ds_next := 3\<rparr>"

lemma dispatcher_step_enqueue:
  "0 < t \<Longrightarrow> dispatcher_steps s0 s \<Longrightarrow>
   dispatcher_steps s0 (s\<lparr>ds_dispatcher := snd (dispatcher_enqueue i (ds_next s) t (ds_dispatcher s)), ds_next := ds_next s + 1\<rparr>)"
  by (metis ds_enqueue prod.collapse rtranclp.rtrancl_into_rtrancl)

lemma example_queue_reachable: "dispatcher_steps (dispatcher_start 1) example_queue"
proof -
  let ?q = "\<lambda>t s. s\<lparr>ds_dispatcher := snd (dispatcher_enqueue 1 (ds_next s) t (ds_dispatcher s)), ds_next := ds_next s + 1\<rparr>"
  have "dispatcher_steps (dispatcher_start 1) (?q 5 (?q 9 (?q 9 (dispatcher_start 1))))"
    by (intro dispatcher_step_enqueue rtranclp.rtrancl_refl) simp_all
  moreover have "?q 5 (?q 9 (?q 9 (dispatcher_start 1))) = example_queue"
    by (simp add: example_queue_def dispatcher_start_def dispatcher_new_def dispatcher_attach_def
        dispatcher_enqueue_def insert_entry_def when_internal_detached_def)
  ultimately show ?thesis by simp
qed

theorem worker_takes_first_due_witness:
  "before \<lparr>qe_object_id = 1, qe_function = 2, qe_when = 5\<rparr> \<lparr>qe_object_id = 1, qe_function = 0, qe_when = 9\<rparr>
   \<and> (5 :: int) \<le> max when_immediately 7"
proof -
  let ?e = "\<lparr>qe_object_id = 1, qe_function = 2, qe_when = 5\<rparr> :: nat queue_entry"
  have w: "worker_turn (Some 7) (ds_dispatcher example_queue)
      = (Run ?e, (ds_dispatcher example_queue)\<lparr>di_queue := tl (di_queue (ds_dispatcher example_queue))\<rparr>)"
    by (simp add: example_queue_def worker_turn_def calculate_duration_def when_immediately_def
        dispatcher_new_def dispatcher_attach_def)
  from worker_takes_first_due[OF example_queue_reachable w] show ?thesis
    by (simp add: example_queue_def)
qed

section \<open>Detach\<close>

definition detach_inv :: "dispatcher_system \<Rightarrow> bool" where
  "detach_inv s \<longleftrightarrow> queue_inv (ds_dispatcher s) (ds_next s) \<and>
     (\<forall>i\<in>set (ds_erased s). i \<notin> set (di_object_ids (ds_dispatcher s))) \<and> set (ds_returned s) \<subseteq> set (ds_erased s) \<and>
     (\<forall>e. ds_phase s = Marked e \<or> ds_phase s = Checked e \<or> ds_phase s = Executing e \<longrightarrow>
        di_running (ds_dispatcher s) = Some (qe_object_id e)) \<and>
     (\<forall>e. ds_phase s = Checked e \<or> ds_phase s = Executing e \<longrightarrow> qe_object_id e \<notin> set (ds_returned s))"

text \<open>The functions of an object started so far, and the one the worker is about to start.\<close>

definition functions_started :: "u64 \<Rightarrow> dispatcher_system \<Rightarrow> (u64 \<times> nat) list" where
  "functions_started i s = filter (\<lambda>x. fst x = i) (ds_executed s)"

definition committed :: "u64 \<Rightarrow> dispatcher_system \<Rightarrow> (u64 \<times> nat) list" where
  "committed i s =
     (case ds_phase s of
        Checked e \<Rightarrow> if qe_object_id e = i then [(i, qe_function e)] else []
      | _ \<Rightarrow> [])"

lemmas dispatcher_op_defs = dispatcher_attach_def dispatcher_detach_def dispatcher_enqueue_def
  dispatcher_detach_function_def dispatcher_terminate_def set_running_def unset_running_def
  detach_wait_over_def call_function_def

lemma detach_inv_step: "dispatcher_step s t \<Longrightarrow> detach_inv s \<Longrightarrow> detach_inv t"
proof -
  assume st: "dispatcher_step s t" and inv: "detach_inv s"
  then have q: "queue_inv (ds_dispatcher t) (ds_next t)" by (auto simp: detach_inv_def intro: dispatcher_step_inv)
  from st inv show "detach_inv t"
    by (cases rule: dispatcher_step.cases)
      (use q in \<open>auto simp: detach_inv_def queue_inv_def dispatcher_op_defs dest!: worker_turn_frame split: if_splits\<close>)
qed

lemma detach_inv_start: "detach_inv (dispatcher_start own)"
  using dispatcher_start_inv[of own] by (simp add: detach_inv_def dispatcher_start_def)

interpretation detaching: step_invariant dispatcher_step "\<lambda>s. s = dispatcher_start own" detach_inv
  for own
  by unfold_locales (auto intro: detach_inv_start detach_inv_step)

text \<open>Once an object is erased, the committed function is all that may still start.\<close>

definition only_committed :: "u64 \<Rightarrow> dispatcher_system \<Rightarrow> dispatcher_system \<Rightarrow> bool" where
  "only_committed i s t \<longleftrightarrow>
     functions_started i t = functions_started i s \<and> committed i t = committed i s \<or>
     functions_started i t = functions_started i s @ committed i s \<and> committed i t = []"

lemma only_committed_trans: "only_committed i s t \<Longrightarrow> only_committed i t u \<Longrightarrow> only_committed i s u"
  by (auto simp: only_committed_def)

lemma erased_step:
  assumes "dispatcher_step s t" "detach_inv s" "i \<in> set (ds_erased s)"
  shows "only_committed i s t" "i \<in> set (ds_erased t)" "set (ds_returned s) \<subseteq> set (ds_returned t)"
  using assms
  by (cases rule: dispatcher_step.cases;
      auto simp: detach_inv_def only_committed_def functions_started_def committed_def call_function_def split: if_splits)+

lemma erased_steps:
  assumes "dispatcher_steps s t"
  shows "detach_inv s \<Longrightarrow> i \<in> set (ds_erased s) \<Longrightarrow>
    only_committed i s t \<and> i \<in> set (ds_erased t) \<and> set (ds_returned s) \<subseteq> set (ds_returned t)"
  using assms
proof (induction rule: rtranclp_induct)
  case base
  then show ?case by (simp add: only_committed_def)
next
  case (step t u)
  then show ?case
    using erased_step[of t u i] detaching.preserved[of s t] only_committed_trans[of i s t u] by blast
qed

lemma returned_not_committed: "detach_inv s \<Longrightarrow> i \<in> set (ds_returned s) \<Longrightarrow> committed i s = []"
  by (auto simp: detach_inv_def committed_def split: phase.split)

text \<open>
  C13. From the moment a detach has erased an object, no function of it is started any more but for at most
  one: the one whose object the worker had found attached just before, if that is where the worker was.
  Once a detach from another thread has returned there is no such function: none of the object is started
  or running, then or later. So the object may be destroyed.
\<close>
theorem detached_object_untouched:
  assumes "dispatcher_steps (dispatcher_start own) s" "i \<in> set (ds_erased s)" "dispatcher_steps s t"
  shows "(functions_started i t = functions_started i s \<or>
      (\<exists>e. ds_phase s = Checked e \<and> qe_object_id e = i \<and> functions_started i t = functions_started i s @ [(i, qe_function e)])) \<and>
    (i \<in> set (ds_returned s) \<longrightarrow> functions_started i t = functions_started i s \<and>
      (\<forall>e. ds_phase t = Checked e \<or> ds_phase t = Executing e \<longrightarrow> qe_object_id e \<noteq> i))"
proof (intro conjI impI allI)
  have s: "detach_inv s" using detaching.reachable[OF refl assms(1)] .
  note e = erased_steps[OF assms(3) s assms(2)]
  from e show "functions_started i t = functions_started i s \<or>
      (\<exists>e. ds_phase s = Checked e \<and> qe_object_id e = i \<and> functions_started i t = functions_started i s @ [(i, qe_function e)])"
    by (auto simp: only_committed_def committed_def split: phase.splits if_splits)
  show "functions_started i t = functions_started i s" if "i \<in> set (ds_returned s)"
    using e returned_not_committed[OF s that] by (auto simp: only_committed_def)
  show "qe_object_id e \<noteq> i" if "i \<in> set (ds_returned s)" "ds_phase t = Checked e \<or> ds_phase t = Executing e" for e
    using detaching.preserved[OF assms(3) s] e that by (auto simp: detach_inv_def)
qed

text \<open>
  The worker has taken a function of object 2 when another thread detaches the object; the detach returns at
  once, since nothing runs, and the worker skips the function.
\<close>

definition example_taken :: dispatcher_system where
  "example_taken =
     (dispatcher_start 1)\<lparr>ds_dispatcher := (dispatcher_new 1)\<lparr>di_object_ids := [2, 1]\<rparr>,
        ds_phase := Taken \<lparr>qe_object_id = 2, qe_function = 0, qe_when = 1\<rparr>, ds_next := 1\<rparr>"

definition example_detached :: dispatcher_system where
  "example_detached =
     example_taken\<lparr>ds_dispatcher := dispatcher_new 1, ds_erased := [2], ds_returned := [2]\<rparr>"

definition example_skipped :: dispatcher_system where
  "example_skipped =
     example_detached\<lparr>ds_dispatcher := set_running \<lparr>qe_object_id = 2, qe_function = 0, qe_when = 1\<rparr> (dispatcher_new 1),
        ds_phase := Finished\<rparr>"

lemmas example_run_defs = example_taken_def example_detached_def example_skipped_def dispatcher_start_def dispatcher_new_def

lemma example_taken_reachable: "dispatcher_steps (dispatcher_start 1) example_taken"
proof -
  let ?s1 = "(dispatcher_start 1)\<lparr>ds_dispatcher := (dispatcher_new 1)\<lparr>di_object_ids := [2, 1]\<rparr>\<rparr>"
  let ?s2 = "?s1\<lparr>ds_dispatcher := snd (dispatcher_enqueue 2 0 1 (ds_dispatcher ?s1)), ds_next := 1\<rparr>"
  have 1: "dispatcher_step (dispatcher_start 1) ?s1"
    using ds_attach[of 2 "dispatcher_start 1"] by (simp add: example_run_defs dispatcher_attach_def)
  have 2: "dispatcher_step ?s1 ?s2"
    using ds_enqueue[of 1 2 ?s1] by (simp add: example_run_defs dispatcher_attach_def dispatcher_enqueue_def)
  have 3: "dispatcher_step ?s2 example_taken"
    using ds_take[of ?s2 None "\<lparr>qe_object_id = 2, qe_function = 0, qe_when = 1\<rparr>"]
    by (simp add: example_run_defs dispatcher_attach_def dispatcher_enqueue_def insert_entry_def worker_turn_def
        calculate_duration_def when_immediately_def when_internal_detached_def)
  from 1 2 3 show ?thesis by (meson converse_rtranclp_into_rtranclp rtranclp.rtrancl_refl)
qed

lemma example_detached_reachable: "dispatcher_steps (dispatcher_start 1) example_detached"
proof -
  let ?s = "example_taken\<lparr>ds_dispatcher := dispatcher_new 1, ds_erased := [2]\<rparr>"
  have 1: "dispatcher_step example_taken ?s"
    using ds_detach[of 2 example_taken] by (simp add: example_run_defs dispatcher_op_defs)
  have 2: "dispatcher_step ?s example_detached"
    using ds_detach_returns[of 2 ?s] by (simp add: example_run_defs dispatcher_op_defs)
  from example_taken_reachable 1 2 show ?thesis by (meson rtranclp.rtrancl_into_rtrancl)
qed

lemma example_skipped_reachable: "dispatcher_steps example_detached example_skipped"
proof -
  let ?e = "\<lparr>qe_object_id = 2, qe_function = 0, qe_when = 1\<rparr>"
  let ?s = "example_detached\<lparr>ds_dispatcher := set_running ?e (dispatcher_new 1), ds_phase := Marked ?e\<rparr>"
  have 1: "dispatcher_step example_detached ?s"
    using ds_mark[of example_detached ?e] by (simp add: example_run_defs dispatcher_op_defs)
  have 2: "dispatcher_step ?s example_skipped"
    using ds_skip[of ?s ?e] by (simp add: example_run_defs dispatcher_op_defs)
  from 1 2 show ?thesis by (meson converse_rtranclp_into_rtranclp rtranclp.rtrancl_refl)
qed

text \<open>The worker then goes on with a function of object 1.\<close>

definition example_executing :: dispatcher_system where
  "example_executing =
     example_skipped\<lparr>ds_dispatcher := set_running \<lparr>qe_object_id = 1, qe_function = 1, qe_when = 1\<rparr> (dispatcher_new 1),
        ds_phase := Executing \<lparr>qe_object_id = 1, qe_function = 1, qe_when = 1\<rparr>, ds_executed := [(1, 1)], ds_next := 2\<rparr>"

lemma example_executing_reachable: "dispatcher_steps example_skipped example_executing"
proof -
  let ?e = "\<lparr>qe_object_id = 1, qe_function = 1, qe_when = 1\<rparr> :: nat queue_entry"
  let ?s1 = "example_skipped\<lparr>ds_dispatcher := dispatcher_new 1, ds_phase := Waiting\<rparr>"
  let ?s2 = "?s1\<lparr>ds_dispatcher := (dispatcher_new 1)\<lparr>di_queue := [?e]\<rparr>, ds_next := 2\<rparr>"
  let ?s3 = "?s2\<lparr>ds_dispatcher := dispatcher_new 1, ds_phase := Taken ?e\<rparr>"
  let ?s4 = "?s3\<lparr>ds_dispatcher := set_running ?e (dispatcher_new 1), ds_phase := Marked ?e\<rparr>"
  have 1: "dispatcher_step example_skipped ?s1"
    using ds_unmark[of example_skipped] by (simp add: example_run_defs dispatcher_op_defs)
  have 2: "dispatcher_step ?s1 ?s2"
    using ds_enqueue[of 1 1 ?s1 True "ds_dispatcher ?s2"]
    by (simp add: example_run_defs dispatcher_op_defs insert_entry_def when_internal_detached_def numeral_2_eq_2)
  have 3: "dispatcher_step ?s2 ?s3"
    using ds_take[of ?s2 None ?e]
    by (simp add: example_run_defs dispatcher_op_defs worker_turn_def calculate_duration_def when_immediately_def)
  have 4: "dispatcher_step ?s3 ?s4"
    using ds_mark[of ?s3 ?e] by (simp add: example_run_defs dispatcher_op_defs)
  let ?s5 = "?s4\<lparr>ds_phase := Checked ?e\<rparr>"
  have 5: "dispatcher_step ?s4 ?s5"
    using ds_check[of ?s4 ?e 1] by (simp add: example_run_defs dispatcher_op_defs)
  have 6: "dispatcher_step ?s5 example_executing"
    using ds_call[of ?s5 ?e] by (simp add: example_run_defs dispatcher_op_defs example_executing_def)
  show ?thesis
    using 1 2 3 4 5 6 by (meson converse_rtranclp_into_rtranclp rtranclp.rtrancl_refl)
qed

text \<open>
  The other order: the worker has found object 2 attached when the detach erases it. The function starts
  after the erase, and the detach returns only behind it.
\<close>

definition example_race :: dispatcher_system where
  "example_race =
     example_taken\<lparr>ds_dispatcher := set_running \<lparr>qe_object_id = 2, qe_function = 0, qe_when = 1\<rparr> (dispatcher_new 1),
        ds_phase := Checked \<lparr>qe_object_id = 2, qe_function = 0, qe_when = 1\<rparr>, ds_erased := [2]\<rparr>"

definition example_late_start :: dispatcher_system where
  "example_late_start =
     example_race\<lparr>ds_phase := Executing \<lparr>qe_object_id = 2, qe_function = 0, qe_when = 1\<rparr>, ds_executed := [(2, 0)]\<rparr>"

lemma example_race_reachable: "dispatcher_steps (dispatcher_start 1) example_race"
proof -
  let ?e = "\<lparr>qe_object_id = 2, qe_function = 0, qe_when = 1\<rparr> :: nat queue_entry"
  let ?s1 = "example_taken\<lparr>ds_dispatcher := set_running ?e (ds_dispatcher example_taken), ds_phase := Marked ?e\<rparr>"
  let ?s2 = "?s1\<lparr>ds_phase := Checked ?e\<rparr>"
  have 1: "dispatcher_step example_taken ?s1"
    using ds_mark[of example_taken ?e] by (simp add: example_run_defs)
  have 2: "dispatcher_step ?s1 ?s2"
    using ds_check[of ?s1 ?e 0] by (simp add: example_run_defs dispatcher_op_defs)
  have 3: "dispatcher_step ?s2 example_race"
    using ds_detach[of 2 ?s2] by (simp add: example_run_defs dispatcher_op_defs example_race_def)
  from example_taken_reachable 1 2 3 show ?thesis by (meson rtranclp.rtrancl_into_rtrancl)
qed

lemma example_late_start_reachable: "dispatcher_steps example_race example_late_start"
  using ds_call[of example_race "\<lparr>qe_object_id = 2, qe_function = 0, qe_when = 1\<rparr>"]
  by (intro r_into_rtranclp) (simp add: example_race_def example_late_start_def example_taken_def dispatcher_start_def)

theorem detached_object_untouched_witness:
  "2 \<in> set (ds_returned example_detached) \<and> functions_started 2 example_executing = functions_started 2 example_detached \<and>
   functions_started 2 example_late_start = functions_started 2 example_race @ [(2, 0)]"
  using detached_object_untouched[OF example_detached_reachable _
      rtranclp_trans[OF example_skipped_reachable example_executing_reachable], of 2]
    detached_object_untouched[OF example_race_reachable _ example_late_start_reachable, of 2]
  by (auto simp: example_detached_def example_taken_def example_race_def example_late_start_def dispatcher_start_def
      functions_started_def)

section \<open>Termination and progress\<close>

definition may_start :: "dispatcher_system \<Rightarrow> nat" where
  "may_start s = (case ds_phase s of Taken e \<Rightarrow> 1 | Marked e \<Rightarrow> 1 | Checked e \<Rightarrow> 1 | _ \<Rightarrow> 0)"

lemma exit_step:
  assumes "dispatcher_step s t" "di_exit (ds_dispatcher s)"
  shows "di_exit (ds_dispatcher t)" "length (ds_executed t) + may_start t \<le> length (ds_executed s) + may_start s"
  using assms
  by (cases rule: dispatcher_step.cases;
      auto simp: dispatcher_op_defs may_start_def dest: worker_turn_Run(2) split: if_splits)+

lemma exit_steps:
  "dispatcher_steps s t \<Longrightarrow> di_exit (ds_dispatcher s) \<Longrightarrow>
   di_exit (ds_dispatcher t) \<and> length (ds_executed t) + may_start t \<le> length (ds_executed s) + may_start s"
  by (induction rule: rtranclp_induct) (auto dest: exit_step)

text \<open>
  After a terminate at most one more function starts, the one the worker had already taken, whatever is
  queued; and every attach and enqueue is refused.
\<close>
theorem terminate_stops_worker:
  assumes "di_exit (ds_dispatcher s)" "dispatcher_steps s t"
  shows "length (ds_executed t) \<le> length (ds_executed s) + 1"
    "dispatcher_attach i (ds_dispatcher t) = (False, ds_dispatcher t)"
    "dispatcher_enqueue i f w (ds_dispatcher t) = (False, ds_dispatcher t)"
proof -
  note e = exit_steps[OF assms(2,1)]
  moreover have "may_start s \<le> 1" by (simp add: may_start_def split: phase.split)
  ultimately show "length (ds_executed t) \<le> length (ds_executed s) + 1" by linarith
  from e show "dispatcher_attach i (ds_dispatcher t) = (False, ds_dispatcher t)"
    "dispatcher_enqueue i f w (ds_dispatcher t) = (False, ds_dispatcher t)"
    by (simp_all add: dispatcher_op_defs)
qed

theorem terminate_stops_worker_witness:
  "dispatcher_enqueue 1 0 5 (ds_dispatcher (example_queue\<lparr>ds_dispatcher := (ds_dispatcher example_queue)\<lparr>di_exit := True\<rparr>\<rparr>))
   = (False, ds_dispatcher (example_queue\<lparr>ds_dispatcher := (ds_dispatcher example_queue)\<lparr>di_exit := True\<rparr>\<rparr>))"
  by (rule terminate_stops_worker(3)[OF _ rtranclp.rtrancl_refl]) simp

lemma worker_turn_due:
  "di_queue d = e # q \<Longrightarrow> \<not> di_exit d \<Longrightarrow> qe_when e \<le> max when_immediately now \<Longrightarrow>
   worker_turn (Some now) d = (Run e, d\<lparr>di_queue := q\<rparr>)"
  by (auto simp: worker_turn_def calculate_duration_def Let_def)

lemma worker_loop_drains:
  "\<not> di_exit d \<Longrightarrow> \<forall>e\<in>set (di_queue d). qe_when e \<le> max when_immediately now \<and> qe_object_id e \<in> set (di_object_ids d) \<Longrightarrow>
   length (di_queue d) \<le> n \<Longrightarrow>
   fst (worker_loop n (Some now) d) = map qe_function (di_queue d) \<and> di_queue (snd (worker_loop n (Some now) d)) = []"
proof (induction n arbitrary: d)
  case (Suc n)
  show ?case
  proof (cases "di_queue d")
    case Nil
    with Suc.prems show ?thesis by (simp add: worker_turn_def calculate_duration_def split: option.split)
  next
    case (Cons e q)
    let ?d = "unset_running (set_running e (d\<lparr>di_queue := q\<rparr>))"
    have "fst (worker_loop n (Some now) ?d) = map qe_function (di_queue ?d) \<and> di_queue (snd (worker_loop n (Some now) ?d)) = []"
      using Suc.prems Cons by (intro Suc.IH) (auto simp: set_running_def unset_running_def)
    with Suc.prems Cons show ?thesis
      by (simp add: worker_turn_due[OF Cons] case_prod_unfold call_function_def Let_def set_running_def unset_running_def)
  qed
qed simp

text \<open>
  The worker makes progress: in every reachable state that is not terminated, when everything queued is due,
  as many turns as there are entries run all their functions, in queue order, and empty the queue.
\<close>
theorem worker_runs_due_functions:
  assumes "dispatcher_steps (dispatcher_start own) s" "\<not> di_exit (ds_dispatcher s)"
    and "\<forall>e\<in>set (di_queue (ds_dispatcher s)). qe_when e \<le> max when_immediately now"
    and "length (di_queue (ds_dispatcher s)) \<le> n"
  shows "fst (worker_loop n (Some now) (ds_dispatcher s)) = map qe_function (di_queue (ds_dispatcher s)) \<and>
    di_queue (snd (worker_loop n (Some now) (ds_dispatcher s))) = []"
  using worker_loop_drains[of "ds_dispatcher s" now n] dispatcher_invariant[OF assms(1)] assms(2-4)
  by (auto simp: queue_inv_def)

theorem worker_runs_due_functions_witness:
  "fst (worker_loop 3 (Some 9) (ds_dispatcher example_queue)) = [2, 0, 1]"
  using worker_runs_due_functions[OF example_queue_reachable, of 9 3]
  by (simp add: example_queue_def dispatcher_new_def dispatcher_attach_def)

end
