(* ===== verification/Dispatcher_Client.thy ===== *)
theory Dispatcher_Client
  imports Dispatcher
begin

text \<open>
  The helpers around the dispatcher, in \<^verbatim>\<open>pqrs/dispatcher\<close>: object ids (\<^verbatim>\<open>object_id.hpp\<close>), the base class of the objects
  that enqueue closures (\<^verbatim>\<open>extra/dispatcher_client.hpp\<close>), tasks of which only the latest one runs
  (\<^verbatim>\<open>extra/debounced_task.hpp\<close>), timers (\<^verbatim>\<open>extra/timer.hpp\<close>) and the process-wide dispatcher (\<^verbatim>\<open>extra/shared_dispatcher.hpp\<close>).
\<close>

section \<open>Object ids\<close>

record id_manager =
  im_set :: "u64 list"
  im_last_value :: u64

definition id_manager_new :: id_manager where
  "id_manager_new = \<lparr>im_set = [], im_last_value = 0\<rparr>"

text \<open>The loop of \<^verbatim>\<open>make\<close>; \<open>None\<close> means that it does not end.\<close>

partial_function (option) id_search :: "u64 list \<Rightarrow> u64 \<Rightarrow> u64 option" where
  "id_search ids last_value =
     (let v = last_value + 1 in if v \<notin> set ids then Some v else id_search ids v)"

text \<open>The exception of \<^verbatim>\<open>make\<close> is \<open>Inl\<close>.\<close>

datatype id_error = Fails_to_allocate_new_object_id

definition id_make :: "id_manager \<Rightarrow> (id_error + u64 \<times> id_manager) option" where
  "id_make m =
     (if length (im_set m) \<ge> 2 ^ 64 - 1 then Some (Inl Fails_to_allocate_new_object_id)
      else map_option (\<lambda>v. Inr (v, \<lparr>im_set = v # im_set m, im_last_value = v\<rparr>))
             (id_search (im_set m) (im_last_value m)))"

definition id_erase :: "u64 \<Rightarrow> id_manager \<Rightarrow> id_manager" where
  "id_erase v m = m\<lparr>im_set := remove1 v (im_set m)\<rparr>"

definition id_size :: "id_manager \<Rightarrow> nat" where
  "id_size m = length (im_set m)"

lemma id_search_unfold:
  "id_search ids l = (if l + 1 \<notin> set ids then Some (l + 1) else id_search ids (l + 1))"
  by (subst id_search.simps) (simp add: Let_def)

lemma id_search_Suc:
  "(\<And>j. j < k \<Longrightarrow> l + of_nat (Suc j) \<in> set ids) \<Longrightarrow> l + of_nat (Suc k) \<notin> set ids \<Longrightarrow>
   id_search ids l = Some (l + of_nat (Suc k))"
proof (induction k arbitrary: l)
  case 0
  then show ?case by (subst id_search_unfold) simp
next
  case (Suc k)
  have "l + 1 \<in> set ids" using Suc.prems(1)[of 0] by simp
  moreover have "id_search ids (l + 1) = Some (l + 1 + of_nat (Suc k))"
  proof (rule Suc.IH)
    show "l + 1 + of_nat (Suc j) \<in> set ids" if "j < k" for j
      using Suc.prems(1)[of "Suc j"] that by (simp add: add.assoc)
    show "l + 1 + of_nat (Suc k) \<notin> set ids" using Suc.prems(2) by (simp add: add.assoc)
  qed
  ultimately show ?case by (subst id_search_unfold) (simp add: add.assoc)
qed

lemma id_search_returns:
  assumes "length ids < 2 ^ 64"
  shows "\<exists>v. id_search ids l = Some v \<and> v \<notin> set ids"
proof -
  have "card (set ids) < card (UNIV :: u64 set)"
    using assms card_length[of ids] by (simp add: card_word)
  then have "set ids \<noteq> UNIV" by force
  then obtain v where v: "v \<notin> set ids" by blast
  have "l + of_nat (Suc (unat (v - l - 1))) = v" by simp
  with v have "\<exists>k. l + of_nat (Suc k) \<notin> set ids" by metis
  then obtain k where "l + of_nat (Suc k) \<notin> set ids" "\<And>j. j < k \<Longrightarrow> l + of_nat (Suc j) \<in> set ids"
    using exists_least_iff[of "\<lambda>k. l + of_nat (Suc k) \<notin> set ids"] by blast
  then show ?thesis using id_search_Suc by blast
qed

lemma id_make_cases:
  "2 ^ 64 - 1 \<le> length (im_set m) \<Longrightarrow> id_make m = Some (Inl Fails_to_allocate_new_object_id)"
  "length (im_set m) < 2 ^ 64 - 1 \<Longrightarrow>
   \<exists>v. id_make m = Some (Inr (v, \<lparr>im_set = v # im_set m, im_last_value = v\<rparr>)) \<and> v \<notin> set (im_set m)"
  using id_search_returns[of "im_set m" "im_last_value m"] by (auto simp: id_make_def)

text \<open>
  C31. Allocating an object id always ends: with an id that no object has, which is then taken, or with
  the exception, exactly when all ids but one are taken.
\<close>

theorem id_make_ends:
  "\<exists>r. id_make m = Some r \<and>
     (case r of
        Inl x \<Rightarrow> 2 ^ 64 - 1 \<le> length (im_set m)
      | Inr (v, m') \<Rightarrow> length (im_set m) < 2 ^ 64 - 1 \<and> v \<notin> set (im_set m) \<and> set (im_set m') = insert v (set (im_set m)))"
proof (cases "2 ^ 64 - 1 \<le> length (im_set m)")
  case True
  then show ?thesis by (simp add: id_make_cases(1))
next
  case False
  then show ?thesis using id_make_cases(2)[of m] by auto
qed

text \<open>
  The objects of a process that have an id, after \<open>n\<close> allocations. Destroying an object erases its id;
  destroying an object whose id was moved to another one erases the value 0.
\<close>

inductive id_live :: "nat \<Rightarrow> u64 list \<Rightarrow> id_manager \<Rightarrow> bool" where
  il_new: "id_live 0 [] id_manager_new"
| il_make: "id_live n live m \<Longrightarrow> id_make m = Some (Inr (v, m')) \<Longrightarrow> id_live (Suc n) (v # live) m'"
| il_destroy: "id_live n live m \<Longrightarrow> v \<in> set live \<Longrightarrow> id_live n (remove1 v live) (id_erase v m)"
| il_destroy_moved: "id_live n live m \<Longrightarrow> id_live n live (id_erase 0 m)"

definition id_inv :: "nat \<Rightarrow> u64 list \<Rightarrow> id_manager \<Rightarrow> bool" where
  "id_inv n live m \<longleftrightarrow> distinct live \<and> im_set m = live \<and> im_last_value m = of_nat n \<and>
     (\<forall>v\<in>set live. 0 < unat v \<and> unat v \<le> n)"

lemma id_inv_make:
  assumes "id_inv n live m" "Suc n < 2 ^ 64" "id_make m = Some (Inr (v, m'))"
  shows "id_inv (Suc n) (v # live) m' \<and> unat v = Suc n"
proof -
  have u: "unat (of_nat (Suc n) :: u64) = Suc n" using assms(2) by (intro unat_of_nat_less) simp
  have "of_nat (Suc n) \<notin> set live"
    using assms(1) u by (metis id_inv_def Suc_n_not_le_n)
  then have "id_search (im_set m) (im_last_value m) = Some (of_nat (Suc n))"
    using assms(1) by (subst id_search_unfold) (simp add: id_inv_def add.commute)
  then have "v = of_nat (Suc n)" "m' = \<lparr>im_set = v # im_set m, im_last_value = v\<rparr>"
    using assms(3) by (auto simp: id_make_def split: if_splits)
  with assms(1) u \<open>of_nat (Suc n) \<notin> set live\<close> show ?thesis
    by (auto simp: id_inv_def le_SucI simp del: of_nat_Suc)
qed

lemma id_live_inv: "id_live n live m \<Longrightarrow> n < 2 ^ 64 \<Longrightarrow> id_inv n live m"
proof (induction rule: id_live.induct)
  case il_new
  then show ?case by (simp add: id_inv_def id_manager_new_def)
next
  case (il_make n live m v m')
  then show ?case using id_inv_make by simp
next
  case (il_destroy n live m v)
  then show ?case by (auto simp: id_inv_def id_erase_def dest: notin_set_remove1)
next
  case (il_destroy_moved n live m)
  then have "0 \<notin> set live" by (auto simp: id_inv_def)
  then show ?case using il_destroy_moved by (auto simp: id_inv_def id_erase_def remove1_idem)
qed

text \<open>
  The ids of living objects are pairwise different, and an id is never given twice: within the first
  2^64 - 1 allocations the n-th object gets the id n, whatever objects were destroyed or moved in between.
\<close>

theorem object_ids_unique:
  assumes "id_live n live m" and "Suc n < 2 ^ 64"
  shows "distinct live \<and> (\<exists>m'. id_make m = Some (Inr (of_nat (Suc n), m')) \<and> id_live (Suc n) (of_nat (Suc n) # live) m') \<and>
    (\<forall>v\<in>set live. unat v \<le> n)"
proof -
  have i: "id_inv n live m" using id_live_inv assms by simp
  have "set live \<subseteq> unat -` {1..n}" using i by (auto simp: id_inv_def)
  then have "unat ` set live \<subseteq> {1..n}" by auto
  moreover have "inj_on unat (set live)" by (simp add: inj_on_def unsigned_word_eqI)
  ultimately have "card (set live) \<le> n" using card_mono[of "{1..n}" "unat ` set live"] by (simp add: card_image)
  then have "length (im_set m) < 2 ^ 64 - 1" using i assms(2) by (simp add: id_inv_def distinct_card)
  then obtain v m' where v: "id_make m = Some (Inr (v, m'))" using id_make_cases(2) by blast
  have "v = of_nat (unat v)" by simp
  then have "v = of_nat (Suc n)" using id_inv_make[OF i assms(2) v] by simp
  with v il_make[OF assms(1) v] i show ?thesis by (auto simp: id_inv_def)
qed

theorem object_ids_unique_witness:
  "distinct [3 :: u64, 2] \<and> (\<forall>v\<in>set [3 :: u64, 2]. unat v \<le> 3)"
proof -
  let ?m = "\<lambda>ids l. \<lparr>im_set = ids, im_last_value = l\<rparr>"
  have s: "id_make (?m ids l) = Some (Inr (l + 1, ?m ((l + 1) # ids) (l + 1)))"
    if "l + 1 \<notin> set ids" "length ids < 10" for ids l
    using that by (simp add: id_make_def id_search_unfold)
  have "id_live 0 [] (?m [] 0)" using il_new by (simp add: id_manager_new_def)
  from il_make[OF this s] have "id_live 1 [1] (?m [1] 1)" by simp
  from il_make[OF this s] have "id_live 2 [2, 1] (?m [2, 1] 2)" by (simp add: numeral_2_eq_2)
  from il_destroy[OF this, of 1] have "id_live 2 [2] (?m [2] 2)" by (simp add: id_erase_def)
  from il_make[OF this s] have "id_live 3 [3, 2] (?m [3, 2] 3)" by (simp add: numeral_3_eq_3 numeral_2_eq_2)
  from object_ids_unique[OF this] show ?thesis by simp
qed

section \<open>Objects attached to the dispatcher\<close>

text \<open>
  The dispatcher is held weakly: \<open>None\<close> stands for one that is gone. An object is given by its id. The
  destructor aborts, \<open>None\<close>, when the object is still attached.
\<close>

definition dispatcher_client_new :: "u64 \<Rightarrow> 'f dispatcher option \<Rightarrow> 'f dispatcher option" where
  "dispatcher_client_new object_id od = map_option (\<lambda>d. snd (dispatcher_attach object_id d)) od"

definition dispatcher_client_attached :: "u64 \<Rightarrow> 'f dispatcher option \<Rightarrow> bool" where
  "dispatcher_client_attached object_id od =
     (case od of None \<Rightarrow> False | Some d \<Rightarrow> object_id \<in> set (di_object_ids d))"

definition dispatcher_client_destroy :: "u64 \<Rightarrow> 'f dispatcher option \<Rightarrow> unit option" where
  "dispatcher_client_destroy object_id od =
     (if dispatcher_client_attached object_id od then None else Some ())"

definition detach_from_dispatcher :: "u64 \<Rightarrow> 'f dispatcher option \<Rightarrow> 'f dispatcher option" where
  "detach_from_dispatcher object_id od = map_option (\<lambda>d. snd (dispatcher_detach object_id d)) od"

definition enqueue_to_dispatcher ::
  "u64 \<Rightarrow> 'f \<Rightarrow> int \<Rightarrow> 'f dispatcher option \<Rightarrow> bool \<times> 'f dispatcher option" where
  "enqueue_to_dispatcher object_id f when_time od =
     (case od of
        None \<Rightarrow> (False, None)
      | Some d \<Rightarrow> (let (ok, d') = dispatcher_enqueue object_id f when_time d in (ok, Some d')))"

definition when_now :: "int option \<Rightarrow> 'f dispatcher option \<Rightarrow> int" where
  "when_now time_now od =
     (case od of None \<Rightarrow> when_immediately
      | Some d \<Rightarrow> (case time_now of None \<Rightarrow> when_immediately | Some n \<Rightarrow> n))"

section \<open>Debounced tasks\<close>

text \<open>
  The closures of a debounced task, and what running one does: the new state, the closures it enqueues with
  their times, and the functions it calls. \<open>accepted\<close> is whether the dispatcher takes an enqueued
  closure.
\<close>

record debounced_task =
  db_generation :: u64

datatype 'f debounced_closure = Db_debounce 'f int | Db_cancel | Db_fire 'f u64

definition debounced_task_new :: debounced_task where
  "debounced_task_new = \<lparr>db_generation = 0\<rparr>"

definition debounce_at :: "'f \<Rightarrow> int \<Rightarrow> 'f debounced_closure \<times> int" where
  "debounce_at f when_time = (Db_debounce f when_time, when_immediately)"

definition debounce_after :: "'f \<Rightarrow> int \<Rightarrow> int \<Rightarrow> 'f debounced_closure \<times> int" where
  "debounce_after f delay now = debounce_at f (now + delay)"

definition debounced_cancel :: "'f debounced_closure \<times> int" where
  "debounced_cancel = (Db_cancel, when_immediately)"

definition debounce_in_dispatcher ::
  "bool \<Rightarrow> 'f \<Rightarrow> int \<Rightarrow> debounced_task \<Rightarrow> debounced_task \<times> ('f debounced_closure \<times> int) list" where
  "debounce_in_dispatcher accepted f when_time b =
     (let g = db_generation b + 1
      in if accepted then (b\<lparr>db_generation := g\<rparr>, [(Db_fire f g, when_time)])
         else (b\<lparr>db_generation := g + 1\<rparr>, []))"

definition run_debounced ::
  "bool \<Rightarrow> 'f debounced_closure \<Rightarrow> debounced_task \<Rightarrow>
   debounced_task \<times> ('f debounced_closure \<times> int) list \<times> 'f list" where
  "run_debounced accepted c b =
     (case c of
        Db_debounce f w \<Rightarrow> (let (b', cs) = debounce_in_dispatcher accepted f w b in (b', cs, []))
      | Db_cancel \<Rightarrow> (b\<lparr>db_generation := db_generation b + 1\<rparr>, [], [])
      | Db_fire f g \<Rightarrow> if db_generation b \<noteq> g then (b, [], []) else (b, [], [f]))"

text \<open>
  A run: closures are requested, and pending ones run in any order. The history has the processed requests
  and the calls.
\<close>

datatype 'f debounced_event = Debounced 'f | Cancelled | Called 'f

record 'f debounced_system =
  bs_task :: debounced_task
  bs_pending :: "'f debounced_closure list"
  bs_history :: "'f debounced_event list"
  bs_bumps :: nat
    \<comment> \<open>how often the generation was incremented\<close>

primrec history_of :: "'f debounced_closure \<Rightarrow> 'f list \<Rightarrow> 'f debounced_event list" where
  "history_of (Db_debounce f w) called = [Debounced f]"
| "history_of Db_cancel called = [Cancelled]"
| "history_of (Db_fire f g) called = map Called called"

inductive debounced_step :: "'f debounced_system \<Rightarrow> 'f debounced_system \<Rightarrow> bool" where
  bs_request: "c \<in> {fst debounced_cancel} \<union> {fst (debounce_after f delay now) |f delay now. True} \<Longrightarrow>
     debounced_step s (s\<lparr>bs_pending := bs_pending s @ [c]\<rparr>)"
| bs_run: "bs_pending s = p1 @ c # p2 \<Longrightarrow> run_debounced accepted c (bs_task s) = (b', cs, called) \<Longrightarrow>
     debounced_step s (s\<lparr>bs_task := b', bs_pending := p1 @ p2 @ map fst cs,
       bs_history := bs_history s @ history_of c called,
       bs_bumps := bs_bumps s + (case c of Db_fire f g \<Rightarrow> 0 | Db_cancel \<Rightarrow> 1 | Db_debounce f w \<Rightarrow> if accepted then 1 else 2)\<rparr>)"

definition debounced_start :: "'f debounced_system \<Rightarrow> bool" where
  "debounced_start s \<longleftrightarrow> s = \<lparr>bs_task = debounced_task_new, bs_pending = [], bs_history = [], bs_bumps = 0\<rparr>"

primrec fire_generations :: "'f debounced_closure list \<Rightarrow> u64 list" where
  "fire_generations [] = []"
| "fire_generations (c # cs) = (case c of Db_fire f g \<Rightarrow> [g] | _ \<Rightarrow> []) @ fire_generations cs"

lemma fire_generations_append [simp]: "fire_generations (xs @ ys) = fire_generations xs @ fire_generations ys"
  by (induction xs) simp_all

lemma fire_generations_mem: "Db_fire f g \<in> set cs \<Longrightarrow> g \<in> set (fire_generations cs)"
  by (induction cs) (auto split: debounced_closure.splits)

text \<open>Each call directly follows the request it was made for.\<close>

definition calls_follow :: "'f debounced_event list \<Rightarrow> bool" where
  "calls_follow h \<longleftrightarrow> (\<forall>xs f ys. h = xs @ Called f # ys \<longrightarrow> xs \<noteq> [] \<and> last xs = Debounced f)"

lemma calls_follow_snoc:
  "calls_follow (h @ [e]) \<longleftrightarrow> calls_follow h \<and> (\<forall>f. e = Called f \<longrightarrow> h \<noteq> [] \<and> last h = Debounced f)"
proof -
  have "h @ [e] = xs @ Called f # ys \<longleftrightarrow>
      (ys = [] \<and> xs = h \<and> e = Called f \<or> (\<exists>zs. ys = zs @ [e] \<and> h = xs @ Called f # zs))" for xs f ys
    by (cases ys rule: rev_cases) auto
  then show ?thesis unfolding calls_follow_def by (metis (no_types, lifting))
qed

definition debounced_inv :: "'f debounced_system \<Rightarrow> bool" where
  "debounced_inv s \<longleftrightarrow> (bs_bumps s < 2 ^ 64 \<longrightarrow>
     db_generation (bs_task s) = of_nat (bs_bumps s) \<and> distinct (fire_generations (bs_pending s)) \<and>
     (\<forall>g\<in>set (fire_generations (bs_pending s)). unat g \<le> bs_bumps s) \<and>
     (\<forall>f. Db_fire f (db_generation (bs_task s)) \<in> set (bs_pending s) \<longrightarrow> bs_history s \<noteq> [] \<and> last (bs_history s) = Debounced f) \<and>
     calls_follow (bs_history s))"

lemma fresh_generation:
  fixes gs :: "u64 list"
  assumes "\<forall>g\<in>set gs. unat g \<le> n" "n < m" "m < 2 ^ 64"
  shows "of_nat m \<notin> set gs"
proof
  assume "of_nat m \<in> set gs"
  with assms(1) have "unat (of_nat m :: u64) \<le> n" by blast
  moreover have "unat (of_nat m :: u64) = m" using assms(3) by (intro unat_of_nat_less) simp
  ultimately show False using assms(2) by simp
qed

lemma debounced_bump_inv:
  assumes inv: "debounced_inv s" and p: "bs_pending s = p1 @ c # p2" "fire_generations [c] = []"
    and n: "bs_bumps s < m" and e: "\<And>f. e \<noteq> Called f"
    and cs: "cs = [] \<or> (\<exists>f. cs = [Db_fire f (of_nat m)] \<and> e = Debounced f)"
  shows "debounced_inv (s\<lparr>bs_task := (bs_task s)\<lparr>db_generation := of_nat m\<rparr>, bs_pending := p1 @ p2 @ cs,
    bs_history := bs_history s @ [e], bs_bumps := m\<rparr>)"
proof (cases "m < 2 ^ 64")
  case True
  then have b: "bs_bumps s < 2 ^ 64" using n by simp
  let ?gs = "fire_generations (p1 @ p2)"
  have gs: "fire_generations (bs_pending s) = ?gs" using p by simp
  have le: "\<forall>g\<in>set ?gs. unat g \<le> bs_bumps s" and d: "distinct ?gs" and h: "calls_follow (bs_history s)"
    using inv b by (auto simp: debounced_inv_def gs)
  have fresh: "of_nat m \<notin> set ?gs" using fresh_generation[OF le n True] .
  have none: "Db_fire f (of_nat m) \<notin> set (p1 @ p2)" for f
    using fresh fire_generations_mem[of f "of_nat m" "p1 @ p2"] by auto
  have u: "unat (of_nat m :: u64) = m" using True by (intro unat_of_nat_less) simp
  show ?thesis using cs
  proof
    assume "cs = []"
    then show ?thesis using d le h n none e by (auto simp: debounced_inv_def calls_follow_snoc dest!: bspec)
  next
    assume "\<exists>f. cs = [Db_fire f (of_nat m)] \<and> e = Debounced f"
    then obtain f where f: "cs = [Db_fire f (of_nat m)]" "e = Debounced f" by blast
    have "distinct (?gs @ [of_nat m])" using d fresh by simp
    moreover have "\<forall>g\<in>set (?gs @ [of_nat m]). unat g \<le> m" using le n u by force
    ultimately show ?thesis using h none u by (auto simp: debounced_inv_def calls_follow_snoc f)
  qed
qed (simp add: debounced_inv_def)

lemma debounced_fire_inv:
  assumes inv: "debounced_inv s" and p: "bs_pending s = p1 @ Db_fire f g # p2"
  shows "debounced_inv (s\<lparr>bs_pending := p1 @ p2,
    bs_history := bs_history s @ (if db_generation (bs_task s) = g then [Called f] else [])\<rparr>)"
proof (cases "bs_bumps s < 2 ^ 64")
  case True
  have d: "distinct (fire_generations p1 @ g # fire_generations p2)"
    using inv True by (simp add: debounced_inv_def p)
  show ?thesis
  proof (cases "db_generation (bs_task s) = g")
    case True
    have "Db_fire f' g \<notin> set (p1 @ p2)" for f'
      using d fire_generations_mem[of f' g "p1 @ p2"] by auto
    with inv True p show ?thesis by (auto simp: debounced_inv_def calls_follow_snoc)
  next
    case False
    with inv p show ?thesis by (auto simp: debounced_inv_def)
  qed
qed (simp add: debounced_inv_def)

lemma debounced_inv_step: "debounced_step s t \<Longrightarrow> debounced_inv s \<Longrightarrow> debounced_inv t"
proof (induction rule: debounced_step.induct)
  case (bs_request c s)
  then have "fire_generations [c] = []"
    by (auto simp: debounced_cancel_def debounce_after_def debounce_at_def)
  moreover have "Db_fire f g \<noteq> c" for f g using calculation by auto
  ultimately show ?case using bs_request(2) by (auto simp: debounced_inv_def)
next
  case (bs_run s p1 c p2 accepted b' cs called)
  show ?case
  proof (cases "bs_bumps s < 2 ^ 64")
    case False
    then show ?thesis by (simp add: debounced_inv_def)
  next
    case True
    with bs_run.prems have g: "db_generation (bs_task s) = of_nat (bs_bumps s)" by (simp add: debounced_inv_def)
    show ?thesis
    proof (cases c)
      case (Db_fire f g)
      with bs_run debounced_fire_inv[of s p1 f g p2] show ?thesis
        by (cases "db_generation (bs_task s) = g") (auto simp: run_debounced_def)
    next
      case Db_cancel
      then show ?thesis
        using bs_run(2) debounced_bump_inv[OF bs_run.prems bs_run(1), of "bs_bumps s + 1" Cancelled "[]"]
        by (auto simp: run_debounced_def g add.commute)
    next
      case (Db_debounce f w)
      then show ?thesis
        using bs_run(2) debounced_bump_inv[OF bs_run.prems bs_run(1), of "bs_bumps s + 1" "Debounced f" "[Db_fire f (of_nat (bs_bumps s + 1))]"]
          debounced_bump_inv[OF bs_run.prems bs_run(1), of "bs_bumps s + 2" "Debounced f" "[]"]
        by (cases accepted) (auto simp: run_debounced_def debounce_in_dispatcher_def Let_def g add.commute)
    qed
  qed
qed

lemma debounced_inv_start: "debounced_start s \<Longrightarrow> debounced_inv s"
  by (simp add: debounced_start_def debounced_inv_def debounced_task_new_def calls_follow_def)

interpretation debounced: step_invariant debounced_step debounced_start debounced_inv
  by unfold_locales (fact debounced_inv_start debounced_inv_step)+

text \<open>
  C30. Only the latest function of a debounced task runs, and at most once: in every run each call directly
  follows the processing of the request it was made for, so no later request and no cancellation was
  processed in between and the function was not called before. The generation is told apart for the first 2^64 increments.
\<close>

theorem debounced_latest_only:
  assumes "debounced_start s" and "rtranclp debounced_step s t" and "bs_bumps t < 2 ^ 64"
    and "bs_history t = xs @ Called f # ys"
  shows "xs \<noteq> [] \<and> last xs = Debounced f"
  using debounced.reachable[OF assms(1,2)] assms(3,4) by (auto simp: debounced_inv_def calls_follow_def)

text \<open>Two functions are debounced; the first one is stale when its time comes, the second one is called.\<close>

definition debounced_example :: "nat debounced_system" where
  "debounced_example = \<lparr>bs_task = \<lparr>db_generation = 2\<rparr>, bs_pending = [],
     bs_history = [Debounced 1, Debounced 2, Called 2], bs_bumps = 2\<rparr>"

lemma debounced_example_reachable:
  "\<exists>s. debounced_start s \<and> rtranclp debounced_step s debounced_example"
proof -
  let ?s = "\<lambda>g p h n. \<lparr>bs_task = \<lparr>db_generation = g\<rparr>, bs_pending = p, bs_history = h, bs_bumps = n\<rparr> :: nat debounced_system"
  have q: "debounced_step (?s g p h n) (?s g (p @ [Db_debounce f 5]) h n)" for g p h n f
  proof -
    have "Db_debounce f 5 = fst (debounce_after f 5 0)" by (simp add: debounce_after_def debounce_at_def)
    then show ?thesis using bs_request[of "Db_debounce f 5" "?s g p h n"] by auto
  qed
  have r: "debounced_step (?s g (Db_debounce f 5 # p) h n) (?s (g + 1) (p @ [Db_fire f (g + 1)]) (h @ [Debounced f]) (n + 1))"
    for g p h n f
    using bs_run[of "?s g (Db_debounce f 5 # p) h n" "[]" "Db_debounce f 5" p True]
    by (simp add: run_debounced_def debounce_in_dispatcher_def Let_def)
  have stale: "debounced_step (?s g (Db_fire f k # p) h n) (?s g p h n)" if "k \<noteq> g" for g k p h n f
    using bs_run[of "?s g (Db_fire f k # p) h n" "[]" "Db_fire f k" p True] that by (simp add: run_debounced_def)
  have fire: "debounced_step (?s g (Db_fire f g # p) h n) (?s g p (h @ [Called f]) n)" for g p h n f
    using bs_run[of "?s g (Db_fire f g # p) h n" "[]" "Db_fire f g" p True] by (simp add: run_debounced_def)
  have "rtranclp debounced_step (?s 0 [] [] 0) debounced_example"
    using q[of 0 "[]" "[]" 0 1] q[of 0 "[Db_debounce 1 5]" "[]" 0 2] r[of 0 1 "[Db_debounce 2 5]" "[]" 0]
      r[of 1 2 "[Db_fire 1 1]" "[Debounced 1]" 1] stale[of 1 2 1 "[Db_fire 2 2]" "[Debounced 1, Debounced 2]" 2]
      fire[of 2 2 "[]" "[Debounced 1, Debounced 2]" 2]
    by (simp add: debounced_example_def numeral_2_eq_2)
  then show ?thesis by (intro exI conjI) (auto simp: debounced_start_def debounced_task_new_def)
qed

theorem debounced_latest_only_witness:
  "last [Debounced 1, Debounced (2 :: nat)] = Debounced 2"
proof -
  obtain s where "debounced_start s" "rtranclp debounced_step s debounced_example"
    using debounced_example_reachable by blast
  from debounced_latest_only[OF this, of "[Debounced 1, Debounced 2]" 2 "[]"] show ?thesis
    by (simp add: debounced_example_def)
qed

section \<open>Timers\<close>

text \<open>
  The closures of a timer and what running one does. \<open>ok1\<close> and \<open>ok2\<close> are the answers of the dispatcher to
  the enqueues of one closure, in order; \<open>now\<close> is the time.
\<close>

record 'f timer =
  ti_current_function_id :: u32
  ti_function :: "'f option"
  ti_interval :: int
  ti_enabled :: bool

datatype 'f timer_closure = Tc_start 'f int | Tc_stop | Tc_set_interval int | Tc_tick u32 | Tc_call 'f

definition timer_new :: "'f timer" where
  "timer_new = \<lparr>ti_current_function_id = 0, ti_function = None, ti_interval = 0, ti_enabled = False\<rparr>"

text \<open>The calls of other threads: the timer afterwards and the closure they enqueue.\<close>

definition timer_start :: "bool \<Rightarrow> 'f \<Rightarrow> int \<Rightarrow> 'f timer \<Rightarrow> 'f timer \<times> 'f timer_closure list" where
  "timer_start ok f interval t = (t\<lparr>ti_enabled := ok\<rparr>, if ok then [Tc_start f interval] else [])"

definition timer_stop :: "bool \<Rightarrow> 'f timer \<Rightarrow> 'f timer \<times> 'f timer_closure list" where
  "timer_stop ok t = (t\<lparr>ti_enabled := False\<rparr>, if ok then [Tc_stop] else [])"

definition timer_set_interval :: "bool \<Rightarrow> int \<Rightarrow> 'f timer \<Rightarrow> 'f timer \<times> 'f timer_closure list" where
  "timer_set_interval ok interval t =
     (if interval = 0 then timer_stop ok t
      else if ok then (t, [Tc_set_interval interval]) else (t\<lparr>ti_enabled := False\<rparr>, []))"

definition timer_enqueue :: "bool \<Rightarrow> int \<Rightarrow> u32 \<Rightarrow> 'f timer \<Rightarrow> 'f timer \<times> ('f timer_closure \<times> int) list" where
  "timer_enqueue ok now function_id t =
     (if ok then (t, [(Tc_tick function_id, now + ti_interval t)]) else (t\<lparr>ti_enabled := False\<rparr>, []))"

definition timer_call_function ::
  "bool \<Rightarrow> bool \<Rightarrow> int \<Rightarrow> u32 \<Rightarrow> 'f timer \<Rightarrow> 'f timer \<times> ('f timer_closure \<times> int) list" where
  "timer_call_function ok1 ok2 now function_id t =
     (if ti_current_function_id t \<noteq> function_id then (t, [])
      else
        (case ti_function t of
           None \<Rightarrow> timer_enqueue ok2 now function_id t
         | Some f \<Rightarrow>
             if \<not> ok1 then (t\<lparr>ti_enabled := False\<rparr>, [])
             else (let (t', cs) = timer_enqueue ok2 now function_id t
                   in (t', (Tc_call f, when_immediately) # cs))))"

definition run_timer ::
  "bool \<Rightarrow> bool \<Rightarrow> int \<Rightarrow> 'f timer_closure \<Rightarrow> 'f timer \<Rightarrow> 'f timer \<times> ('f timer_closure \<times> int) list" where
  "run_timer ok1 ok2 now c t =
     (case c of
        Tc_start f interval \<Rightarrow>
          (let t1 = t\<lparr>ti_current_function_id := ti_current_function_id t + 1, ti_function := Some f, ti_interval := interval\<rparr>
           in timer_call_function ok1 ok2 now (ti_current_function_id t1) t1)
      | Tc_stop \<Rightarrow>
          (t\<lparr>ti_current_function_id := ti_current_function_id t + 1, ti_function := None, ti_interval := 0\<rparr>, [])
      | Tc_set_interval interval \<Rightarrow>
          (if ti_interval t = interval then (t, [])
           else
             (let t1 = t\<lparr>ti_current_function_id := ti_current_function_id t + 1, ti_interval := interval\<rparr>
              in timer_enqueue ok2 now (ti_current_function_id t1) t1))
      | Tc_tick function_id \<Rightarrow> timer_call_function ok1 ok2 now function_id t
      | Tc_call f \<Rightarrow> (t, []))"

text \<open>
  A run of a timer: other threads call it, pending closures run in any order. The history has the processed
  starts and stops and the enqueued calls of the function.
\<close>

datatype 'f timer_event = Ev_started 'f | Ev_stopped | Ev_called 'f

record 'f timer_system =
  ts_timer :: "'f timer"
  ts_pending :: "'f timer_closure list"
  ts_history :: "'f timer_event list"
  ts_bumps :: nat
    \<comment> \<open>how often the function id was incremented\<close>
  ts_refused :: bool
    \<comment> \<open>whether the dispatcher refused a closure\<close>

primrec timer_calls :: "'f timer_closure list \<Rightarrow> 'f timer_event list" where
  "timer_calls [] = []"
| "timer_calls (c # cs) = (case c of Tc_call f \<Rightarrow> [Ev_called f] | _ \<Rightarrow> []) @ timer_calls cs"

definition timer_events :: "'f timer_closure \<Rightarrow> 'f timer_closure list \<Rightarrow> 'f timer_event list" where
  "timer_events c cs = (case c of Tc_start f i \<Rightarrow> [Ev_started f] | Tc_stop \<Rightarrow> [Ev_stopped] | _ \<Rightarrow> []) @ timer_calls cs"

inductive timer_step :: "'f timer_system \<Rightarrow> 'f timer_system \<Rightarrow> bool" where
  ts_request: "(t', cs) \<in> {timer_start ok f i (ts_timer s), timer_stop ok (ts_timer s), timer_set_interval ok i (ts_timer s)} \<Longrightarrow>
     timer_step s (s\<lparr>ts_timer := t', ts_pending := ts_pending s @ cs, ts_refused := ts_refused s \<or> \<not> ok\<rparr>)"
| ts_run: "ts_pending s = p1 @ c # p2 \<Longrightarrow> run_timer ok1 ok2 now c (ts_timer s) = (t', cs) \<Longrightarrow>
     timer_step s (s\<lparr>ts_timer := t', ts_pending := p1 @ p2 @ map fst cs,
       ts_history := ts_history s @ timer_events c (map fst cs),
       ts_bumps := ts_bumps s + (case c of Tc_start f i \<Rightarrow> 1 | Tc_stop \<Rightarrow> 1
         | Tc_set_interval i \<Rightarrow> if ti_interval (ts_timer s) = i then 0 else 1 | _ \<Rightarrow> 0),
       ts_refused := ts_refused s \<or> \<not> ok1 \<or> \<not> ok2\<rparr>)"

definition timer_initial :: "'f timer_system \<Rightarrow> bool" where
  "timer_initial s \<longleftrightarrow> s = \<lparr>ts_timer = timer_new, ts_pending = [], ts_history = [], ts_bumps = 0, ts_refused = False\<rparr>"

text \<open>The function a history leaves set.\<close>

definition function_after :: "'f timer_event list \<Rightarrow> 'f option" where
  "function_after h = fold (\<lambda>e cur. case e of Ev_started f \<Rightarrow> Some f | Ev_stopped \<Rightarrow> None | Ev_called f \<Rightarrow> cur) h None"

definition calls_current :: "'f timer_event list \<Rightarrow> bool" where
  "calls_current h \<longleftrightarrow> (\<forall>xs f ys. h = xs @ Ev_called f # ys \<longrightarrow> function_after xs = Some f)"

primrec ticks :: "'f timer_closure list \<Rightarrow> u32 list" where
  "ticks [] = []"
| "ticks (c # cs) = (case c of Tc_tick i \<Rightarrow> [i] | _ \<Rightarrow> []) @ ticks cs"

definition timer_inv :: "'f timer_system \<Rightarrow> bool" where
  "timer_inv s \<longleftrightarrow> calls_current (ts_history s) \<and> function_after (ts_history s) = ti_function (ts_timer s) \<and>
     (ts_bumps s < 2 ^ 31 \<longrightarrow>
        ti_current_function_id (ts_timer s) = of_nat (ts_bumps s) \<and>
        (\<forall>i\<in>set (ticks (ts_pending s)). unat i \<le> ts_bumps s) \<and>
        (ti_function (ts_timer s) \<noteq> None \<and> \<not> ts_refused s \<longrightarrow>
           count_list (ticks (ts_pending s)) (ti_current_function_id (ts_timer s)) = 1))"

lemma ticks_append [simp]: "ticks (xs @ ys) = ticks xs @ ticks ys"
  by (induction xs) simp_all

lemma timer_calls_append [simp]: "timer_calls (xs @ ys) = timer_calls xs @ timer_calls ys"
  by (induction xs) simp_all

lemma function_after_snoc [simp]:
  "function_after [] = None"
  "function_after (h @ [e]) = (case e of Ev_started f \<Rightarrow> Some f | Ev_stopped \<Rightarrow> None | Ev_called f \<Rightarrow> function_after h)"
  by (simp_all add: function_after_def split: timer_event.split)

lemma calls_current_snoc:
  "calls_current (h @ [e]) \<longleftrightarrow> calls_current h \<and> (\<forall>f. e = Ev_called f \<longrightarrow> function_after h = Some f)"
proof -
  have "h @ [e] = xs @ Ev_called f # ys \<longleftrightarrow>
      (ys = [] \<and> xs = h \<and> e = Ev_called f \<or> (\<exists>zs. ys = zs @ [e] \<and> h = xs @ Ev_called f # zs))" for xs f ys
    by (cases ys rule: rev_cases) auto
  then show ?thesis unfolding calls_current_def by (metis (no_types, lifting))
qed

lemma start_call:
  "function_after (h @ [Ev_started f, Ev_called g]) = Some f"
  "calls_current (h @ [Ev_started f, Ev_called g]) \<longleftrightarrow> calls_current h \<and> f = g"
  using function_after_snoc(2)[of "h @ [Ev_started f]" "Ev_called g"]
    calls_current_snoc[of "h @ [Ev_started f]" "Ev_called g"]
  by (auto simp: calls_current_snoc)

lemma count_list_append [simp]: "count_list (xs @ ys) x = count_list xs x + count_list ys x"
  by (induction xs) simp_all

lemma tick_fresh:
  fixes gs :: "u32 list"
  assumes "\<forall>g\<in>set gs. unat g \<le> n" "Suc n < 2 ^ 31"
  shows "count_list gs (of_nat (Suc n)) = 0"
proof -
  have u: "unat (of_nat (Suc n) :: u32) = Suc n" using assms(2) by (intro unat_of_nat_less) simp
  then have "of_nat (Suc n) \<notin> set gs" using assms(1) by (metis Suc_n_not_le_n)
  then show ?thesis by (simp add: count_notin)
qed

lemma timer_inv_request:
  assumes "timer_inv s" "(t', cs) \<in> {timer_start ok f i (ts_timer s), timer_stop ok (ts_timer s), timer_set_interval ok i (ts_timer s)}"
  shows "timer_inv (s\<lparr>ts_timer := t', ts_pending := ts_pending s @ cs, ts_refused := ts_refused s \<or> \<not> ok\<rparr>)"
proof -
  have "ticks cs = []" "\<exists>b. t' = (ts_timer s)\<lparr>ti_enabled := b\<rparr>"
    using assms(2)
    by (auto simp: timer_start_def timer_stop_def timer_set_interval_def split: if_splits
        intro: exI[of _ "ti_enabled (ts_timer s)"])
  then show ?thesis using assms(1) by (auto simp: timer_inv_def)
qed

lemma timer_inv_run:
  assumes inv: "timer_inv s" and p: "ts_pending s = p1 @ c # p2" and r: "run_timer ok1 ok2 now c (ts_timer s) = (t', cs)"
    and s': "s' = s\<lparr>ts_timer := t', ts_pending := p1 @ p2 @ map fst cs,
       ts_history := ts_history s @ timer_events c (map fst cs),
       ts_bumps := ts_bumps s + (case c of Tc_start f i \<Rightarrow> 1 | Tc_stop \<Rightarrow> 1
         | Tc_set_interval i \<Rightarrow> if ti_interval (ts_timer s) = i then 0 else 1 | _ \<Rightarrow> 0),
       ts_refused := ts_refused s \<or> \<not> ok1 \<or> \<not> ok2\<rparr>"
  shows "timer_inv s'"
proof -
  let ?n = "ts_bumps s"
  have h: "calls_current (ts_history s)" "function_after (ts_history s) = ti_function (ts_timer s)"
    using inv by (simp_all add: timer_inv_def)
  have hist: "calls_current (ts_history s') \<and> function_after (ts_history s') = ti_function (ts_timer s')"
    using h r
    by (cases c; cases ok1; cases ok2)
      (auto simp: s' run_timer_def timer_call_function_def timer_enqueue_def timer_events_def Let_def
        calls_current_snoc start_call split: option.splits if_splits)
  have cnt: "ti_current_function_id t' = of_nat (ts_bumps s') \<and> (\<forall>i\<in>set (ticks (ts_pending s')). unat i \<le> ts_bumps s') \<and>
        (ti_function t' \<noteq> None \<and> \<not> ts_refused s' \<longrightarrow>
           count_list (ticks (ts_pending s')) (ti_current_function_id t') = 1)" if b: "ts_bumps s' < 2 ^ 31"
  proof -
    have n: "?n < 2 ^ 31" using b by (simp add: s')
    have le: "\<forall>i\<in>set (ticks (p1 @ c # p2)). unat i \<le> ?n" and id: "ti_current_function_id (ts_timer s) = of_nat ?n"
      using inv n p by (simp_all add: timer_inv_def)
    have fresh: "Suc ?n < 2 ^ 31 \<Longrightarrow> count_list (ticks p1) (1 + of_nat ?n) = 0 \<and> count_list (ticks p2) (1 + of_nat ?n) = 0 \<and>
        unat (1 + of_nat ?n :: u32) = Suc ?n"
      using tick_fresh[of "ticks p1" ?n] tick_fresh[of "ticks p2" ?n] le
        unat_of_nat_less[where 'a = 32, of "Suc ?n"] by simp
    have u: "unat (of_nat ?n :: u32) = ?n" using unat_of_nat_less[where 'a = 32, of ?n] n by simp
    have one: "ti_function (ts_timer s) \<noteq> None \<Longrightarrow> \<not> ts_refused s \<Longrightarrow>
        count_list (ticks (p1 @ c # p2)) (of_nat ?n) = 1" using inv n p id by (simp add: timer_inv_def)
    show ?thesis
      using r b le fresh one u
      by (cases c; cases ok1; cases ok2)
        (auto simp: s' id run_timer_def timer_call_function_def timer_enqueue_def Let_def add.commute le_SucI
          split: option.splits if_splits)
  qed
  have "ts_timer s' = t'" by (simp add: s')
  with hist cnt show ?thesis unfolding timer_inv_def by metis
qed

lemma timer_inv_step: "timer_step s t \<Longrightarrow> timer_inv s \<Longrightarrow> timer_inv t"
proof (induction rule: timer_step.induct)
  case (ts_request t' cs ok f i s)
  then show ?case by (intro timer_inv_request)
next
  case (ts_run s p1 c p2 ok1 ok2 now t' cs)
  then show ?case by (intro timer_inv_run[OF ts_run(3,1,2) refl])
qed

lemma timer_inv_initial: "timer_initial s \<Longrightarrow> timer_inv s"
  by (simp add: timer_initial_def timer_inv_def timer_new_def calls_current_def)

interpretation timers: step_invariant timer_step timer_initial timer_inv
  by unfold_locales (fact timer_inv_initial timer_inv_step)+

text \<open>
  A timer calls its current function and does not stop by itself: in every run, each call is of the function
  that the latest processed start has set, with no stop processed since; and while a function is set and the
  dispatcher has refused nothing, exactly one pending tick continues the timer. The function id is told apart for the first
  2^31 increments, the range of an \<^verbatim>\<open>int\<close>.
\<close>

theorem timer_calls_current:
  assumes "timer_initial s" and "rtranclp timer_step s t"
  shows "(ts_history t = xs @ Ev_called f # ys \<longrightarrow> function_after xs = Some f) \<and>
    (ts_bumps t < 2 ^ 31 \<and> \<not> ts_refused t \<and> ti_function (ts_timer t) \<noteq> None \<longrightarrow>
       count_list (ticks (ts_pending t)) (ti_current_function_id (ts_timer t)) = 1)"
  using timers.reachable[OF assms] by (auto simp: timer_inv_def calls_current_def)

text \<open>A timer is started; its closure runs, calls the function and leaves the next tick.\<close>

definition timer_example :: "nat timer_system" where
  "timer_example =
     \<lparr>ts_timer = \<lparr>ti_current_function_id = 1, ti_function = Some 7, ti_interval = 100, ti_enabled = True\<rparr>,
      ts_pending = [Tc_call 7, Tc_tick 1], ts_history = [Ev_started 7, Ev_called 7], ts_bumps = 1, ts_refused = False\<rparr>"

lemma timer_example_reachable: "\<exists>s. timer_initial s \<and> rtranclp timer_step s timer_example"
proof -
  let ?s0 = "\<lparr>ts_timer = timer_new, ts_pending = [], ts_history = [], ts_bumps = 0, ts_refused = False\<rparr> :: nat timer_system"
  let ?s1 = "?s0\<lparr>ts_timer := timer_new\<lparr>ti_enabled := True\<rparr>, ts_pending := [Tc_start 7 100]\<rparr>"
  have 1: "timer_step ?s0 ?s1"
    using ts_request[of "timer_new\<lparr>ti_enabled := True\<rparr>" "[Tc_start 7 100]" True 7 100 ?s0] by (simp add: timer_start_def)
  have 2: "timer_step ?s1 timer_example"
    using ts_run[of ?s1 "[]" "Tc_start 7 100" "[]" True True 0]
    by (simp add: run_timer_def timer_call_function_def timer_enqueue_def timer_new_def timer_example_def timer_events_def Let_def)
  have "rtranclp timer_step ?s0 timer_example" using 1 2 by (rule converse_rtranclp_into_rtranclp[OF _ r_into_rtranclp])
  then show ?thesis by (intro exI[of _ ?s0]) (simp add: timer_initial_def)
qed

theorem timer_calls_current_witness:
  "function_after [Ev_started (7 :: nat)] = Some 7 \<and>
   count_list (ticks (ts_pending timer_example)) (ti_current_function_id (ts_timer timer_example)) = 1"
proof -
  obtain s where s: "timer_initial s" "rtranclp timer_step s timer_example"
    using timer_example_reachable by blast
  from timer_calls_current[OF s, of "[Ev_started 7]" 7 "[]"] show ?thesis by (simp add: timer_example_def)
qed

section \<open>The shared dispatcher\<close>

record 'f shared_dispatcher =
  sd_time_source :: bool
  sd_dispatcher :: "'f dispatcher option"

definition shared_dispatcher_new :: "'f shared_dispatcher" where
  "shared_dispatcher_new = \<lparr>sd_time_source = False, sd_dispatcher = None\<rparr>"

definition initialize_shared_dispatcher :: "u64 \<Rightarrow> 'f shared_dispatcher \<Rightarrow> 'f shared_dispatcher" where
  "initialize_shared_dispatcher own s =
     (let s1 = (if \<not> sd_time_source s then s\<lparr>sd_time_source := True\<rparr> else s)
      in case sd_dispatcher s1 of None \<Rightarrow> s1\<lparr>sd_dispatcher := Some (dispatcher_new own)\<rparr> | Some d \<Rightarrow> s1)"

text \<open>\<open>None\<close> is the abort of a dispatcher that is terminated on its own thread.\<close>

definition terminate_shared_dispatcher :: "bool \<Rightarrow> 'f shared_dispatcher \<Rightarrow> 'f shared_dispatcher option" where
  "terminate_shared_dispatcher dispatcher_thread s =
     (case sd_dispatcher s of
        None \<Rightarrow> Some (s\<lparr>sd_time_source := False\<rparr>)
      | Some d \<Rightarrow>
          (case dispatcher_terminate dispatcher_thread d of
             None \<Rightarrow> None
           | Some d' \<Rightarrow> Some (s\<lparr>sd_dispatcher := None, sd_time_source := False\<rparr>)))"

definition get_shared_dispatcher :: "'f shared_dispatcher \<Rightarrow> 'f dispatcher option" where
  "get_shared_dispatcher s = sd_dispatcher s"

end
