(* ===== verification/Retry_Protocol.thy ===== *)
theory Retry_Protocol
  imports Dispatcher_Client
begin

text \<open>
  The discipline by which both ends of the stream keep trying, as an abstract machine: the client its
  connection, the server its acceptor. A service has a slot that is free, live (an attempt is under way or has
  succeeded) or dropped (the result of an attempt was thrown away because the service was stopped). Closures of the
  io thread stop, try or drop and try again; closures of the dispatcher schedule a retry through a debounced
  task. \<^verbatim>\<open>Stream_Client\<close> and \<^verbatim>\<open>Stream_Server\<close> refine this machine.
\<close>

section \<open>The machine\<close>

datatype slot = Free | Live | Dropped

datatype retry_io = R_stop | R_go | R_again

datatype retry_task = R_reschedule | R_debounced "unit debounced_closure"

record retry_state =
  rt_stopped :: bool
  rt_slot :: slot
  rt_io :: "retry_io list"
  rt_tasks :: "retry_task list"
  rt_delayed :: "u64 list"
    \<comment> \<open>the generations of the scheduled retries\<close>
  rt_generation :: u64

inductive retry_step :: "retry_state \<Rightarrow> retry_state \<Rightarrow> bool" where
  rt_start: "retry_step s (s\<lparr>rt_stopped := False, rt_io := rt_io s @ [R_go]\<rparr>)"
| rt_stop: "retry_step s (s\<lparr>rt_stopped := True, rt_io := rt_io s @ [R_stop],
     rt_tasks := rt_tasks s @ [R_debounced Db_cancel]\<rparr>)"
| rt_invalidate: "retry_step s (s\<lparr>rt_io := rt_io s @ [R_again], rt_tasks := rt_tasks s @ [R_debounced Db_cancel]\<rparr>)"
| rt_run_stop: "rt_io s = R_stop # cs \<Longrightarrow> retry_step s (s\<lparr>rt_slot := Free, rt_io := cs\<rparr>)"
| rt_run_again: "rt_io s = R_again # cs \<Longrightarrow>
     retry_step s (s\<lparr>rt_slot := Free, rt_io := cs, rt_tasks := rt_tasks s @ [R_reschedule]\<rparr>)"
| rt_go_blocked: "rt_io s = R_go # cs \<Longrightarrow> rt_stopped s \<or> rt_slot s \<noteq> Free \<Longrightarrow> retry_step s (s\<lparr>rt_io := cs\<rparr>)"
| rt_go: "rt_io s = R_go # cs \<Longrightarrow> \<not> rt_stopped s \<Longrightarrow> rt_slot s = Free \<Longrightarrow> retry_step s (s\<lparr>rt_slot := Live, rt_io := cs\<rparr>)"
| rt_go_failed: "rt_io s = R_go # cs \<Longrightarrow> \<not> rt_stopped s \<Longrightarrow> rt_slot s = Free \<Longrightarrow>
     retry_step s (s\<lparr>rt_io := cs, rt_tasks := rt_tasks s @ [R_reschedule]\<rparr>)"
| rt_failed: "retry_step s (s\<lparr>rt_slot := Free, rt_tasks := rt_tasks s @ [R_reschedule]\<rparr>)"
| rt_given_up: "rt_stopped s \<Longrightarrow> rt_slot s = Live \<Longrightarrow> sl \<in> {Free, Dropped} \<Longrightarrow> retry_step s (s\<lparr>rt_slot := sl\<rparr>)"
| rt_revived: "rt_slot s = Dropped \<Longrightarrow> retry_step s (s\<lparr>rt_slot := Live\<rparr>)"
| rt_reschedule: "rt_tasks s = R_reschedule # cs \<Longrightarrow>
     retry_step s (s\<lparr>rt_tasks := cs @ (if rt_stopped s then [] else [R_debounced (Db_debounce () w)])\<rparr>)"
| rt_debounced: "rt_tasks s = R_debounced c # cs \<Longrightarrow>
     run_debounced True c \<lparr>db_generation = rt_generation s\<rparr> = (b, ds, called) \<Longrightarrow>
     retry_step s (s\<lparr>rt_tasks := cs, rt_generation := db_generation b,
       rt_delayed := rt_delayed s @ fire_generations (map fst ds),
       rt_io := rt_io s @ (if called \<noteq> [] \<and> \<not> rt_stopped s then [R_go] else [])\<rparr>)"
| rt_fire: "rt_delayed s = d1 @ g # d2 \<Longrightarrow>
     retry_step s (s\<lparr>rt_delayed := d1 @ d2,
       rt_io := rt_io s @ (if g = rt_generation s \<and> \<not> rt_stopped s then [R_go] else [])\<rparr>)"

definition retry_initial :: "retry_state \<Rightarrow> bool" where
  "retry_initial s \<longleftrightarrow> rt_stopped s \<and> rt_slot s = Free \<and> rt_io s = [] \<and> rt_tasks s = [] \<and> rt_delayed s = []"

section \<open>A started service keeps trying\<close>

primrec queued_debounces :: "retry_task list \<Rightarrow> unit debounced_closure list" where
  "queued_debounces [] = []"
| "queued_debounces (t # ts) = (case t of R_debounced c \<Rightarrow> [c] | _ \<Rightarrow> []) @ queued_debounces ts"

text \<open>
  A retry is scheduled and not cancelled: the last queued closure of the debounced task is a request, or
  none is queued and the current retry waits for its time.
\<close>

definition retry_scheduled :: "retry_state \<Rightarrow> bool" where
  "retry_scheduled s \<longleftrightarrow>
     (if queued_debounces (rt_tasks s) = [] then rt_generation s \<in> set (rt_delayed s)
      else \<exists>w. last (queued_debounces (rt_tasks s)) = Db_debounce () w)"

definition keeps_trying :: "retry_state \<Rightarrow> bool" where
  "keeps_trying s \<longleftrightarrow> rt_slot s = Live \<or> R_go \<in> set (rt_io s) \<or> R_again \<in> set (rt_io s) \<or>
     R_reschedule \<in> set (rt_tasks s) \<or> retry_scheduled s"

definition retry_inv :: "retry_state \<Rightarrow> bool" where
  "retry_inv s \<longleftrightarrow>
     (rt_stopped s \<longrightarrow> R_stop \<in> set (rt_io s) \<or> rt_slot s = Free) \<and>
     (rt_slot s = Dropped \<longrightarrow> R_stop \<in> set (rt_io s)) \<and>
     (\<not> rt_stopped s \<and> R_stop \<in> set (rt_io s) \<longrightarrow> R_go \<in> set (after_last R_stop (rt_io s))) \<and>
     (\<not> rt_stopped s \<longrightarrow> keeps_trying s)"

lemma queued_debounces_append [simp]: "queued_debounces (xs @ ys) = queued_debounces xs @ queued_debounces ys"
  by (induction xs) simp_all

lemma retry_scheduled_io [simp]: "retry_scheduled (s\<lparr>rt_io := io\<rparr>) = retry_scheduled s"
  by (simp add: retry_scheduled_def)

lemma retry_scheduled_debounced:
  assumes "rt_tasks s = R_debounced c # cs" "run_debounced True c \<lparr>db_generation = rt_generation s\<rparr> = (b, ds, called)"
    "retry_scheduled s"
  shows "retry_scheduled (s\<lparr>rt_tasks := cs, rt_generation := db_generation b,
    rt_delayed := rt_delayed s @ fire_generations (map fst ds)\<rparr>)"
  using assms
  by (cases "queued_debounces cs = []")
    (auto simp: retry_scheduled_def run_debounced_def debounce_in_dispatcher_def Let_def)

lemma retry_inv_step: "retry_step s t \<Longrightarrow> retry_inv s \<Longrightarrow> retry_inv t"
proof (induction rule: retry_step.induct)
  case (rt_run_stop s cs)
  then show ?case
    using after_last_subset[of R_stop cs]
    by (cases "R_stop \<in> set cs") (auto simp: retry_inv_def keeps_trying_def after_last_Cons after_last_hit)
next
  case (rt_go_blocked s cs)
  then show ?case
    using after_last_subset[of R_stop cs]
    by (cases "R_stop \<in> set cs"; cases "rt_slot s")
      (auto simp: retry_inv_def keeps_trying_def after_last_Cons)
next
  case (rt_debounced s c cs b ds called)
  let ?t = "s\<lparr>rt_tasks := cs, rt_generation := db_generation b,
    rt_delayed := rt_delayed s @ fire_generations (map fst ds)\<rparr>"
  have "keeps_trying s \<Longrightarrow> keeps_trying (?t\<lparr>rt_io := rt_io s @ io\<rparr>)" for io
    using retry_scheduled_debounced[OF rt_debounced(1,2)] rt_debounced(1) by (auto simp: keeps_trying_def)
  then have "keeps_trying s \<Longrightarrow> keeps_trying (s\<lparr>rt_tasks := cs, rt_generation := db_generation b,
      rt_delayed := rt_delayed s @ fire_generations (map fst ds),
      rt_io := rt_io s @ (if called \<noteq> [] \<and> \<not> rt_stopped s then [R_go] else [])\<rparr>)" .
  then show ?case using rt_debounced by (auto simp: retry_inv_def after_last_append)
next
  case (rt_fire s d1 g d2)
  have "retry_scheduled s \<Longrightarrow> g \<noteq> rt_generation s \<Longrightarrow>
      retry_scheduled (s\<lparr>rt_delayed := d1 @ d2\<rparr>)"
    using rt_fire(1) by (auto simp: retry_scheduled_def)
  then show ?case using rt_fire by (auto simp: retry_inv_def keeps_trying_def retry_scheduled_def after_last_append)
qed (auto simp: retry_inv_def keeps_trying_def retry_scheduled_def after_last_append after_last_Cons split: if_splits)

lemma retry_inv_initial: "retry_initial s \<Longrightarrow> retry_inv s"
  by (simp add: retry_initial_def retry_inv_def)

interpretation retrying: step_invariant retry_step retry_initial retry_inv
  by unfold_locales (fact retry_inv_initial retry_inv_step)+

end
