(* ===== verification/Stream_Client.thy ===== *)
theory Stream_Client
  imports Request_Manager Retry_Protocol
begin

text \<open>
  The client end of the stream, \<^verbatim>\<open>pqrs/unix_domain_stream/client.hpp\<close>: connecting, reconnecting and requests around
  the peer of \<^verbatim>\<open>Stream_Protocol\<close>. It runs closures on two threads: the dispatcher's (\<open>cl_task\<close>) and the one of the io
  context (\<open>cl_io\<close>); each runs its closures in the order they were enqueued. Sockets are numbered, and a peer
  has the number of its socket.
\<close>

section \<open>State and closures\<close>

record stream_client =
  cl_options :: peer_options
  cl_reconnect_interval :: int
  cl_stopped :: bool
  cl_reconnect_task :: debounced_task
  cl_requests :: request_manager
  cl_connecting_socket :: "nat option"
  cl_peer :: "nat option"
  cl_next :: nat
    \<comment> \<open>the number of the next socket\<close>

definition stream_client_new :: "peer_options \<Rightarrow> int \<Rightarrow> stream_client" where
  "stream_client_new opts reconnect_interval =
     \<lparr>cl_options = opts, cl_reconnect_interval = reconnect_interval, cl_stopped = True,
      cl_reconnect_task = debounced_task_new, cl_requests = request_manager_new, cl_connecting_socket = None,
      cl_peer = None, cl_next = 0\<rparr>"

definition default_reconnect_interval :: int where
  "default_reconnect_interval = 1000"

text \<open>Closures of the io context.\<close>

datatype cl_io =
    Io_stop
  | Io_connect
  | Io_invalidate
  | Io_send bytes
  | Io_respond u64 bytes
  | Io_request bytes int nat
    \<comment> \<open>data, timeout and callback\<close>
  | Io_connected nat peer_credentials bool
  | Io_received nat bytes
  | Io_request_received nat u64 bytes
  | Io_response_received nat u64 bytes
  | Io_error nat asio_error
  | Io_closed nat
  | Io_announce nat peer_credentials

text \<open>Closures of the dispatcher.\<close>

datatype cl_task =
    Cl_start
  | Cl_stop
  | Cl_invalidate
  | Cl_connect_failed asio_error
  | Cl_verify nat peer_credentials
  | Cl_verification_failed peer_credentials
  | Cl_received bytes
  | Cl_request_received u64 bytes
  | Cl_error asio_error
  | Cl_closed
  | Cl_connected peer_credentials
  | Cl_schedule_reconnect
  | Cl_callback callback_call
  | Cl_debounced "unit debounced_closure"

datatype cl_signal =
    St_connected peer_credentials
  | St_peer_verification_failed peer_credentials
  | St_connect_failed asio_error
  | St_closed
  | St_error_occurred asio_error
  | St_received bytes
  | St_request_received u64 bytes
  | St_callback callback_call

text \<open>
  What a closure starts: closures posted to the io context, enqueued on the dispatcher at once or for
  later, operations on sockets and peers, the timer of a request, and signals.
\<close>

datatype cl_effect =
    Post cl_io
  | Enqueue cl_task
  | Enqueue_at cl_task int
  | Connect_socket nat
  | Close_connecting nat
  | Peer_create nat
  | Peer_start nat
  | Peer_close nat
  | Peer_send nat bytes
  | Start_request_timer u64 int
  | Emit_signal cl_signal

section \<open>Operations of the io thread\<close>

definition close_connecting_socket :: "stream_client \<Rightarrow> stream_client \<times> cl_effect list" where
  "close_connecting_socket s =
     (case cl_connecting_socket s of
        None \<Rightarrow> (s, [])
      | Some k \<Rightarrow> (s\<lparr>cl_connecting_socket := None\<rparr>, [Close_connecting k]))"

definition close_peer :: "asio_error \<Rightarrow> stream_client \<Rightarrow> bool \<times> stream_client \<times> cl_effect list" where
  "close_peer err s =
     (case cl_peer s of
        None \<Rightarrow> (False, s, [])
      | Some p \<Rightarrow>
          (let (rm, calls) = rm_complete_all err (cl_requests s)
           in (True, s\<lparr>cl_requests := rm, cl_peer := None\<rparr>,
               map (\<lambda>c. Enqueue (Cl_callback c)) calls @ [Peer_close p])))"

definition send_request :: "bytes \<Rightarrow> int \<Rightarrow> nat \<Rightarrow> stream_client \<Rightarrow> stream_client \<times> cl_effect list" where
  "send_request data timeout callback s =
     (case cl_peer s of
        None \<Rightarrow> (s, [Enqueue (Cl_callback (Callback callback (Some Not_connected) None))])
      | Some p \<Rightarrow>
          (let (i, rm) = rm_add None callback (cl_requests s)
           in (s\<lparr>cl_requests := rm\<rparr>, [Start_request_timer i timeout, Peer_send p (make_request_frame i data)])))"

text \<open>The timer of a request expires: the request is completed, and the connection is given up if the options say so.\<close>

definition request_timeout :: "u64 \<Rightarrow> stream_client \<Rightarrow> stream_client \<times> cl_effect list" where
  "request_timeout i s =
     (let (rm, calls, timeout_callback) = rm_on_timeout i (Some 0) (cl_requests s);
          s1 = s\<lparr>cl_requests := rm\<rparr>;
          f1 = map (\<lambda>c. Enqueue (Cl_callback c)) calls
      in if timeout_callback \<noteq> None \<and> po_invalidate_connection_on_request_error (cl_options s1) then
           (let (was_connected, s2, f2) = close_peer Connection_reset s1
            in (s2, f1 @ f2 @ (if was_connected then [Enqueue Cl_closed] else [])))
         else (s1, f1))"

text \<open>\<^verbatim>\<open>connect\<close> in the io context, and the completion of \<^verbatim>\<open>async_connect\<close>; \<open>accepted\<close> is the answer of \<^verbatim>\<open>enqueue_to_dispatcher\<close>.\<close>

definition io_connect :: "stream_client \<Rightarrow> stream_client \<times> cl_effect list" where
  "io_connect s =
     (if cl_stopped s \<or> cl_connecting_socket s \<noteq> None \<or> cl_peer s \<noteq> None then (s, [])
      else (s\<lparr>cl_connecting_socket := Some (cl_next s), cl_next := cl_next s + 1\<rparr>, [Connect_socket (cl_next s)]))"

definition connect_completed ::
  "bool \<Rightarrow> nat \<Rightarrow> asio_error option \<Rightarrow> peer_credentials \<Rightarrow> stream_client \<Rightarrow> stream_client \<times> cl_effect list" where
  "connect_completed accepted socket err credentials s =
     (if cl_stopped s \<or> cl_connecting_socket s \<noteq> Some socket then (s, [Close_connecting socket])
      else
        (case err of
           Some e \<Rightarrow> (s\<lparr>cl_connecting_socket := None\<rparr>, [Enqueue (Cl_connect_failed e)])
         | None \<Rightarrow>
             if accepted then (s, [Enqueue (Cl_verify socket credentials)])
             else (s\<lparr>cl_connecting_socket := None\<rparr>, [Close_connecting socket])))"

definition handle_connected_socket ::
  "nat \<Rightarrow> peer_credentials \<Rightarrow> bool \<Rightarrow> stream_client \<Rightarrow> stream_client \<times> cl_effect list" where
  "handle_connected_socket socket credentials verified s =
     (if cl_connecting_socket s \<noteq> Some socket then (s, [Close_connecting socket])
      else
        (let s1 = s\<lparr>cl_connecting_socket := None\<rparr>
         in if cl_stopped s1 then (s1, [Close_connecting socket])
            else if \<not> verified then (s1, [Close_connecting socket, Enqueue (Cl_verification_failed credentials)])
            else (s1\<lparr>cl_peer := Some socket\<rparr>,
                  [Peer_create socket, Peer_start socket, Post (Io_announce socket credentials)])))"

definition run_cl_io :: "cl_io \<Rightarrow> stream_client \<Rightarrow> stream_client \<times> cl_effect list" where
  "run_cl_io c s =
     (case c of
        Io_stop \<Rightarrow> and_then (close_connecting_socket s) (\<lambda>s. snd (close_peer Operation_aborted s))
      | Io_connect \<Rightarrow> io_connect s
      | Io_invalidate \<Rightarrow>
          and_then (and_then (close_connecting_socket s) (\<lambda>s. snd (close_peer Operation_aborted s)))
            (\<lambda>s. (s, [Enqueue Cl_schedule_reconnect]))
      | Io_send data \<Rightarrow>
          (s, case cl_peer s of None \<Rightarrow> [] | Some p \<Rightarrow> [Peer_send p (make_user_data_frame data)])
      | Io_respond i data \<Rightarrow>
          (s, case cl_peer s of None \<Rightarrow> [] | Some p \<Rightarrow> [Peer_send p (make_response_frame i data)])
      | Io_request data timeout callback \<Rightarrow> send_request data timeout callback s
      | Io_connected socket credentials verified \<Rightarrow> handle_connected_socket socket credentials verified s
      | Io_received p buffer \<Rightarrow> (s, if cl_peer s \<noteq> Some p then [] else [Enqueue (Cl_received buffer)])
      | Io_request_received p i buffer \<Rightarrow>
          (s, if cl_peer s \<noteq> Some p then [] else [Enqueue (Cl_request_received i buffer)])
      | Io_response_received p i buffer \<Rightarrow>
          (if cl_peer s = Some p
           then (let (rm, calls) = rm_complete i None (Some buffer) (cl_requests s)
                 in (s\<lparr>cl_requests := rm\<rparr>, map (\<lambda>c. Enqueue (Cl_callback c)) calls))
           else (s, []))
      | Io_error p err \<Rightarrow>
          (if cl_peer s \<noteq> Some p then (s, [])
           else (let (rm, calls) = rm_complete_all err (cl_requests s)
                 in (s\<lparr>cl_requests := rm\<rparr>, map (\<lambda>c. Enqueue (Cl_callback c)) calls @ [Enqueue (Cl_error err)])))
      | Io_closed p \<Rightarrow>
          (if cl_peer s \<noteq> Some p then (s, [])
           else (let (rm, calls) = rm_complete_all Connection_reset (cl_requests s)
                 in (s\<lparr>cl_requests := rm, cl_peer := None\<rparr>,
                     map (\<lambda>c. Enqueue (Cl_callback c)) calls @ [Enqueue Cl_closed])))
      | Io_announce p credentials \<Rightarrow>
          (s, if cl_peer s = Some p then [Enqueue (Cl_connected credentials)] else []))"

section \<open>Operations of the dispatcher thread\<close>

definition cl_stop :: "stream_client \<Rightarrow> stream_client \<times> cl_effect list" where
  "cl_stop s = (s\<lparr>cl_stopped := True\<rparr>, [Enqueue (Cl_debounced Db_cancel), Post Io_stop])"

definition invalidate_connection :: "stream_client \<Rightarrow> stream_client \<times> cl_effect list" where
  "invalidate_connection s = (s, [Enqueue (Cl_debounced Db_cancel), Post Io_invalidate])"

definition schedule_reconnect :: "int \<Rightarrow> stream_client \<Rightarrow> stream_client \<times> cl_effect list" where
  "schedule_reconnect now s =
     (s, if cl_stopped s then []
         else [Enqueue (Cl_debounced (fst (debounce_after () (normalize_scheduling_interval (cl_reconnect_interval s)) now)))])"

text \<open>The function of the debounced task connects unless the client was stopped.\<close>

definition run_reconnect_task ::
  "bool \<Rightarrow> unit debounced_closure \<Rightarrow> stream_client \<Rightarrow> stream_client \<times> cl_effect list" where
  "run_reconnect_task accepted c s =
     (let (b, cs, called) = run_debounced accepted c (cl_reconnect_task s)
      in (s\<lparr>cl_reconnect_task := b\<rparr>,
          map (\<lambda>(c, w). Enqueue_at (Cl_debounced c) w) cs @
          (if called \<noteq> [] \<and> \<not> cl_stopped s then [Post Io_connect] else [])))"

definition run_cl_task ::
  "(peer_credentials \<Rightarrow> bool) \<Rightarrow> int \<Rightarrow> bool \<Rightarrow> cl_task \<Rightarrow> stream_client \<Rightarrow> stream_client \<times> cl_effect list" where
  "run_cl_task verify_peer now accepted task s =
     (case task of
        Cl_start \<Rightarrow> (s\<lparr>cl_stopped := False\<rparr>, [Post Io_connect])
      | Cl_stop \<Rightarrow> cl_stop s
      | Cl_invalidate \<Rightarrow> invalidate_connection s
      | Cl_connect_failed err \<Rightarrow> and_then (s, [Emit_signal (St_connect_failed err)]) (schedule_reconnect now)
      | Cl_verify socket credentials \<Rightarrow> (s, [Post (Io_connected socket credentials (verify_peer credentials))])
      | Cl_verification_failed credentials \<Rightarrow>
          and_then (s, [Emit_signal (St_peer_verification_failed credentials)]) (schedule_reconnect now)
      | Cl_received buffer \<Rightarrow> (s, [Emit_signal (St_received buffer)])
      | Cl_request_received i buffer \<Rightarrow> (s, [Emit_signal (St_request_received i buffer)])
      | Cl_error err \<Rightarrow> (s, [Emit_signal (St_error_occurred err)])
      | Cl_closed \<Rightarrow> and_then (s, [Emit_signal St_closed]) (schedule_reconnect now)
      | Cl_connected credentials \<Rightarrow> (s, [Emit_signal (St_connected credentials)])
      | Cl_schedule_reconnect \<Rightarrow> schedule_reconnect now s
      | Cl_callback c \<Rightarrow> (s, [Emit_signal (St_callback c)])
      | Cl_debounced c \<Rightarrow> run_reconnect_task accepted c s)"

text \<open>The closure that the destructor posts after it has detached the client and run \<open>cl_stop\<close>.\<close>

definition cl_destroy_io :: "stream_client \<Rightarrow> stream_client \<times> cl_effect list" where
  "cl_destroy_io s = (case cl_peer s of None \<Rightarrow> (s, []) | Some p \<Rightarrow> (s\<lparr>cl_peer := None\<rparr>, [Peer_close p]))"

section \<open>Runs\<close>

text \<open>
  The state of a run: the client, the closures of the two threads in their order, the closures the dispatcher
  runs later, the sockets that are connecting, the callbacks given with requests and the effects so far.
  The client is attached to a running dispatcher, so its enqueues are accepted.
\<close>

record cl_system =
  ys_client :: stream_client
  ys_io :: "cl_io list"
  ys_tasks :: "cl_task list"
  ys_delayed :: "cl_task list"
  ys_connects :: "nat list"
  ys_requested :: "nat list"
  ys_trace :: "cl_effect list"

primrec posts :: "cl_effect list \<Rightarrow> cl_io list" where
  "posts [] = []"
| "posts (f # fs) = (case f of Post c \<Rightarrow> [c] | _ \<Rightarrow> []) @ posts fs"

primrec enqueues :: "cl_effect list \<Rightarrow> cl_task list" where
  "enqueues [] = []"
| "enqueues (f # fs) = (case f of Enqueue c \<Rightarrow> [c] | _ \<Rightarrow> []) @ enqueues fs"

primrec delays :: "cl_effect list \<Rightarrow> cl_task list" where
  "delays [] = []"
| "delays (f # fs) = (case f of Enqueue_at c w \<Rightarrow> [c] | _ \<Rightarrow> []) @ delays fs"

primrec connects :: "cl_effect list \<Rightarrow> nat list" where
  "connects [] = []"
| "connects (f # fs) = (case f of Connect_socket k \<Rightarrow> [k] | _ \<Rightarrow> []) @ connects fs"

definition cl_apply :: "stream_client \<times> cl_effect list \<Rightarrow> cl_system \<Rightarrow> cl_system" where
  "cl_apply r y =
     y\<lparr>ys_client := fst r, ys_io := ys_io y @ posts (snd r), ys_tasks := ys_tasks y @ enqueues (snd r),
       ys_delayed := ys_delayed y @ delays (snd r), ys_connects := ys_connects y @ connects (snd r),
       ys_trace := ys_trace y @ snd r\<rparr>"

text \<open>
  The steps: calls of the application (which enqueue and post), signals of the peers there are (which post),
  the next closure of either thread, a closure whose time has come, the end of a connection attempt,
  and the expiry of a request timer.
\<close>

definition peer_posts :: "nat \<Rightarrow> cl_io set" where
  "peer_posts p = range (Io_received p) \<union> {Io_request_received p i b |i b. True} \<union>
     {Io_response_received p i b |i b. True} \<union> range (Io_error p) \<union> {Io_closed p}"

definition call_posts :: "cl_io set" where
  "call_posts = {Io_send b |b. True} \<union> {Io_respond i b |i b. True} \<union> {Io_request b w c |b w c. True}"

inductive cl_step :: "(peer_credentials \<Rightarrow> bool) \<Rightarrow> cl_system \<Rightarrow> cl_system \<Rightarrow> bool" for verify where
  cl_call: "task \<in> {Cl_start, Cl_stop, Cl_invalidate} \<Longrightarrow> cl_step verify y (y\<lparr>ys_tasks := ys_tasks y @ [task]\<rparr>)"
| cl_post: "c \<in> call_posts \<union> (\<Union>p\<in>{p. Peer_create p \<in> set (ys_trace y)}. peer_posts p) \<Longrightarrow> cl_step verify y (y\<lparr>ys_io := ys_io y @ [c]\<rparr>)"
| cl_io: "ys_io y = c # cs \<Longrightarrow>
    cl_step verify y (cl_apply (run_cl_io c (ys_client y))
      (y\<lparr>ys_io := cs, ys_requested := ys_requested y @ (case c of Io_request b w cb \<Rightarrow> [cb] | _ \<Rightarrow> [])\<rparr>))"
| cl_task: "ys_tasks y = c # cs \<Longrightarrow>
    cl_step verify y (cl_apply (run_cl_task verify now True c (ys_client y)) (y\<lparr>ys_tasks := cs\<rparr>))"
| cl_delayed: "ys_delayed y = d1 @ c # d2 \<Longrightarrow>
    cl_step verify y (cl_apply (run_cl_task verify now True c (ys_client y)) (y\<lparr>ys_delayed := d1 @ d2\<rparr>))"
| cl_completed: "ys_connects y = k1 @ k # k2 \<Longrightarrow>
    cl_step verify y (cl_apply (connect_completed True k err cred (ys_client y)) (y\<lparr>ys_connects := k1 @ k2\<rparr>))"
| cl_timeout: "cl_step verify y (cl_apply (request_timeout i (ys_client y)) y)"

definition cl_initial :: "cl_system \<Rightarrow> bool" where
  "cl_initial y \<longleftrightarrow> (\<exists>opts interval. y = \<lparr>ys_client = stream_client_new opts interval, ys_io = [], ys_tasks = [],
     ys_delayed = [], ys_connects = [], ys_requested = [], ys_trace = []\<rparr>)"

lemma effect_append [simp]:
  "posts (xs @ ys) = posts xs @ posts ys" "enqueues (xs @ ys) = enqueues xs @ enqueues ys"
  "delays (xs @ ys) = delays xs @ delays ys" "connects (xs @ ys) = connects xs @ connects ys"
  by (induction xs) simp_all

lemma effect_callbacks [simp]:
  "posts (map (\<lambda>c. Enqueue (Cl_callback c)) cs) = []" "delays (map (\<lambda>c. Enqueue (Cl_callback c)) cs) = []"
  "connects (map (\<lambda>c. Enqueue (Cl_callback c)) cs) = []"
  "enqueues (map (\<lambda>c. Enqueue (Cl_callback c)) cs) = map Cl_callback cs"
  by (induction cs) simp_all

lemma effect_delays [simp]:
  "posts (map (\<lambda>(c, w). Enqueue_at (Cl_debounced c) w) cs) = []"
  "enqueues (map (\<lambda>(c, w). Enqueue_at (Cl_debounced c) w) cs) = []"
  "connects (map (\<lambda>(c, w). Enqueue_at (Cl_debounced c) w) cs) = []"
  "delays (map (\<lambda>(c, w). Enqueue_at (Cl_debounced c) w) cs) = map (\<lambda>(c, w). Cl_debounced c) cs"
  by (induction cs) auto

section \<open>The client keeps trying\<close>

text \<open>A connection attempt for a socket is on its way.\<close>

definition attempt_pending :: "nat \<Rightarrow> cl_system \<Rightarrow> bool" where
  "attempt_pending k y \<longleftrightarrow> k \<in> set (ys_connects y) \<or> (\<exists>cred. Cl_verify k cred \<in> set (ys_tasks y)) \<or>
     (\<exists>cred v. Io_connected k cred v \<in> set (ys_io y))"

text \<open>A queued closure of the dispatcher will schedule a reconnect.\<close>

primrec reschedules :: "cl_task \<Rightarrow> bool" where
  "reschedules Cl_start = False"
| "reschedules Cl_stop = False"
| "reschedules Cl_invalidate = False"
| "reschedules (Cl_connect_failed e) = True"
| "reschedules (Cl_verify k c) = False"
| "reschedules (Cl_verification_failed c) = True"
| "reschedules (Cl_received b) = False"
| "reschedules (Cl_request_received i b) = False"
| "reschedules (Cl_error e) = False"
| "reschedules Cl_closed = True"
| "reschedules (Cl_connected c) = False"
| "reschedules Cl_schedule_reconnect = True"
| "reschedules (Cl_callback c) = False"
| "reschedules (Cl_debounced c) = False"

primrec debounces :: "cl_task list \<Rightarrow> unit debounced_closure list" where
  "debounces [] = []"
| "debounces (t # ts) = (case t of Cl_debounced c \<Rightarrow> [c] | _ \<Rightarrow> []) @ debounces ts"

text \<open>
  A reconnect is scheduled and not cancelled: the last closure of the debounced task in the queue is a
  request, or none is queued and the time of the current one has not come.
\<close>

definition reconnect_pending :: "cl_system \<Rightarrow> bool" where
  "reconnect_pending y \<longleftrightarrow>
     (if debounces (ys_tasks y) = []
      then Cl_debounced (Db_fire () (db_generation (cl_reconnect_task (ys_client y)))) \<in> set (ys_delayed y)
      else \<exists>w. last (debounces (ys_tasks y)) = Db_debounce () w)"

definition cl_active :: "cl_system \<Rightarrow> bool" where
  "cl_active y \<longleftrightarrow> cl_peer (ys_client y) \<noteq> None \<or>
     (\<exists>k. cl_connecting_socket (ys_client y) = Some k \<and> attempt_pending k y) \<or>
     Io_connect \<in> set (ys_io y) \<or> Io_invalidate \<in> set (ys_io y) \<or>
     (\<exists>t\<in>set (ys_tasks y). reschedules t) \<or> reconnect_pending y"

lemma debounces_append [simp]: "debounces (xs @ ys) = debounces xs @ debounces ys"
  by (induction xs) simp_all

subsection \<open>The client as a retry machine\<close>

primrec connect_ios :: "cl_io list \<Rightarrow> retry_io list" where
  "connect_ios [] = []"
| "connect_ios (c # cs) =
     (case c of Io_stop \<Rightarrow> [R_stop] | Io_connect \<Rightarrow> [R_go] | Io_invalidate \<Rightarrow> [R_again] | _ \<Rightarrow> []) @ connect_ios cs"

primrec connect_tasks :: "cl_task list \<Rightarrow> retry_task list" where
  "connect_tasks [] = []"
| "connect_tasks (t # ts) =
     (if reschedules t then [R_reschedule] else case t of Cl_debounced c \<Rightarrow> [R_debounced c] | _ \<Rightarrow> []) @ connect_tasks ts"

definition connection_slot :: "cl_system \<Rightarrow> slot" where
  "connection_slot y =
     (if cl_peer (ys_client y) \<noteq> None then Live
      else case cl_connecting_socket (ys_client y) of
             None \<Rightarrow> Free | Some k \<Rightarrow> if attempt_pending k y then Live else Dropped)"

definition cl_retry :: "cl_system \<Rightarrow> retry_state" where
  "cl_retry y =
     \<lparr>rt_stopped = cl_stopped (ys_client y), rt_slot = connection_slot y, rt_io = connect_ios (ys_io y),
      rt_tasks = connect_tasks (ys_tasks y), rt_delayed = fire_generations (debounces (ys_delayed y)),
      rt_generation = db_generation (cl_reconnect_task (ys_client y))\<rparr>"

text \<open>A connected client is not connecting, and what waits for its time are retries.\<close>

definition cl_shape :: "cl_system \<Rightarrow> bool" where
  "cl_shape y \<longleftrightarrow> (cl_peer (ys_client y) \<noteq> None \<longrightarrow> cl_connecting_socket (ys_client y) = None) \<and>
     (\<forall>d\<in>set (ys_delayed y). \<exists>g. d = Cl_debounced (Db_fire () g))"

lemma connect_ios_append [simp]: "connect_ios (xs @ ys) = connect_ios xs @ connect_ios ys"
  by (induction xs) simp_all

lemma connect_tasks_append [simp]: "connect_tasks (xs @ ys) = connect_tasks xs @ connect_tasks ys"
  by (induction xs) simp_all

lemma connect_tasks_callbacks [simp]: "connect_tasks (map Cl_callback cs) = []"
  by (induction cs) simp_all

lemma debounces_delays [simp]: "debounces (map (\<lambda>(c, w). Cl_debounced c) cs) = map fst cs"
  by (induction cs) auto

lemma attempt_pending_callbacks [simp]:
  "Cl_verify k cred \<notin> Cl_callback ` C" "Io_connected k cred v \<notin> peer_posts p" "Io_connected k cred v \<notin> call_posts"
  by (auto simp: peer_posts_def call_posts_def)

text \<open>
  An operation that leaves the connection, the attempts on their way and the retries alone, and one that
  loses the connection and schedules a retry.
\<close>

definition cl_quiet :: "stream_client \<Rightarrow> stream_client \<times> cl_effect list \<Rightarrow> bool" where
  "cl_quiet s r \<longleftrightarrow> cl_stopped (fst r) = cl_stopped s \<and> cl_peer (fst r) = cl_peer s \<and>
     cl_connecting_socket (fst r) = cl_connecting_socket s \<and> cl_reconnect_task (fst r) = cl_reconnect_task s \<and>
     posts (snd r) = [] \<and> connect_tasks (enqueues (snd r)) = [] \<and> (\<forall>k cred. Cl_verify k cred \<notin> set (enqueues (snd r))) \<and>
     delays (snd r) = [] \<and> connects (snd r) = []"

definition cl_failing :: "stream_client \<Rightarrow> stream_client \<times> cl_effect list \<Rightarrow> bool" where
  "cl_failing s r \<longleftrightarrow> cl_stopped (fst r) = cl_stopped s \<and> cl_peer (fst r) = None \<and> cl_connecting_socket (fst r) = None \<and>
     cl_reconnect_task (fst r) = cl_reconnect_task s \<and> posts (snd r) = [] \<and>
     connect_tasks (enqueues (snd r)) = [R_reschedule] \<and> delays (snd r) = []"

definition same_attempts :: "cl_system \<Rightarrow> cl_system \<Rightarrow> bool" where
  "same_attempts x y \<longleftrightarrow> ys_client x = ys_client y \<and> connect_ios (ys_io x) = connect_ios (ys_io y) \<and>
     connect_tasks (ys_tasks x) = connect_tasks (ys_tasks y) \<and> ys_delayed x = ys_delayed y \<and>
     (\<forall>k. cl_connecting_socket (ys_client y) = Some k \<longrightarrow> attempt_pending k x = attempt_pending k y)"

lemma cl_retry_quiet:
  assumes "cl_quiet (ys_client y) r" "same_attempts x y"
  shows "cl_retry (cl_apply r x) = cl_retry y"
proof -
  have "attempt_pending k (cl_apply r x) = attempt_pending k x" for k
    using assms(1) by (auto simp: attempt_pending_def cl_apply_def cl_quiet_def)
  then have "connection_slot (cl_apply r x) = connection_slot y"
    using assms by (auto simp: connection_slot_def cl_quiet_def same_attempts_def cl_apply_def split: option.splits)
  then show ?thesis using assms by (simp add: cl_retry_def cl_quiet_def same_attempts_def cl_apply_def)
qed

lemma cl_retry_failing:
  assumes "cl_failing (ys_client y) r" "ys_client x = ys_client y" "connect_ios (ys_io x) = connect_ios (ys_io y)"
    "connect_tasks (ys_tasks x) = connect_tasks (ys_tasks y)" "ys_delayed x = ys_delayed y"
  shows "retry_step (cl_retry y) (cl_retry (cl_apply r x))"
  using assms rt_failed[of "cl_retry y"] by (simp add: cl_failing_def cl_retry_def cl_apply_def connection_slot_def)

lemma cl_retry_cases:
  assumes "cl_quiet (ys_client y) r \<or> cl_failing (ys_client y) r" "same_attempts x y"
  shows "cl_retry (cl_apply r x) = cl_retry y \<or> retry_step (cl_retry y) (cl_retry (cl_apply r x))"
  using assms(1)
proof
  assume "cl_failing (ys_client y) r"
  then have "retry_step (cl_retry y) (cl_retry (cl_apply r x))"
    using assms(2) by (intro cl_retry_failing) (simp_all add: same_attempts_def)
  then show ?thesis ..
qed (use assms(2) cl_retry_quiet in blast)

lemma client_io_cases:
  assumes "c \<noteq> Io_stop" "c \<noteq> Io_connect" "c \<noteq> Io_invalidate" "\<And>k cred v. c \<noteq> Io_connected k cred v"
    and "cl_peer s \<noteq> None \<longrightarrow> cl_connecting_socket s = None"
  shows "cl_quiet s (run_cl_io c s) \<or> cl_failing s (run_cl_io c s)"
  using assms by (cases c) (auto simp: cl_quiet_def cl_failing_def run_cl_io_def send_request_def split: option.splits prod.splits)

lemma client_timeout_cases:
  "(cl_peer s \<noteq> None \<longrightarrow> cl_connecting_socket s = None) \<Longrightarrow> cl_quiet s (request_timeout i s) \<or> cl_failing s (request_timeout i s)"
  by (auto simp: cl_quiet_def cl_failing_def request_timeout_def close_peer_def rm_on_timeout_def Let_def
      split: if_splits option.splits prod.splits)

lemma client_run_stop:
  assumes "ys_io y = Io_stop # cs"
  shows "retry_step (cl_retry y) (cl_retry (cl_apply (run_cl_io Io_stop (ys_client y)) (y\<lparr>ys_io := cs, ys_requested := q\<rparr>)))"
  using assms rt_run_stop[of "cl_retry y" "connect_ios cs"]
  by (auto simp: cl_retry_def cl_apply_def connection_slot_def run_cl_io_def and_then_def close_connecting_socket_def
      close_peer_def split: option.splits prod.splits)

lemma client_run_invalidate:
  assumes "ys_io y = Io_invalidate # cs"
  shows "retry_step (cl_retry y) (cl_retry (cl_apply (run_cl_io Io_invalidate (ys_client y)) (y\<lparr>ys_io := cs, ys_requested := q\<rparr>)))"
  using assms rt_run_again[of "cl_retry y" "connect_ios cs"]
  by (auto simp: cl_retry_def cl_apply_def connection_slot_def run_cl_io_def and_then_def close_connecting_socket_def
      close_peer_def split: option.splits prod.splits)

lemma client_run_connect:
  assumes "ys_io y = Io_connect # cs"
  shows "retry_step (cl_retry y) (cl_retry (cl_apply (run_cl_io Io_connect (ys_client y)) (y\<lparr>ys_io := cs, ys_requested := q\<rparr>)))"
proof (cases "cl_stopped (ys_client y) \<or> cl_connecting_socket (ys_client y) \<noteq> None \<or> cl_peer (ys_client y) \<noteq> None")
  case True
  have "connection_slot (cl_apply (ys_client y, []) (y\<lparr>ys_io := cs, ys_requested := q\<rparr>)) = connection_slot y"
    using assms by (auto simp: connection_slot_def cl_apply_def attempt_pending_def split: option.splits)
  moreover have "cl_stopped (ys_client y) \<or> connection_slot y \<noteq> Free"
    using True by (auto simp: connection_slot_def split: option.splits)
  ultimately show ?thesis
    using True assms rt_go_blocked[of "cl_retry y" "connect_ios cs"]
    by (auto simp: cl_retry_def run_cl_io_def io_connect_def cl_apply_def)
next
  case False
  then show ?thesis
    using assms rt_go[of "cl_retry y" "connect_ios cs"]
    by (simp add: cl_retry_def run_cl_io_def io_connect_def cl_apply_def connection_slot_def attempt_pending_def)
qed

lemma client_run_connected:
  assumes q: "ys_io y = Io_connected k cred v # cs" and shape: "cl_shape y"
  shows "cl_retry (cl_apply (run_cl_io (Io_connected k cred v) (ys_client y)) (y\<lparr>ys_io := cs, ys_requested := q\<rparr>)) = cl_retry y \<or>
    retry_step (cl_retry y) (cl_retry (cl_apply (run_cl_io (Io_connected k cred v) (ys_client y)) (y\<lparr>ys_io := cs, ys_requested := q\<rparr>)))"
proof (cases "cl_connecting_socket (ys_client y) = Some k")
  case False
  then have "cl_quiet (ys_client y) (run_cl_io (Io_connected k cred v) (ys_client y))"
    by (simp add: run_cl_io_def handle_connected_socket_def cl_quiet_def)
  moreover have "same_attempts (y\<lparr>ys_io := cs, ys_requested := q\<rparr>) y"
    using False assms(1) by (auto simp: same_attempts_def attempt_pending_def)
  ultimately show ?thesis using cl_retry_quiet by blast
next
  case True
  then have live: "connection_slot y = Live" using assms(1) by (auto simp: connection_slot_def attempt_pending_def)
  have no_peer: "cl_peer (ys_client y) = None" using True shape by (auto simp: cl_shape_def)
  show ?thesis
    using True live no_peer assms(1) rt_given_up[of "cl_retry y" Free] rt_failed[of "cl_retry y"]
    by (auto simp: cl_retry_def run_cl_io_def handle_connected_socket_def cl_apply_def Let_def)
      (simp_all add: connection_slot_def)
qed

lemma retry_client_io_step:
  assumes q: "ys_io y = c # cs" and shape: "cl_shape y"
  shows "cl_retry (cl_apply (run_cl_io c (ys_client y)) (y\<lparr>ys_io := cs, ys_requested := q\<rparr>)) = cl_retry y \<or>
    retry_step (cl_retry y) (cl_retry (cl_apply (run_cl_io c (ys_client y)) (y\<lparr>ys_io := cs, ys_requested := q\<rparr>)))"
proof (cases "c = Io_stop \<or> c = Io_connect \<or> c = Io_invalidate \<or> (\<exists>k cred v. c = Io_connected k cred v)")
  case True
  then show ?thesis
    using assms client_run_stop client_run_connect client_run_invalidate client_run_connected by metis
next
  case False
  let ?x = "y\<lparr>ys_io := cs, ys_requested := q\<rparr>"
  have "cl_quiet (ys_client y) (run_cl_io c (ys_client y)) \<or> cl_failing (ys_client y) (run_cl_io c (ys_client y))"
    using False shape by (intro client_io_cases) (auto simp: cl_shape_def)
  moreover have "connect_ios cs = connect_ios (ys_io y)" using False assms(1) by (auto split: cl_io.splits)
  then have "same_attempts ?x y" using False assms(1) by (auto simp: same_attempts_def attempt_pending_def)
  ultimately show ?thesis by (rule cl_retry_cases)
qed

lemma retry_completed_step:
  assumes q: "ys_connects y = k1 @ k # k2" and shape: "cl_shape y"
  shows "cl_retry (cl_apply (connect_completed True k err cred (ys_client y)) (y\<lparr>ys_connects := k1 @ k2\<rparr>)) = cl_retry y \<or>
    retry_step (cl_retry y) (cl_retry (cl_apply (connect_completed True k err cred (ys_client y)) (y\<lparr>ys_connects := k1 @ k2\<rparr>)))"
proof (cases "cl_connecting_socket (ys_client y) = Some k")
  case False
  then have "cl_quiet (ys_client y) (connect_completed True k err cred (ys_client y))"
    by (simp add: connect_completed_def cl_quiet_def)
  moreover have "same_attempts (y\<lparr>ys_connects := k1 @ k2\<rparr>) y"
    using False assms(1) by (auto simp: same_attempts_def attempt_pending_def)
  ultimately show ?thesis using cl_retry_quiet by blast
next
  case True
  then have no_peer: "cl_peer (ys_client y) = None" and live: "connection_slot y = Live"
    using shape q by (auto simp: cl_shape_def connection_slot_def attempt_pending_def)
  show ?thesis
  proof (cases "cl_stopped (ys_client y)")
    case stopped: True
    let ?z = "cl_apply (ys_client y, [Close_connecting k]) (y\<lparr>ys_connects := k1 @ k2\<rparr>)"
    have "connection_slot ?z = Live \<or> connection_slot ?z = Dropped"
      using True no_peer by (simp add: connection_slot_def cl_apply_def)
    then show ?thesis
      using True live stopped rt_given_up[of "cl_retry y" Dropped]
      by (auto simp: cl_retry_def connect_completed_def cl_apply_def)
  next
    case False
    then show ?thesis
      using True no_peer live rt_failed[of "cl_retry y"]
      by (cases err) (auto simp: cl_retry_def connect_completed_def cl_apply_def connection_slot_def attempt_pending_def)
  qed
qed

lemma retry_client_debounced:
  assumes "ys_tasks y = Cl_debounced d # cs"
  shows "retry_step (cl_retry y) (cl_retry (cl_apply (run_cl_task verify now True (Cl_debounced d) (ys_client y)) (y\<lparr>ys_tasks := cs\<rparr>)))"
proof -
  obtain b ds called where r: "run_debounced True d (cl_reconnect_task (ys_client y)) = (b, ds, called)" by (metis prod_cases3)
  then have r': "run_debounced True d \<lparr>db_generation = db_generation (cl_reconnect_task (ys_client y))\<rparr> = (b, ds, called)"
    by (cases "cl_reconnect_task (ys_client y)") simp
  have "connection_slot (cl_apply (run_cl_task verify now True (Cl_debounced d) (ys_client y)) (y\<lparr>ys_tasks := cs\<rparr>)) = connection_slot y"
    using assms r by (auto simp: connection_slot_def attempt_pending_def cl_apply_def run_cl_task_def run_reconnect_task_def split: option.splits)
  then show ?thesis
    using assms rt_debounced[of "cl_retry y" d "connect_tasks cs" b ds called] r r'
    by (cases "cl_stopped (ys_client y)"; cases "called = []")
      (simp_all add: cl_retry_def cl_apply_def run_cl_task_def run_reconnect_task_def)
qed

lemma retry_client_delayed:
  assumes "ys_delayed y = d1 @ Cl_debounced (Db_fire () g) # d2"
  shows "retry_step (cl_retry y)
    (cl_retry (cl_apply (run_cl_task verify now True (Cl_debounced (Db_fire () g)) (ys_client y)) (y\<lparr>ys_delayed := d1 @ d2\<rparr>)))"
proof -
  have "connection_slot (cl_apply (run_cl_task verify now True (Cl_debounced (Db_fire () g)) (ys_client y)) (y\<lparr>ys_delayed := d1 @ d2\<rparr>)) =
      connection_slot y"
    by (auto simp: connection_slot_def attempt_pending_def cl_apply_def run_cl_task_def run_reconnect_task_def run_debounced_def
        split: option.splits)
  then show ?thesis
    using assms rt_fire[of "cl_retry y" "fire_generations (debounces d1)" g "fire_generations (debounces d2)"]
    by (cases "cl_stopped (ys_client y)"; cases "g = db_generation (cl_reconnect_task (ys_client y))")
      (simp_all add: cl_retry_def cl_apply_def run_cl_task_def run_reconnect_task_def run_debounced_def)
qed

lemma retry_client_plain:
  assumes "ys_tasks y = c # cs" "\<And>d. c \<noteq> Cl_debounced d"
  shows "cl_retry (cl_apply (run_cl_task verify now True c (ys_client y)) (y\<lparr>ys_tasks := cs\<rparr>)) = cl_retry y \<or>
    retry_step (cl_retry y) (cl_retry (cl_apply (run_cl_task verify now True c (ys_client y)) (y\<lparr>ys_tasks := cs\<rparr>)))"
proof -
  let ?z = "cl_apply (run_cl_task verify now True c (ys_client y)) (y\<lparr>ys_tasks := cs\<rparr>)"
  note defs = cl_apply_def run_cl_task_def cl_stop_def invalidate_connection_def and_then_def schedule_reconnect_def
    debounce_after_def debounce_at_def
  have "attempt_pending k ?z = attempt_pending k y" for k
    using assms by (cases c) (auto simp: attempt_pending_def defs)
  moreover have "cl_peer (ys_client ?z) = cl_peer (ys_client y)" "cl_connecting_socket (ys_client ?z) = cl_connecting_socket (ys_client y)"
    using assms by (cases c; simp add: defs)+
  ultimately have "connection_slot ?z = connection_slot y" by (simp add: connection_slot_def split: option.splits)
  then show ?thesis
    using assms rt_start[of "cl_retry y"] rt_stop[of "cl_retry y"] rt_invalidate[of "cl_retry y"]
      rt_reschedule[of "cl_retry y" "connect_tasks cs"]
    by (cases c) (auto simp: cl_retry_def defs)
qed

subsection \<open>The shape of the client\<close>

lemma cl_shape_io:
  assumes "cl_peer s \<noteq> None \<longrightarrow> cl_connecting_socket s = None"
  shows "(cl_peer (fst (run_cl_io c s)) \<noteq> None \<longrightarrow> cl_connecting_socket (fst (run_cl_io c s)) = None) \<and>
    delays (snd (run_cl_io c s)) = []"
  using assms
  by (cases c) (auto simp: run_cl_io_def and_then_def close_connecting_socket_def close_peer_def io_connect_def send_request_def
      handle_connected_socket_def Let_def split: option.splits prod.splits)

lemma cl_shape_task:
  "cl_peer (fst (run_cl_task verify now True c s)) = cl_peer s \<and>
   cl_connecting_socket (fst (run_cl_task verify now True c s)) = cl_connecting_socket s \<and>
   (\<forall>d\<in>set (delays (snd (run_cl_task verify now True c s))). \<exists>g. d = Cl_debounced (Db_fire () g))"
  by (cases c) (auto simp: run_cl_task_def cl_stop_def invalidate_connection_def and_then_def schedule_reconnect_def
      run_reconnect_task_def run_debounced_def debounce_in_dispatcher_def Let_def split: debounced_closure.splits)

lemma cl_shape_apply:
  assumes "cl_shape y" "set (ys_delayed x) \<subseteq> set (ys_delayed y)"
    "cl_peer (fst r) \<noteq> None \<longrightarrow> cl_connecting_socket (fst r) = None"
    "\<forall>d\<in>set (delays (snd r)). \<exists>g. d = Cl_debounced (Db_fire () g)"
  shows "cl_shape (cl_apply r x)"
  using assms by (auto simp: cl_shape_def cl_apply_def)

lemma cl_shape_step: "cl_step verify y z \<Longrightarrow> cl_shape y \<Longrightarrow> cl_shape z"
proof (induction rule: cl_step.induct)
  case (cl_io y c cs)
  then show ?case using cl_shape_io[of "ys_client y" c] by (intro cl_shape_apply) (auto simp: cl_shape_def)
next
  case (cl_task y c cs now)
  then show ?case using cl_shape_task[of verify now c "ys_client y"] by (intro cl_shape_apply) (auto simp: cl_shape_def)
next
  case (cl_delayed y d1 c d2 now)
  then show ?case using cl_shape_task[of verify now c "ys_client y"] by (intro cl_shape_apply) (auto simp: cl_shape_def)
next
  case (cl_completed y k1 k k2 err cred)
  then show ?case by (intro cl_shape_apply) (auto simp: cl_shape_def connect_completed_def split: option.splits)
next
  case (cl_timeout y i)
  then have "cl_quiet (ys_client y) (request_timeout i (ys_client y)) \<or> cl_failing (ys_client y) (request_timeout i (ys_client y))"
    by (intro client_timeout_cases) (simp add: cl_shape_def)
  with cl_timeout show ?case
    by (intro cl_shape_apply) (auto simp: cl_shape_def cl_quiet_def cl_failing_def)
qed (simp_all add: cl_shape_def)

lemma cl_retry_step: "cl_step verify y z \<Longrightarrow> cl_shape y \<Longrightarrow> cl_retry z = cl_retry y \<or> retry_step (cl_retry y) (cl_retry z)"
proof (induction rule: cl_step.induct)
  case (cl_call task y)
  then show ?case by (auto simp: cl_retry_def connection_slot_def attempt_pending_def split: option.splits)
next
  case (cl_post c y)
  then have "connect_ios [c] = []" "attempt_pending k (y\<lparr>ys_io := ys_io y @ [c]\<rparr>) = attempt_pending k y" for k
    by (auto simp: call_posts_def peer_posts_def attempt_pending_def)
  then show ?case by (simp add: cl_retry_def connection_slot_def split: option.splits)
next
  case (cl_io y c cs)
  then show ?case using retry_client_io_step by blast
next
  case (cl_task y c cs now)
  then show ?case using retry_client_debounced retry_client_plain by (metis (no_types))
next
  case (cl_delayed y d1 c d2 now)
  then obtain g where "c = Cl_debounced (Db_fire () g)" by (auto simp: cl_shape_def)
  with cl_delayed show ?case using retry_client_delayed by blast
next
  case (cl_completed y k1 k k2 err cred)
  then show ?case using retry_completed_step by blast
next
  case (cl_timeout y i)
  then have "cl_quiet (ys_client y) (request_timeout i (ys_client y)) \<or> cl_failing (ys_client y) (request_timeout i (ys_client y))"
    by (intro client_timeout_cases) (simp add: cl_shape_def)
  then show ?case by (rule cl_retry_cases) (simp add: same_attempts_def)
qed

lemma cl_initial_retry: "cl_initial y \<Longrightarrow> cl_shape y \<and> retry_initial (cl_retry y)"
  by (auto simp: cl_initial_def cl_shape_def retry_initial_def cl_retry_def stream_client_new_def connection_slot_def)

text \<open>The stream client implements the retry machine.\<close>

interpretation cl_attempts: refinement "cl_step verify" cl_initial cl_shape retry_step retry_initial retry_inv cl_retry
  for verify
  by unfold_locales (auto dest: cl_initial_retry cl_shape_step cl_retry_step)

lemma connect_closures: "queued_debounces (connect_tasks ts) = debounces ts"
  by (induction ts) (auto split: cl_task.splits)

lemma connect_fires: "g \<in> set (fire_generations (debounces ts)) \<Longrightarrow> Cl_debounced (Db_fire () g) \<in> set ts"
  by (induction ts) (auto split: cl_task.splits debounced_closure.splits)

lemma connect_ios_set [simp]: "R_go \<in> set (connect_ios cs) \<longleftrightarrow> Io_connect \<in> set cs" "R_stop \<in> set (connect_ios cs) \<longleftrightarrow> Io_stop \<in> set cs"
  "R_again \<in> set (connect_ios cs) \<longleftrightarrow> Io_invalidate \<in> set cs"
  by (induction cs) (auto split: cl_io.splits)

lemma connect_tasks_set: "R_reschedule \<in> set (connect_tasks ts) \<longleftrightarrow> (\<exists>t\<in>set ts. reschedules t)"
  by (induction ts) (auto split: cl_task.splits)

lemma keeps_trying_connected: "keeps_trying (cl_retry y) \<Longrightarrow> cl_active y"
  using connect_fires[of _ "ys_delayed y"]
  by (auto simp: keeps_trying_def cl_retry_def cl_active_def retry_scheduled_def connect_closures connect_tasks_set
      reconnect_pending_def connection_slot_def split: option.splits if_splits)

text \<open>
  C10. A started client never gets stuck: under every interleaving of starts, stops, invalidations, connection results,
  peer failures, timeouts and delayed closures, a client that is not stopped is connected, or has a connection attempt
  on its way, or a closure or timer that leads to the next attempt is pending and not cancelled. A stopped client,
  once its stop has run, has neither a peer nor a connecting socket.
\<close>

theorem stream_client_keeps_trying:
  assumes "cl_initial y" and "rtranclp (cl_step verify) y z"
  shows "(\<not> cl_stopped (ys_client z) \<longrightarrow> cl_active z) \<and>
    (cl_stopped (ys_client z) \<and> Io_stop \<notin> set (ys_io z) \<longrightarrow>
       cl_peer (ys_client z) = None \<and> cl_connecting_socket (ys_client z) = None)"
proof -
  have "retry_inv (cl_retry z)" using cl_attempts.abs_reachable assms by blast
  then have "(\<not> cl_stopped (ys_client z) \<longrightarrow> keeps_trying (cl_retry z)) \<and>
      (cl_stopped (ys_client z) \<longrightarrow> Io_stop \<in> set (ys_io z) \<or> connection_slot z = Free)"
    by (simp add: retry_inv_def cl_retry_def)
  then show ?thesis
    using keeps_trying_connected by (auto simp: connection_slot_def split: option.splits if_splits)
qed

definition cl_example :: cl_system where
  "cl_example = \<lparr>ys_client = stream_client_new default_options 1000, ys_io = [], ys_tasks = [], ys_delayed = [],
     ys_connects = [], ys_requested = [], ys_trace = []\<rparr>"

lemma cl_example_started:
  "\<exists>z. rtranclp (cl_step verify) cl_example z \<and> \<not> cl_stopped (ys_client z) \<and> cl_peer (ys_client z) = None \<and>
     ys_tasks z = [Cl_connect_failed Timed_out]"
proof -
  let ?cred = "\<lparr>pc_pid = None, pc_uid = None, pc_gid = None\<rparr>"
  define a where "a = cl_example\<lparr>ys_tasks := [Cl_start]\<rparr>"
  define b where "b = cl_apply (run_cl_task verify 0 True Cl_start (ys_client a)) (a\<lparr>ys_tasks := []\<rparr>)"
  define c where "c = cl_apply (run_cl_io Io_connect (ys_client b)) (b\<lparr>ys_io := [], ys_requested := []\<rparr>)"
  define d where "d = cl_apply (connect_completed True 0 (Some Timed_out) ?cred (ys_client c)) (c\<lparr>ys_connects := []\<rparr>)"
  note evals = cl_apply_def run_cl_task_def run_cl_io_def io_connect_def connect_completed_def cl_example_def stream_client_new_def
  have 1: "cl_step verify cl_example a" using cl_call[of Cl_start verify cl_example] by (simp add: cl_example_def a_def)
  have 2: "cl_step verify a b" unfolding b_def by (rule cl_task) (simp add: a_def)
  have 3: "cl_step verify b c" using cl_io[of b Io_connect "[]" verify] by (simp add: evals a_def b_def c_def)
  have 4: "cl_step verify c d"
    unfolding d_def by (rule cl_completed[of _ "[]" 0 "[]", simplified]) (simp add: evals a_def b_def c_def)
  have "rtranclp (cl_step verify) cl_example d"
    using 1 2 3 4 by (meson converse_rtranclp_into_rtranclp rtranclp.rtrancl_refl)
  then show ?thesis by (intro exI[of _ d] conjI) (simp_all add: evals a_def b_def c_def d_def)
qed

theorem stream_client_keeps_trying_witness:
  "\<exists>z. rtranclp (cl_step (\<lambda>_. True)) cl_example z \<and> \<not> cl_stopped (ys_client z) \<and> cl_active z"
proof -
  obtain z where z: "rtranclp (cl_step (\<lambda>_. True)) cl_example z" "\<not> cl_stopped (ys_client z)"
    using cl_example_started by blast
  have "cl_initial cl_example" by (auto simp: cl_initial_def cl_example_def)
  from stream_client_keeps_trying[OF this z(1)] z show ?thesis by blast
qed

section \<open>Requests\<close>

primrec answered :: "cl_effect list \<Rightarrow> nat list" where
  "answered [] = []"
| "answered (f # fs) = (case f of Enqueue (Cl_callback c) \<Rightarrow> [called c] | _ \<Rightarrow> []) @ answered fs"

definition req_inv :: "cl_system \<Rightarrow> bool" where
  "req_inv y \<longleftrightarrow> (length (ys_requested y) < 2 ^ 64 \<longrightarrow>
     (\<exists>n\<le>length (ys_requested y). rm_inv n (cl_requests (ys_client y))) \<and>
     (cl_peer (ys_client y) = None \<longrightarrow> rm_pending (cl_requests (ys_client y)) = []) \<and>
     mset (ys_requested y) = pending_callbacks (cl_requests (ys_client y)) + mset (answered (ys_trace y)))"

lemma answered_append [simp]: "answered (xs @ ys) = answered xs @ answered ys"
  by (induction xs) simp_all

lemma answered_callbacks [simp]: "answered (map (\<lambda>c. Enqueue (Cl_callback c)) cs) = map called cs"
  by (induction cs) simp_all

lemma answered_delays [simp]: "answered (map (\<lambda>(c, w). Enqueue_at (Cl_debounced c) w) cs) = []"
  by (induction cs) auto

text \<open>
  What a closure does to the requests: it keeps the bookkeeping, and leaves none pending without a peer.
\<close>

definition sound_requests :: "nat list \<Rightarrow> stream_client \<Rightarrow> stream_client \<times> cl_effect list \<Rightarrow> bool" where
  "sound_requests new s r \<longleftrightarrow>
     (\<forall>n. rm_inv n (cl_requests s) \<and> n + length new < 2 ^ 64 \<and> (cl_peer s = None \<longrightarrow> rm_pending (cl_requests s) = []) \<longrightarrow>
        (\<exists>m\<le>n + length new. rm_inv m (cl_requests (fst r))) \<and>
        (cl_peer (fst r) = None \<longrightarrow> rm_pending (cl_requests (fst r)) = []) \<and>
        pending_callbacks (cl_requests s) + mset new = pending_callbacks (cl_requests (fst r)) + mset (answered (snd r)))"

lemma req_inv_apply:
  assumes "req_inv y" "sound_requests new (ys_client y) r" "ys_client y' = ys_client y" "ys_trace y' = ys_trace y"
    "ys_requested y' = ys_requested y @ new"
  shows "req_inv (cl_apply r y')"
  unfolding req_inv_def
proof
  assume b: "length (ys_requested (cl_apply r y')) < 2 ^ 64"
  then have b': "length (ys_requested y) + length new < 2 ^ 64" by (simp add: cl_apply_def assms(5))
  then obtain n where n: "n \<le> length (ys_requested y)" "rm_inv n (cl_requests (ys_client y))"
    "cl_peer (ys_client y) = None \<longrightarrow> rm_pending (cl_requests (ys_client y)) = []"
    "mset (ys_requested y) = pending_callbacks (cl_requests (ys_client y)) + mset (answered (ys_trace y))"
    using assms(1) by (auto simp: req_inv_def)
  from n b' have "n + length new < 2 ^ 64" by simp
  with n have r: "(\<exists>m\<le>n + length new. rm_inv m (cl_requests (fst r))) \<and>
        (cl_peer (fst r) = None \<longrightarrow> rm_pending (cl_requests (fst r)) = []) \<and>
        pending_callbacks (cl_requests (ys_client y)) + mset new =
          pending_callbacks (cl_requests (fst r)) + mset (answered (snd r))"
    by (intro assms(2)[unfolded sound_requests_def, THEN spec, THEN mp]) simp
  obtain m where m: "m \<le> n + length new" "rm_inv m (cl_requests (fst r))" using conjunct1[OF r] by blast
  note peer = conjunct1[OF conjunct2[OF r]] and eq = conjunct2[OF conjunct2[OF r]]
  have "mset (ys_requested y) + mset new =
      (pending_callbacks (cl_requests (ys_client y)) + mset new) + mset (answered (ys_trace y))"
    unfolding n(4) by (simp only: ac_simps)
  then have e: "mset (ys_requested y) + mset new =
      pending_callbacks (cl_requests (fst r)) + mset (answered (ys_trace y @ snd r))"
    unfolding eq by (simp only: answered_append mset_append ac_simps)
  have f: "ys_client (cl_apply r y') = fst r" "ys_requested (cl_apply r y') = ys_requested y @ new"
    "ys_trace (cl_apply r y') = ys_trace y @ snd r"
    using assms(4,5) by (simp_all add: cl_apply_def)
  have "m \<le> length (ys_requested y @ new)" using m(1) n(1) by simp
  with m(2) peer e show "(\<exists>n\<le>length (ys_requested (cl_apply r y')). rm_inv n (cl_requests (ys_client (cl_apply r y')))) \<and>
     (cl_peer (ys_client (cl_apply r y')) = None \<longrightarrow> rm_pending (cl_requests (ys_client (cl_apply r y'))) = []) \<and>
     mset (ys_requested (cl_apply r y')) = pending_callbacks (cl_requests (ys_client (cl_apply r y'))) + mset (answered (ys_trace (cl_apply r y')))"
    unfolding f mset_append by (intro conjI) auto
qed

lemma sound_requests_quiet:
  "cl_requests s' = cl_requests s \<Longrightarrow> cl_peer s' = cl_peer s \<or> cl_peer s' \<noteq> None \<Longrightarrow> answered f = [] \<Longrightarrow>
   sound_requests [] s (s', f)"
  by (auto simp: sound_requests_def)

lemma sound_requests_complete_all:
  assumes "rm_complete_all err (cl_requests s) = (rm, calls)" "cl_requests s' = rm" "answered f = map called calls"
  shows "sound_requests [] s (s', f)"
proof -
  have "rm_pending rm = []" using assms(1) by (auto simp: rm_complete_all_def)
  with assms rm_complete_all_effect[OF _ assms(1)] show ?thesis by (auto simp: sound_requests_def)
qed

lemma sound_requests_complete:
  assumes "rm_complete i err data (cl_requests s) = (rm, calls)" "cl_requests s' = rm" "answered f = map called calls"
    "cl_peer s' = cl_peer s"
  shows "sound_requests [] s (s', f)"
proof -
  have "rm_pending rm = []" if "rm_pending (cl_requests s) = []"
    using assms(1) that by (auto simp: rm_complete_def split: option.splits)
  with assms rm_complete_effect[OF _ assms(1)] show ?thesis by (auto simp: sound_requests_def)
qed

lemma sound_requests_then:
  assumes "sound_requests [] s r" "sound_requests [] (fst r) (g (fst r))"
  shows "sound_requests [] s (and_then r g)"
proof -
  obtain s1 f1 where r: "r = (s1, f1)" by fastforce
  obtain s2 f2 where g: "g s1 = (s2, f2)" by fastforce
  show ?thesis unfolding sound_requests_def
  proof (intro allI impI, elim conjE)
    fix n assume n: "rm_inv n (cl_requests s)" "n + length ([] :: nat list) < 2 ^ 64"
      "cl_peer s = None \<longrightarrow> rm_pending (cl_requests s) = []"
    from assms(1) n obtain m where m: "m \<le> n" "rm_inv m (cl_requests s1)" "cl_peer s1 = None \<longrightarrow> rm_pending (cl_requests s1) = []"
      "pending_callbacks (cl_requests s) = pending_callbacks (cl_requests s1) + mset (answered f1)"
      by (auto simp: sound_requests_def r)
    from assms(2) m n(2) obtain k where "k \<le> m" "rm_inv k (cl_requests s2)" "cl_peer s2 = None \<longrightarrow> rm_pending (cl_requests s2) = []"
      "pending_callbacks (cl_requests s1) = pending_callbacks (cl_requests s2) + mset (answered f2)"
      by (auto simp: sound_requests_def r g)
    with m show "(\<exists>m\<le>n + length ([] :: nat list). rm_inv m (cl_requests (fst (and_then r g)))) \<and>
        (cl_peer (fst (and_then r g)) = None \<longrightarrow> rm_pending (cl_requests (fst (and_then r g))) = []) \<and>
        pending_callbacks (cl_requests s) + mset [] =
          pending_callbacks (cl_requests (fst (and_then r g))) + mset (answered (snd (and_then r g)))"
      by (auto simp: and_then_def r g intro!: exI[of _ k])
  qed
qed

lemma sound_close_connecting: "sound_requests [] s (close_connecting_socket s)"
  by (auto simp: close_connecting_socket_def split: option.split intro: sound_requests_quiet)

lemma sound_close_peer: "sound_requests [] s (snd (close_peer err s))"
proof (cases "cl_peer s")
  case (Some p)
  obtain rm calls where "rm_complete_all err (cl_requests s) = (rm, calls)" by fastforce
  with Some show ?thesis by (auto simp: close_peer_def intro: sound_requests_complete_all)
qed (auto simp: close_peer_def intro: sound_requests_quiet)

lemma sound_send_request: "sound_requests [cb] s (send_request data w cb s)"
proof (cases "cl_peer s")
  case None
  then show ?thesis by (auto simp: sound_requests_def send_request_def intro: le_SucI)
next
  case (Some p)
  obtain i rm where a: "rm_add None cb (cl_requests s) = (i, rm)" by fastforce
  then have "rm_inv n (cl_requests s) \<Longrightarrow> Suc n < 2 ^ 64 \<Longrightarrow> rm_inv (Suc n) rm \<and> pending_callbacks rm = pending_callbacks (cl_requests s) + {#cb#}" for n
    using rm_add_effect[of n "cl_requests s" None cb] by simp
  with Some a show ?thesis by (auto simp: sound_requests_def send_request_def)
qed

lemma sound_timeout: "sound_requests [] s (request_timeout i s)"
proof -
  obtain rm calls where c: "rm_complete i (Some Timed_out) None (cl_requests s) = (rm, calls)" by fastforce
  let ?r = "(s\<lparr>cl_requests := rm\<rparr>, map (\<lambda>c. Enqueue (Cl_callback c)) calls)"
  have 1: "sound_requests [] s ?r" by (rule sound_requests_complete[OF c]) simp_all
  have 2: "sound_requests [] s' (and_then (snd (close_peer err s')) (\<lambda>s. (s, if b then [Enqueue Cl_closed] else [])))" for s' err b
    by (rule sound_requests_then[OF sound_close_peer sound_requests_quiet]) simp_all
  have "request_timeout i s =
     (if po_invalidate_connection_on_request_error (cl_options s)
      then and_then ?r (\<lambda>s. and_then (snd (close_peer Connection_reset s))
             (\<lambda>s'. (s', if fst (close_peer Connection_reset s) then [Enqueue Cl_closed] else [])))
      else ?r)"
    by (simp add: request_timeout_def rm_on_timeout_def c and_then_def Let_def case_prod_unfold)
  then show ?thesis by (auto intro: 1 sound_requests_then 2)
qed

lemma sound_io: "sound_requests (case c of Io_request b w cb \<Rightarrow> [cb] | _ \<Rightarrow> []) s (run_cl_io c s)"
proof (cases c)
  case Io_stop
  then show ?thesis by (simp add: run_cl_io_def sound_requests_then sound_close_connecting sound_close_peer)
next
  case Io_invalidate
  have "sound_requests [] s' (s', [Enqueue Cl_schedule_reconnect])" for s' by (rule sound_requests_quiet) simp_all
  with Io_invalidate show ?thesis
    by (simp add: run_cl_io_def sound_requests_then sound_close_connecting sound_close_peer)
next
  case (Io_request b w cb)
  then show ?thesis by (simp add: run_cl_io_def sound_send_request)
next
  case (Io_response_received p i b)
  obtain rm calls where c: "rm_complete i None (Some b) (cl_requests s) = (rm, calls)" by fastforce
  then show ?thesis using Io_response_received
    by (auto simp: run_cl_io_def intro: sound_requests_complete sound_requests_quiet)
next
  case (Io_error p e)
  obtain rm calls where c: "rm_complete_all e (cl_requests s) = (rm, calls)" by fastforce
  then show ?thesis using Io_error by (auto simp: run_cl_io_def intro: sound_requests_complete_all sound_requests_quiet)
next
  case (Io_closed p)
  obtain rm calls where c: "rm_complete_all Connection_reset (cl_requests s) = (rm, calls)" by fastforce
  then show ?thesis using Io_closed by (auto simp: run_cl_io_def intro: sound_requests_complete_all sound_requests_quiet)
qed (auto simp: run_cl_io_def io_connect_def handle_connected_socket_def Let_def split: option.split intro!: sound_requests_quiet)

lemma sound_task: "sound_requests [] s (run_cl_task verify now ok c s)"
  by (cases c) (auto simp: run_cl_task_def and_then_def schedule_reconnect_def cl_stop_def invalidate_connection_def
      run_reconnect_task_def split: prod.splits intro!: sound_requests_quiet)

lemma sound_completed: "sound_requests [] s (connect_completed ok k err cred s)"
  by (auto simp: connect_completed_def split: option.split intro!: sound_requests_quiet)

lemma req_inv_step: "cl_step verify y z \<Longrightarrow> req_inv y \<Longrightarrow> req_inv z"
proof (induction rule: cl_step.induct)
  case (cl_call task y)
  then show ?case by (simp add: req_inv_def)
next
  case (cl_post c y)
  then show ?case by (simp add: req_inv_def)
next
  case (cl_io y c cs)
  then show ?case by (intro req_inv_apply[OF _ sound_io]) simp_all
next
  case (cl_task y c cs now)
  then show ?case by (intro req_inv_apply[OF _ sound_task]) simp_all
next
  case (cl_delayed y d1 c d2 now)
  then show ?case by (intro req_inv_apply[OF _ sound_task]) simp_all
next
  case (cl_completed y k1 k k2 err cred)
  then show ?case by (intro req_inv_apply[OF _ sound_completed]) simp_all
next
  case (cl_timeout y i)
  then show ?case by (intro req_inv_apply[OF _ sound_timeout]) simp_all
qed

lemma req_inv_initial: "cl_initial y \<Longrightarrow> req_inv y"
  by (auto simp: cl_initial_def req_inv_def stream_client_new_def request_manager_new_def rm_inv_def pending_callbacks_def)

interpretation cl_requests: step_invariant "cl_step verify" cl_initial req_inv for verify
  by unfold_locales (fact req_inv_initial req_inv_step)+

text \<open>
  C29. No request of the client is lost and none is answered twice: in every run the callbacks called and those pending are
  together exactly the ones given, and without a connection nothing is pending, so every request made before
  was answered. This covers requests made while not connected, responses, timeouts, lost connections, stops and
  invalidations, for the first 2^64 requests.
\<close>

theorem stream_client_requests_answered:
  assumes "cl_initial y" and "rtranclp (cl_step verify) y z" and "length (ys_requested z) < 2 ^ 64"
  shows "mset (ys_requested z) = pending_callbacks (cl_requests (ys_client z)) + mset (answered (ys_trace z)) \<and>
    (cl_peer (ys_client z) = None \<longrightarrow> mset (ys_requested z) = mset (answered (ys_trace z)))"
  using cl_requests.reachable[OF assms(1,2)] assms(3) by (auto simp: req_inv_def pending_callbacks_def)

theorem stream_client_requests_answered_witness:
  "\<exists>z. rtranclp (cl_step (\<lambda>_. True)) cl_example z \<and> ys_requested z = [7] \<and> mset (answered (ys_trace z)) = {#7#}"
proof -
  define a where "a = cl_example\<lparr>ys_io := [Io_request [] 0 7]\<rparr>"
  define b where "b = cl_apply (run_cl_io (Io_request [] 0 7) (ys_client a)) (a\<lparr>ys_io := [], ys_requested := [7]\<rparr>)"
  have "cl_step (\<lambda>_. True) cl_example a"
    using cl_post[of "Io_request [] 0 7" cl_example] by (auto simp: a_def cl_example_def call_posts_def)
  moreover have "cl_step (\<lambda>_. True) a b" using cl_io[of a "Io_request [] 0 7" "[]"] by (simp add: a_def b_def cl_example_def)
  ultimately have r: "rtranclp (cl_step (\<lambda>_. True)) cl_example b" by (meson converse_rtranclp_into_rtranclp rtranclp.rtrancl_refl)
  have f: "ys_requested b = [7]" "cl_peer (ys_client b) = None"
    by (simp_all add: b_def a_def cl_apply_def run_cl_io_def send_request_def cl_example_def stream_client_new_def)
  have i: "cl_initial cl_example" by (auto simp: cl_initial_def cl_example_def)
  have l: "length (ys_requested b) < 2 ^ 64" by (simp add: f(1))
  have "mset (ys_requested b) = mset (answered (ys_trace b))"
    by (rule mp[OF conjunct2[OF stream_client_requests_answered[OF i r l]] f(2)])
  then have "mset (answered (ys_trace b)) = {#7#}" unfolding f(1) by simp
  with r f show ?thesis by (intro exI[of _ b] conjI)
qed

end
