(* ===== verification/Service_Protocol.thy ===== *)
theory Service_Protocol
  imports Hid_Report
begin

text \<open>
  The messages between the client library and the daemon
  (\<^verbatim>\<open>virtual_hid_device_service/{request,response,parameters,constants}.hpp\<close>,
  \<^verbatim>\<open>client_protocol_version.hpp\<close>, \<^verbatim>\<open>driver_version.hpp\<close>): the request and response codes, the keyboard
  parameters, the writing of a request buffer (\<^verbatim>\<open>append_data\<close> and \<^verbatim>\<open>make_request_buffer\<close> of the client)
  and the reading of its parts (\<^verbatim>\<open>read_data\<close> of the server).
\<close>

section \<open>Versions and constants\<close>

text \<open>The two version types are strong typedefs of an integer, ordered as it is.\<close>

datatype client_protocol_version = Client_protocol_version (client_protocol_version_get: u16)

datatype driver_version = Driver_version (driver_version_get: u64)

instantiation client_protocol_version :: linorder
begin

definition less_eq_client_protocol_version :: "client_protocol_version \<Rightarrow> client_protocol_version \<Rightarrow> bool" where
  "less_eq_client_protocol_version a b \<longleftrightarrow> client_protocol_version_get a \<le> client_protocol_version_get b"

definition less_client_protocol_version :: "client_protocol_version \<Rightarrow> client_protocol_version \<Rightarrow> bool" where
  "less_client_protocol_version a b \<longleftrightarrow> client_protocol_version_get a < client_protocol_version_get b"

instance
  by standard (auto simp: less_eq_client_protocol_version_def less_client_protocol_version_def
      intro: client_protocol_version.expand)

end

instantiation driver_version :: linorder
begin

definition less_eq_driver_version :: "driver_version \<Rightarrow> driver_version \<Rightarrow> bool" where
  "less_eq_driver_version a b \<longleftrightarrow> driver_version_get a \<le> driver_version_get b"

definition less_driver_version :: "driver_version \<Rightarrow> driver_version \<Rightarrow> bool" where
  "less_driver_version a b \<longleftrightarrow> driver_version_get a < driver_version_get b"

instance
  by standard (auto simp: less_eq_driver_version_def less_driver_version_def intro: driver_version.expand)

end

definition embedded_client_protocol_version :: client_protocol_version where
  "embedded_client_protocol_version = Client_protocol_version 7"

definition embedded_driver_version :: driver_version where
  "embedded_driver_version = Driver_version 10800"

definition get_rootonly_directory :: string where
  "get_rootonly_directory = ''/Library/Application Support/org.pqrs/tmp/rootonly''"

definition get_server_socket_file_path :: string where
  "get_server_socket_file_path =
     get_rootonly_directory @ ''/'' @ ''karabiner_virtual_hid_device_service.sock''"

definition unix_domain_stream_max_message_size :: nat where
  "unix_domain_stream_max_message_size = 1024"

section \<open>Requests and responses\<close>

datatype request =
    virtual_hid_keyboard_initialize
  | virtual_hid_keyboard_terminate
  | virtual_hid_keyboard_reset
  | virtual_hid_pointing_initialize
  | virtual_hid_pointing_terminate
  | virtual_hid_pointing_reset
  | post_keyboard_input_report
  | post_consumer_input_report
  | post_apple_vendor_keyboard_input_report
  | post_apple_vendor_top_case_input_report
  | post_generic_desktop_input_report
  | post_pointing_input_report

text \<open>The enumerators in declaration order; the underlying value is the position.\<close>

definition all_requests :: "request list" where
  "all_requests = [virtual_hid_keyboard_initialize, virtual_hid_keyboard_terminate,
     virtual_hid_keyboard_reset, virtual_hid_pointing_initialize, virtual_hid_pointing_terminate,
     virtual_hid_pointing_reset, post_keyboard_input_report, post_consumer_input_report,
     post_apple_vendor_keyboard_input_report, post_apple_vendor_top_case_input_report,
     post_generic_desktop_input_report, post_pointing_input_report]"

primrec request_value :: "request \<Rightarrow> u8" where
  "request_value virtual_hid_keyboard_initialize = 0"
| "request_value virtual_hid_keyboard_terminate = 1"
| "request_value virtual_hid_keyboard_reset = 2"
| "request_value virtual_hid_pointing_initialize = 3"
| "request_value virtual_hid_pointing_terminate = 4"
| "request_value virtual_hid_pointing_reset = 5"
| "request_value post_keyboard_input_report = 6"
| "request_value post_consumer_input_report = 7"
| "request_value post_apple_vendor_keyboard_input_report = 8"
| "request_value post_apple_vendor_top_case_input_report = 9"
| "request_value post_generic_desktop_input_report = 10"
| "request_value post_pointing_input_report = 11"

text \<open>
  A byte read as \<^verbatim>\<open>request\<close> selects a case of the server's \<^verbatim>\<open>switch\<close>, or its default (\<open>None\<close>).
\<close>

definition request_of_value :: "u8 \<Rightarrow> request option" where
  "request_of_value v = find (\<lambda>r. request_value r = v) all_requests"

datatype response =
    response_none
  | driver_activated
  | driver_connected
  | driver_version_mismatched
  | virtual_hid_keyboard_ready
  | virtual_hid_pointing_ready

definition all_responses :: "response list" where
  "all_responses = [response_none, driver_activated, driver_connected, driver_version_mismatched,
     virtual_hid_keyboard_ready, virtual_hid_pointing_ready]"

primrec response_value :: "response \<Rightarrow> u8" where
  "response_value response_none = 0"
| "response_value driver_activated = 1"
| "response_value driver_connected = 2"
| "response_value driver_version_mismatched = 3"
| "response_value virtual_hid_keyboard_ready = 4"
| "response_value virtual_hid_pointing_ready = 5"

definition response_of_value :: "u8 \<Rightarrow> response option" where
  "response_of_value v = find (\<lambda>r. response_value r = v) all_responses"

lemma request_of_value_value [simp]: "request_of_value (request_value r) = Some r"
  by (cases r) (simp_all add: request_of_value_def all_requests_def)

lemma request_of_value_Some: "request_of_value v = Some r \<longleftrightarrow> v = request_value r"
proof
  assume "request_of_value v = Some r"
  then show "v = request_value r"
    by (auto simp: request_of_value_def find_Some_iff)
qed simp

lemma response_of_value_value [simp]: "response_of_value (response_value r) = Some r"
  by (cases r) (simp_all add: response_of_value_def all_responses_def)

lemma response_of_value_Some: "response_of_value v = Some r \<longleftrightarrow> v = response_value r"
proof
  assume "response_of_value v = Some r"
  then show "v = response_value r"
    by (auto simp: response_of_value_def find_Some_iff)
qed simp

section \<open>Keyboard parameters\<close>

text \<open>
  The three values are \<^verbatim>\<open>type_safe::strong_typedef\<close> wrappers of \<^verbatim>\<open>uint64_t\<close>; the class is trivially
  copyable, three 64-bit words without padding.
\<close>

record virtual_hid_keyboard_parameters =
  vendor_id :: u64
  product_id :: u64
  country_code :: u64

definition country_code_not_supported :: u64 where
  "country_code_not_supported = 0"

definition default_parameters :: virtual_hid_keyboard_parameters where
  "default_parameters =
     \<lparr>vendor_id = 0x16c0, product_id = 0x27db, country_code = country_code_not_supported\<rparr>"

definition parameters_image :: "virtual_hid_keyboard_parameters \<Rightarrow> bytes" where
  "parameters_image p =
     le_bytes 8 (vendor_id p) @ le_bytes 8 (product_id p) @ le_bytes 8 (country_code p)"

definition parameters_of_image :: "bytes \<Rightarrow> virtual_hid_keyboard_parameters" where
  "parameters_of_image bs =
     \<lparr>vendor_id = le_word (take 8 bs), product_id = le_word (take 8 (drop 8 bs)),
      country_code = le_word (take 8 (drop 16 bs))\<rparr>"

definition sizeof_parameters :: nat where
  "sizeof_parameters = 24"

interpretation parameters_codec: codec parameters_image parameters_of_image sizeof_parameters "\<lambda>_. True"
proof unfold_locales
  fix bs :: bytes assume len: "length bs = sizeof_parameters"
  then have "take 8 bs @ take 8 (drop 8 bs) @ take 8 (drop 16 bs) = bs"
    using append_take_drop_id[of 8 bs] append_take_drop_id[of 8 "drop 8 bs"]
    by (simp add: sizeof_parameters_def)
  with len show "parameters_image (parameters_of_image bs) = bs"
    by (simp add: parameters_image_def parameters_of_image_def sizeof_parameters_def u64_codec.enc_dec)
qed (simp_all add: parameters_image_def parameters_of_image_def sizeof_parameters_def le_word_le_bytes)

section \<open>Request buffers\<close>

text \<open>The reports a client can post, one per overload of \<^verbatim>\<open>client::async_post_report\<close>.\<close>

datatype hid_report =
    Report_keyboard_input keyboard_input
  | Report_consumer_input keys_input
  | Report_apple_vendor_keyboard_input keys_input
  | Report_apple_vendor_top_case_input keys_input
  | Report_generic_desktop_input keys_input
  | Report_pointing_input pointing_input

primrec report_image :: "hid_report \<Rightarrow> bytes" where
  "report_image (Report_keyboard_input r) = keyboard_input_image r"
| "report_image (Report_consumer_input r) = keys_input_image r"
| "report_image (Report_apple_vendor_keyboard_input r) = keys_input_image r"
| "report_image (Report_apple_vendor_top_case_input r) = keys_input_image r"
| "report_image (Report_generic_desktop_input r) = keys_input_image r"
| "report_image (Report_pointing_input r) = pointing_input_image r"

primrec report_request :: "hid_report \<Rightarrow> request" where
  "report_request (Report_keyboard_input r) = post_keyboard_input_report"
| "report_request (Report_consumer_input r) = post_consumer_input_report"
| "report_request (Report_apple_vendor_keyboard_input r) = post_apple_vendor_keyboard_input_report"
| "report_request (Report_apple_vendor_top_case_input r) = post_apple_vendor_top_case_input_report"
| "report_request (Report_generic_desktop_input r) = post_generic_desktop_input_report"
| "report_request (Report_pointing_input r) = post_pointing_input_report"

text \<open>The report's key table has its 32 slots.\<close>

primrec report_shape :: "hid_report \<Rightarrow> bool" where
  "report_shape (Report_keyboard_input r) = keys_shape (ki_keys r)"
| "report_shape (Report_consumer_input r) = keys_shape (kx_keys r)"
| "report_shape (Report_apple_vendor_keyboard_input r) = keys_shape (kx_keys r)"
| "report_shape (Report_apple_vendor_top_case_input r) = keys_shape (kx_keys r)"
| "report_shape (Report_generic_desktop_input r) = keys_shape (kx_keys r)"
| "report_shape (Report_pointing_input r) = True"

text \<open>\<^verbatim>\<open>append_data\<close>: the buffer grows by the size of the datum, whose image fills the new end.\<close>

definition append_data :: "bytes \<Rightarrow> bytes \<Rightarrow> bytes" where
  "append_data buffer img =
     (let n = length buffer; resized = buffer @ replicate (length img) 0
      in take n resized @ img @ drop (n + length img) resized)"

definition make_request_buffer :: "request \<Rightarrow> bytes" where
  "make_request_buffer request_type =
     append_data (append_data [] (le_bytes 2 (client_protocol_version_get embedded_client_protocol_version)))
       [request_value request_type]"

definition make_request_buffer_with :: "request \<Rightarrow> bytes \<Rightarrow> bytes" where
  "make_request_buffer_with request_type img = append_data (make_request_buffer request_type) img"

text \<open>
  \<^verbatim>\<open>read_data\<close>: \<open>None\<close> when fewer than \<open>sz\<close> bytes are left, otherwise the bytes and the offset
  behind them.
\<close>

definition read_data :: "bytes \<Rightarrow> nat \<Rightarrow> nat \<Rightarrow> (bytes \<times> nat) option" where
  "read_data buffer offset sz =
     (if length buffer < offset \<or> length buffer - offset < sz then None
      else Some (take sz (drop offset buffer), offset + sz))"

lemma append_data_eq [simp]: "append_data buffer img = buffer @ img"
  by (simp add: append_data_def)

lemma length_make_request_buffer [image_simps]: "length (make_request_buffer r) = 3"
  by (simp add: make_request_buffer_def)

lemma read_data_bounds:
  assumes "read_data buffer offset sz = Some (v, offset')"
  shows "length v = sz \<and> offset' = offset + sz \<and> offset' \<le> length buffer"
  using assms by (auto simp: read_data_def split: if_splits)

lemma read_data_at: "read_data (xs @ v @ ys) (length xs) (length v) = Some (v, length xs + length v)"
  by (simp add: read_data_def)

primrec report_size :: "hid_report \<Rightarrow> nat" where
  "report_size (Report_keyboard_input r) = sizeof_keyboard_input"
| "report_size (Report_consumer_input r) = sizeof_keys_input"
| "report_size (Report_apple_vendor_keyboard_input r) = sizeof_keys_input"
| "report_size (Report_apple_vendor_top_case_input r) = sizeof_keys_input"
| "report_size (Report_generic_desktop_input r) = sizeof_keys_input"
| "report_size (Report_pointing_input r) = sizeof_pointing_input"

lemma length_report_image: "report_shape r \<Longrightarrow> length (report_image r) = report_size r"
  by (cases r) (simp_all add: keyboard_codec.enc_length keys_input_codec.enc_length pointing_codec.enc_length)

text \<open>
  The daemon's socket path fits into \<^verbatim>\<open>sockaddr_un.sun_path\<close>, which holds 104 bytes with the
  terminating zero; its length is 92 bytes.
\<close>

theorem socket_path_fits:
  "length get_server_socket_file_path = 92 \<and> length get_server_socket_file_path \<le> 103"
  by (simp add: get_server_socket_file_path_def get_rootonly_directory_def)

text \<open>
  No request the client library builds reaches the stream's message limit: for every report and for
  the parameters the buffer is the three header bytes and the image, at most 70 bytes.
\<close>

theorem request_buffers_within_limit:
  assumes "report_shape r"
  shows "length (make_request_buffer q) = 3 \<and>
    length (make_request_buffer_with (report_request r) (report_image r)) = 3 + report_size r \<and>
    length (make_request_buffer_with q (parameters_image p)) = 3 + sizeof_parameters \<and>
    3 + report_size r \<le> 70 \<and> 70 \<le> unix_domain_stream_max_message_size"
proof -
  have "report_size r \<le> 67"
    by (cases r) (simp_all add: sizeof_keyboard_input_def sizeof_keys_input_def sizeof_pointing_input_def)
  with assms show ?thesis
    by (simp add: make_request_buffer_with_def image_simps length_report_image
        parameters_codec.enc_length unix_domain_stream_max_message_size_def)
qed

theorem request_buffers_within_limit_witness:
  "length (make_request_buffer_with post_pointing_input_report (pointing_input_image pointing_input_init)) = 11"
  using request_buffers_within_limit[of "Report_pointing_input pointing_input_init"]
  by (simp add: sizeof_pointing_input_def)

end
