(* ===== verification/Service_Client.thy ===== *)
theory Service_Client
  imports Service_Protocol
begin

text \<open>
  The client library, \<^verbatim>\<open>virtual_hid_device_service/client.hpp\<close>: the object an application uses to talk
  to the daemon. Its methods enqueue work on a dispatcher; the queued closures are the constructors of
  \<open>client_task\<close>, and \<open>run_client_task\<close> is what the dispatcher thread does with one. What the object
  does to the outside (its signals, and the calls on the \<^verbatim>\<open>unix_domain_stream::client\<close> it owns) is a
  list of \<open>client_effect\<close>, in order. An \<^verbatim>\<open>asio::error_code\<close> is an integer, zero for no error.
\<close>

section \<open>Data\<close>

type_synonym error_code = int

datatype client_signal =
    Sig_warning_reported string
  | Sig_connected
  | Sig_connect_failed error_code
  | Sig_closed
  | Sig_error_occurred error_code
  | Sig_driver_activated bool
  | Sig_driver_connected bool
  | Sig_driver_version_mismatched bool
  | Sig_virtual_hid_keyboard_ready bool
  | Sig_virtual_hid_pointing_ready bool

text \<open>The calls on the owned stream client: construction (path, message limit, reconnect interval in
  milliseconds), start, request, respond and destruction.\<close>

datatype client_effect =
    Emit client_signal
  | Stream_create string nat nat
  | Stream_start
  | Stream_request bytes
  | Stream_respond nat bytes
  | Stream_destroy

record service_client =
  sc_client :: bool
  sc_last_keyboard_ready :: "bool option"
  sc_last_pointing_ready :: "bool option"
  sc_last_parameters :: "virtual_hid_keyboard_parameters option"

definition service_client_init :: service_client where
  "service_client_init = \<lparr>sc_client = False, sc_last_keyboard_ready = None,
     sc_last_pointing_ready = None, sc_last_parameters = None\<rparr>"

datatype client_task =
    Task_start
  | Task_stop
  | Task_request bytes
  | Task_connected
  | Task_connect_failed error_code
  | Task_closed
  | Task_error_occurred error_code
  | Task_peer_verification_failed
  | Task_request_received nat bytes
  | Task_response error_code bytes

section \<open>Operations\<close>

definition destroy_client :: "service_client \<Rightarrow> service_client \<times> client_effect list" where
  "destroy_client c = (c\<lparr>sc_client := False\<rparr>, if sc_client c then [Stream_destroy] else [])"

definition clear_state :: "service_client \<Rightarrow> service_client \<times> client_effect list" where
  "clear_state c =
     (c\<lparr>sc_last_keyboard_ready := None, sc_last_pointing_ready := None, sc_last_parameters := None\<rparr>,
      [Emit (Sig_virtual_hid_keyboard_ready False), Emit (Sig_virtual_hid_pointing_ready False)])"

definition create_client :: "service_client \<Rightarrow> service_client \<times> client_effect list" where
  "create_client c =
     (c\<lparr>sc_client := True\<rparr>,
      [Stream_create get_server_socket_file_path unix_domain_stream_max_message_size 1000])"

text \<open>One iteration of the loop of \<^verbatim>\<open>handle_message\<close>: a response code and its value.\<close>

definition handle_item :: "u8 \<Rightarrow> u8 \<Rightarrow> service_client \<Rightarrow> service_client \<times> client_effect list" where
  "handle_item code v c =
     (case response_of_value code of
        Some response_none \<Rightarrow> (c, [])
      | Some driver_activated \<Rightarrow> (c, [Emit (Sig_driver_activated (v \<noteq> 0))])
      | Some driver_connected \<Rightarrow> (c, [Emit (Sig_driver_connected (v \<noteq> 0))])
      | Some driver_version_mismatched \<Rightarrow> (c, [Emit (Sig_driver_version_mismatched (v \<noteq> 0))])
      | Some virtual_hid_keyboard_ready \<Rightarrow>
          (c\<lparr>sc_last_keyboard_ready := Some (v \<noteq> 0)\<rparr>, [Emit (Sig_virtual_hid_keyboard_ready (v \<noteq> 0))])
      | Some virtual_hid_pointing_ready \<Rightarrow>
          (c\<lparr>sc_last_pointing_ready := Some (v \<noteq> 0)\<rparr>, [Emit (Sig_virtual_hid_pointing_ready (v \<noteq> 0))])
      | None \<Rightarrow> (c, [Emit (Sig_warning_reported ''virtual_hid_device_service::client: unknown message'')]))"

fun handle_items :: "bytes \<Rightarrow> service_client \<Rightarrow> service_client \<times> client_effect list" where
  "handle_items (code # v # bs) c =
     (let (c1, e1) = handle_item code v c; (c2, e2) = handle_items bs c1 in (c2, e1 @ e2))"
| "handle_items _ c = (c, [])"

definition handle_message :: "bytes \<Rightarrow> service_client \<Rightarrow> service_client \<times> client_effect list" where
  "handle_message buffer c =
     (if buffer = [] then (c, [])
      else if length buffer mod 2 \<noteq> 0 then
        (c, [Emit (Sig_warning_reported ''virtual_hid_device_service::client: message buffer size is invalid'')])
      else handle_items buffer c)"

primrec run_client_task :: "client_task \<Rightarrow> service_client \<Rightarrow> service_client \<times> client_effect list" where
  "run_client_task Task_start c =
     (if sc_client c then (c, [])
      else (let (c1, e1) = create_client c in (c1, e1 @ (if sc_client c1 then [Stream_start] else []))))"
| "run_client_task Task_stop c =
     (let (c1, e1) = destroy_client c; (c2, e2) = clear_state c1 in (c2, e1 @ e2))"
| "run_client_task (Task_request buffer) c =
     (c, if sc_client c then [Stream_request buffer] else [])"
| "run_client_task Task_connected c = (c, [Emit Sig_connected])"
| "run_client_task (Task_connect_failed e) c = (c, [Emit (Sig_connect_failed e)])"
| "run_client_task Task_closed c =
     (let (c1, e1) = clear_state c in (c1, Emit Sig_closed # e1))"
| "run_client_task (Task_error_occurred e) c = (c, [Emit (Sig_error_occurred e)])"
| "run_client_task Task_peer_verification_failed c =
     (c, [Emit (Sig_warning_reported ''peer_verification_failed'')])"
| "run_client_task (Task_request_received request_id buffer) c =
     (let (c1, e1) = handle_message buffer c
      in (c1, e1 @ (if sc_client c1 then [Stream_respond request_id []] else [])))"
| "run_client_task (Task_response e buffer) c =
     (if e \<noteq> 0 then (c, [Emit (Sig_error_occurred e)]) else handle_message buffer c)"

text \<open>The public methods: the new state of the object and the tasks they enqueue.\<close>

definition async_start :: "service_client \<Rightarrow> service_client \<times> client_task list" where
  "async_start c = (c, [Task_start])"

definition async_stop :: "service_client \<Rightarrow> service_client \<times> client_task list" where
  "async_stop c = (c, [Task_stop])"

definition async_request :: "bytes \<Rightarrow> client_task list" where
  "async_request request_buffer = [Task_request request_buffer]"

definition async_virtual_hid_keyboard_initialize ::
  "virtual_hid_keyboard_parameters \<Rightarrow> bool \<Rightarrow> service_client \<Rightarrow> service_client \<times> client_task list" where
  "async_virtual_hid_keyboard_initialize parameters force c =
     (if \<not> force \<and> sc_last_keyboard_ready c = Some True \<and> sc_last_parameters c = Some parameters
      then (c, [])
      else (c\<lparr>sc_last_parameters := Some parameters\<rparr>,
            async_request (make_request_buffer_with virtual_hid_keyboard_initialize
              (parameters_image parameters))))"

definition async_virtual_hid_pointing_initialize ::
  "bool \<Rightarrow> service_client \<Rightarrow> service_client \<times> client_task list" where
  "async_virtual_hid_pointing_initialize force c =
     (if \<not> force \<and> sc_last_pointing_ready c = Some True then (c, [])
      else (c, async_request (make_request_buffer virtual_hid_pointing_initialize)))"

definition async_virtual_hid_keyboard_terminate :: "service_client \<Rightarrow> service_client \<times> client_task list" where
  "async_virtual_hid_keyboard_terminate c =
     (c, async_request (make_request_buffer virtual_hid_keyboard_terminate))"

definition async_virtual_hid_keyboard_reset :: "service_client \<Rightarrow> service_client \<times> client_task list" where
  "async_virtual_hid_keyboard_reset c =
     (c, async_request (make_request_buffer virtual_hid_keyboard_reset))"

definition async_virtual_hid_pointing_terminate :: "service_client \<Rightarrow> service_client \<times> client_task list" where
  "async_virtual_hid_pointing_terminate c =
     (c, async_request (make_request_buffer virtual_hid_pointing_terminate))"

definition async_virtual_hid_pointing_reset :: "service_client \<Rightarrow> service_client \<times> client_task list" where
  "async_virtual_hid_pointing_reset c =
     (c, async_request (make_request_buffer virtual_hid_pointing_reset))"

text \<open>The six overloads of \<^verbatim>\<open>async_post_report\<close>.\<close>

definition async_post_report :: "hid_report \<Rightarrow> service_client \<Rightarrow> service_client \<times> client_task list" where
  "async_post_report report c =
     (c, async_request (make_request_buffer_with (report_request report) (report_image report)))"

section \<open>Interleavings\<close>

text \<open>A call of a public method, as a value.\<close>

datatype client_call =
    Call_start
  | Call_stop
  | Call_keyboard_initialize virtual_hid_keyboard_parameters bool
  | Call_keyboard_terminate
  | Call_keyboard_reset
  | Call_pointing_initialize bool
  | Call_pointing_terminate
  | Call_pointing_reset
  | Call_post_report hid_report

primrec run_call :: "client_call \<Rightarrow> service_client \<Rightarrow> service_client \<times> client_task list" where
  "run_call Call_start = async_start"
| "run_call Call_stop = async_stop"
| "run_call (Call_keyboard_initialize p force) = async_virtual_hid_keyboard_initialize p force"
| "run_call Call_keyboard_terminate = async_virtual_hid_keyboard_terminate"
| "run_call Call_keyboard_reset = async_virtual_hid_keyboard_reset"
| "run_call (Call_pointing_initialize force) = async_virtual_hid_pointing_initialize force"
| "run_call Call_pointing_terminate = async_virtual_hid_pointing_terminate"
| "run_call Call_pointing_reset = async_virtual_hid_pointing_reset"
| "run_call (Call_post_report r) = async_post_report r"

text \<open>
  A run interleaves public calls, notifications of the stream client (each enqueues its task) and the
  dispatcher running a queued task. Which queued task runs next is left open, so the invariants below
  do not rest on the order of the queue.
\<close>

record client_system =
  cs_client :: service_client
  cs_queue :: "client_task list"
  cs_trace :: "client_effect list"

inductive client_step :: "client_system \<Rightarrow> client_system \<Rightarrow> bool" where
  step_call: "run_call call (cs_client s) = (c', tasks) \<Longrightarrow>
     client_step s (s\<lparr>cs_client := c', cs_queue := cs_queue s @ tasks\<rparr>)"
| step_notify: "task \<in> {Task_connected, Task_closed, Task_peer_verification_failed} \<union>
       range Task_connect_failed \<union> range Task_error_occurred \<union>
       {Task_request_received i b |i b. True} \<union> {Task_response e b |e b. True} \<Longrightarrow>
     client_step s (s\<lparr>cs_queue := cs_queue s @ [task]\<rparr>)"
| step_run: "cs_queue s = q1 @ task # q2 \<Longrightarrow> run_client_task task (cs_client s) = (c', e) \<Longrightarrow>
     client_step s \<lparr>cs_client = c', cs_queue = q1 @ q2, cs_trace = cs_trace s @ e\<rparr>"

definition client_start :: client_system where
  "client_start = \<lparr>cs_client = service_client_init, cs_queue = [], cs_trace = []\<rparr>"

abbreviation client_reachable :: "client_system \<Rightarrow> bool" where
  "client_reachable \<equiv> reaches (\<lambda>s. s = client_start) client_step"

lemma client_reach_init: "client_reachable client_start"
  by (rule reaches_init) simp

lemma client_reach_step: "client_reachable s \<Longrightarrow> client_step s s' \<Longrightarrow> client_reachable s'"
  by (rule reaches_step)

section \<open>What the application sees\<close>

text \<open>The last value a boolean signal reported, \<open>b\<close> if it was not emitted.\<close>

primrec shown :: "(bool \<Rightarrow> client_signal) \<Rightarrow> client_effect list \<Rightarrow> bool \<Rightarrow> bool" where
  "shown sig [] b = b"
| "shown sig (e # es) b = shown sig es (if e = Emit (sig True) then True else if e = Emit (sig False) then False else b)"

text \<open>
  The calls on the stream client as an automaton: it is created only when there is none, and started,
  used and destroyed only when there is one. \<open>None\<close> is a violation.
\<close>

primrec stream_run :: "client_effect list \<Rightarrow> bool \<Rightarrow> bool option" where
  "stream_run [] b = Some b"
| "stream_run (e # es) b =
     (case e of
        Emit x \<Rightarrow> stream_run es b
      | Stream_create x y z \<Rightarrow> if b then None else stream_run es True
      | Stream_start \<Rightarrow> if b then stream_run es True else None
      | Stream_request x \<Rightarrow> if b then stream_run es True else None
      | Stream_respond x y \<Rightarrow> if b then stream_run es True else None
      | Stream_destroy \<Rightarrow> if b then stream_run es False else None)"

lemma shown_append [simp]: "shown sig (xs @ ys) b = shown sig ys (shown sig xs b)"
  by (induction xs arbitrary: b) simp_all

lemma stream_run_append [simp]:
  "stream_run (xs @ ys) b = (case stream_run xs b of None \<Rightarrow> None | Some b' \<Rightarrow> stream_run ys b')"
  by (induction xs arbitrary: b) (simp_all split: client_effect.split)

lemmas client_op_defs = async_start_def async_stop_def async_request_def
  async_virtual_hid_keyboard_initialize_def async_virtual_hid_keyboard_terminate_def
  async_virtual_hid_keyboard_reset_def async_virtual_hid_pointing_initialize_def
  async_virtual_hid_pointing_terminate_def async_virtual_hid_pointing_reset_def async_post_report_def

lemma handle_item_client [frame_simps]: "sc_client (fst (handle_item code v c)) = sc_client c"
  by (simp add: handle_item_def split: option.split response.split)

lemma handle_item_stream: "stream_run (snd (handle_item code v c)) b = Some b"
  by (simp add: handle_item_def split: option.split response.split)

lemma handle_items_client:
  "sc_client (fst (handle_items bs c)) = sc_client c \<and> stream_run (snd (handle_items bs c)) b = Some b"
proof (induction bs c rule: handle_items.induct)
  case (1 code v bs c)
  obtain c1 e1 where i: "handle_item code v c = (c1, e1)" by fastforce
  obtain c2 e2 where r: "handle_items bs c1 = (c2, e2)" by fastforce
  show ?case
    using 1[OF i[symmetric] refl] handle_item_client[of code v c] handle_item_stream[of code v c b]
    by (simp add: i r)
qed simp_all

lemma handle_message_client:
  assumes "handle_message buffer c = (c', e)"
  shows "sc_client c' = sc_client c \<and> (\<forall>b. stream_run e b = Some b)"
  using assms handle_items_client[of buffer c]
  by (auto simp: handle_message_def split: if_splits)

lemma run_task_stream:
  assumes "run_client_task task c = (c', e)"
  shows "stream_run e (sc_client c) = Some (sc_client c')"
  using assms
  by (cases task)
    (auto simp: create_client_def destroy_client_def clear_state_def split: if_splits prod.splits
      dest: handle_message_client)

lemma run_call_client:
  assumes "run_call call c = (c', tasks)"
  shows "sc_client c' = sc_client c" "sc_last_keyboard_ready c' = sc_last_keyboard_ready c"
    "sc_last_pointing_ready c' = sc_last_pointing_ready c"
  using assms by (cases call; auto simp: client_op_defs split: if_splits)+

text \<open>
  A ready flag of the client and the signal that reports it. The law is local, one item of a message
  and the clearing of the state; the lemmas lift it to messages, tasks and whole runs.
\<close>

locale ready_view =
  fixes flag :: "service_client \<Rightarrow> bool option" and sig :: "bool \<Rightarrow> client_signal"
  assumes sig_ready: "sig b = Sig_virtual_hid_keyboard_ready b \<or> sig b = Sig_virtual_hid_pointing_ready b"
    and item: "(flag (fst (handle_item code v c)) = Some True) =
       shown sig (snd (handle_item code v c)) (flag c = Some True)"
    and clear: "flag (fst (clear_state c)) = None" "\<not> shown sig (snd (clear_state c)) b"
    and init: "flag service_client_init = None"
    and call: "run_call k c = (c', tasks) \<Longrightarrow> flag c' = flag c"
    and owner: "flag (c\<lparr>sc_client := b\<rparr>) = flag c"
begin

lemma sig_neq [simp]:
  "sig b \<noteq> Sig_warning_reported w" "sig b \<noteq> Sig_connected" "sig b \<noteq> Sig_connect_failed x"
  "sig b \<noteq> Sig_closed" "sig b \<noteq> Sig_error_occurred x"
  "Sig_warning_reported w \<noteq> sig b" "Sig_connected \<noteq> sig b" "Sig_connect_failed x \<noteq> sig b"
  "Sig_closed \<noteq> sig b" "Sig_error_occurred x \<noteq> sig b"
  using sig_ready[of b] by auto

lemma items:
  "(flag (fst (handle_items bs c)) = Some True) = shown sig (snd (handle_items bs c)) (flag c = Some True)"
proof (induction bs c rule: handle_items.induct)
  case (1 code v bs c)
  obtain c1 e1 where i: "handle_item code v c = (c1, e1)" by fastforce
  obtain c2 e2 where r: "handle_items bs c1 = (c2, e2)" by fastforce
  show ?case using 1[OF i[symmetric] refl] item[of code v c] by (simp add: i r)
qed simp_all

lemma message:
  assumes "handle_message buffer c = (c', e)"
  shows "(flag c' = Some True) = shown sig e (flag c = Some True)"
  using assms items[of buffer c] by (auto simp: handle_message_def split: if_splits)

lemma task:
  assumes "run_client_task task c = (c', e)"
  shows "(flag c' = Some True) = shown sig e (flag c = Some True)"
proof (cases task)
  case (Task_request_received i b)
  then show ?thesis using assms by (auto split: prod.splits if_splits dest: message)
next
  case (Task_response x b)
  then show ?thesis using assms by (auto split: if_splits dest: message)
next
  case Task_stop
  then show ?thesis using assms clear[of "c\<lparr>sc_client := False\<rparr>"]
    by (auto simp: destroy_client_def split: prod.splits)
next
  case Task_closed
  then show ?thesis using assms clear[of c] by (auto split: prod.splits)
qed (use assms in \<open>auto simp: create_client_def owner split: if_splits\<close>)

end

sublocale ready_view \<subseteq> steps: step_invariant client_step "\<lambda>s. s = client_start"
  "\<lambda>s. (flag (cs_client s) = Some True) = shown sig (cs_trace s) False"
proof unfold_locales
  show "(flag (cs_client t) = Some True) = shown sig (cs_trace t) False"
    if "client_step s t" "(flag (cs_client s) = Some True) = shown sig (cs_trace s) False" for s t
    using that by (cases rule: client_step.cases) (auto dest: call task)
qed (simp add: init client_start_def)

interpretation keyboard_view: ready_view sc_last_keyboard_ready Sig_virtual_hid_keyboard_ready
  by unfold_locales
    (auto simp: handle_item_def clear_state_def service_client_init_def run_call_client
      split: option.split response.split)

interpretation pointing_view: ready_view sc_last_pointing_ready Sig_virtual_hid_pointing_ready
  by unfold_locales
    (auto simp: handle_item_def clear_state_def service_client_init_def run_call_client
      split: option.split response.split)

section \<open>Properties\<close>

text \<open>
  C15. However calls of the application, notifications of the stream and queued tasks interleave, the
  client's two ready flags are what it last told the application: a flag is set exactly when the last
  ready signal emitted was true, in particular after a stop or a closed connection it is not.
\<close>

theorem client_flags_match_signals:
  assumes "client_reachable s"
  shows "(sc_last_keyboard_ready (cs_client s) = Some True) =
      shown Sig_virtual_hid_keyboard_ready (cs_trace s) False \<and>
    (sc_last_pointing_ready (cs_client s) = Some True) =
      shown Sig_virtual_hid_pointing_ready (cs_trace s) False"
  using keyboard_view.steps.reaches_inv[OF assms] pointing_view.steps.reaches_inv[OF assms] by blast

definition client_demo :: client_system where
  "client_demo = \<lparr>cs_client = service_client_init\<lparr>sc_last_keyboard_ready := Some True\<rparr>,
     cs_queue = [], cs_trace = [Emit (Sig_virtual_hid_keyboard_ready True)]\<rparr>"

lemma client_demo_reachable: "client_reachable client_demo"
proof -
  have response: "run_client_task (Task_response 0 [4, 1]) service_client_init =
     (service_client_init\<lparr>sc_last_keyboard_ready := Some True\<rparr>, [Emit (Sig_virtual_hid_keyboard_ready True)])"
    by (simp add: handle_message_def handle_item_def response_of_value_def all_responses_def)
  have "client_reachable \<lparr>cs_client = service_client_init, cs_queue = [Task_response 0 [4, 1]], cs_trace = []\<rparr>"
    using client_reach_step[OF client_reach_init step_notify[of "Task_response 0 [4, 1]"]] by (simp add: client_start_def)
  from client_reach_step[OF this step_run[of _ "[]" "Task_response 0 [4, 1]" "[]"]] response
  show ?thesis by (simp add: client_demo_def)
qed

theorem client_flags_match_signals_witness:
  "sc_last_keyboard_ready (cs_client client_demo) = Some True \<and>
   shown Sig_virtual_hid_keyboard_ready (cs_trace client_demo) False"
  using client_flags_match_signals[OF client_demo_reachable] by (simp add: client_demo_def)

interpretation stream_use: step_invariant client_step "\<lambda>s. s = client_start"
  "\<lambda>s. stream_run (cs_trace s) False = Some (sc_client (cs_client s))"
proof unfold_locales
  show "stream_run (cs_trace t) False = Some (sc_client (cs_client t))"
    if "client_step s t" "stream_run (cs_trace s) False = Some (sc_client (cs_client s))" for s t
    using that by (cases rule: client_step.cases) (auto dest: run_call_client run_task_stream)
qed (simp add: client_start_def service_client_init_def)

text \<open>
  The client never uses a stream it does not own: along every run it creates a stream client only
  when it has none, and starts, uses and destroys it only while it has one; requests made without a
  stream are dropped.
\<close>

theorem client_stream_discipline:
  assumes "client_reachable s"
  shows "stream_run (cs_trace s) False = Some (sc_client (cs_client s))"
  by (rule stream_use.reaches_inv[OF assms])

theorem client_stream_discipline_witness: "stream_run (cs_trace client_demo) False = Some False"
  using client_stream_discipline[OF client_demo_reachable]
  by (simp add: client_demo_def service_client_init_def)

text \<open>The signals a message of response codes and values stands for.\<close>

primrec response_signals :: "response \<Rightarrow> u8 \<Rightarrow> client_signal list" where
  "response_signals response_none v = []"
| "response_signals driver_activated v = [Sig_driver_activated (v \<noteq> 0)]"
| "response_signals driver_connected v = [Sig_driver_connected (v \<noteq> 0)]"
| "response_signals driver_version_mismatched v = [Sig_driver_version_mismatched (v \<noteq> 0)]"
| "response_signals virtual_hid_keyboard_ready v = [Sig_virtual_hid_keyboard_ready (v \<noteq> 0)]"
| "response_signals virtual_hid_pointing_ready v = [Sig_virtual_hid_pointing_ready (v \<noteq> 0)]"

definition code_signals :: "u8 \<times> u8 \<Rightarrow> client_signal list" where
  "code_signals = (\<lambda>(code, v). case response_of_value code of
     Some r \<Rightarrow> response_signals r v
   | None \<Rightarrow> [Sig_warning_reported ''virtual_hid_device_service::client: unknown message''])"

definition pairs_image :: "(u8 \<times> u8) list \<Rightarrow> bytes" where
  "pairs_image ps = concat (map (\<lambda>(code, v). [code, v]) ps)"

lemma length_pairs_image [image_simps]: "length (pairs_image ps) = 2 * length ps"
  by (induction ps) (auto simp: pairs_image_def)

lemma handle_items_signals: "snd (handle_items (pairs_image ps) c) = map Emit (concat (map code_signals ps))"
proof (induction ps arbitrary: c)
  case (Cons p ps)
  obtain code v where p: "p = (code, v)" by fastforce
  obtain c1 e1 where i: "handle_item code v c = (c1, e1)" by fastforce
  have "e1 = map Emit (code_signals p)"
    using i by (auto simp: p handle_item_def code_signals_def split: option.splits response.splits)
  with Cons.IH[of c1] show ?case
    by (simp add: p i pairs_image_def case_prod_beta)
qed (simp add: pairs_image_def)

text \<open>
  A message of code/value pairs makes the client emit exactly the signals of its pairs, in order; an
  unknown code costs one warning and does not disturb the others. A message of odd length is
  refused as a whole: one warning and no change of state.
\<close>

theorem handle_message_signals:
  "snd (handle_message (pairs_image ps) c) = map Emit (concat (map code_signals ps)) \<and>
   handle_message (pairs_image ps @ [b]) c =
     (c, [Emit (Sig_warning_reported ''virtual_hid_device_service::client: message buffer size is invalid'')])"
  using handle_items_signals[of ps c] length_pairs_image[of ps]
  by (auto simp: handle_message_def pairs_image_def)

text \<open>
  Suppression of a redundant keyboard initialization: the call sends nothing exactly when it is not
  forced, the keyboard is known ready and the parameters are the last requested ones. Otherwise it
  enqueues one initialize request with the parameters and remembers them. After a stop or a closed
  connection the next call is never suppressed, for either device.
\<close>

theorem initialize_suppression:
  "(snd (async_virtual_hid_keyboard_initialize p force c) = [] \<longleftrightarrow>
      \<not> force \<and> sc_last_keyboard_ready c = Some True \<and> sc_last_parameters c = Some p) \<and>
   sc_last_parameters (fst (async_virtual_hid_keyboard_initialize p force c)) = Some p \<and>
   (task = Task_stop \<or> task = Task_closed \<longrightarrow>
      snd (async_virtual_hid_keyboard_initialize p force (fst (run_client_task task c))) =
        [Task_request (make_request_buffer_with virtual_hid_keyboard_initialize (parameters_image p))] \<and>
      snd (async_virtual_hid_pointing_initialize force (fst (run_client_task task c))) =
        [Task_request (make_request_buffer virtual_hid_pointing_initialize)])"
  by (auto simp: client_op_defs clear_state_def destroy_client_def)

theorem initialize_suppression_witness:
  "snd (async_virtual_hid_pointing_initialize False
     (fst (run_client_task Task_closed (service_client_init\<lparr>sc_last_pointing_ready := Some True\<rparr>)))) =
   [Task_request (make_request_buffer virtual_hid_pointing_initialize)]"
  using initialize_suppression[of default_parameters False
      "service_client_init\<lparr>sc_last_pointing_ready := Some True\<rparr>" Task_closed] by simp

end
