(* ===== verification/Client_Sessions.thy ===== *)
theory Client_Sessions
  imports Stream_Client Service_Client
begin

text \<open>
  What the signals of a stream client tell the service client that owns it. The signals are read as sessions: a
  session begins with \<^verbatim>\<open>connected\<close>, only within a session there are messages, requests, answers and errors, and
  \<^verbatim>\<open>closed\<close> ends it. The service client runs the slots it connected in \<^verbatim>\<open>create_client\<close> on the signals, in their
  order, between the closures its own methods enqueue.
\<close>

section \<open>Sessions of a stream client\<close>

datatype link_event = Opens | Uses | Closes | Other

definition link_event :: "cl_signal \<Rightarrow> link_event" where
  "link_event s =
     (case s of
        St_connected cred \<Rightarrow> Opens
      | St_closed \<Rightarrow> Closes
      | St_received b \<Rightarrow> Uses
      | St_request_received i b \<Rightarrow> Uses
      | St_error_occurred e \<Rightarrow> Uses
      | St_callback (Callback cb err data) \<Rightarrow> if err = None then Uses else Other
      | _ \<Rightarrow> Other)"

text \<open>One signal, with a session open or not; \<open>None\<close> is a signal out of place.\<close>

definition link_step :: "cl_signal \<Rightarrow> bool \<Rightarrow> bool option" where
  "link_step s up =
     (case link_event s of
        Opens \<Rightarrow> if up then None else Some True
      | Uses \<Rightarrow> if up then Some True else None
      | Closes \<Rightarrow> Some False
      | Other \<Rightarrow> Some up)"

primrec link_run :: "cl_signal list \<Rightarrow> bool \<Rightarrow> bool option" where
  "link_run [] up = Some up"
| "link_run (s # ss) up = Option.bind (link_step s up) (link_run ss)"

lemma link_run_append: "link_run (xs @ ys) up = Option.bind (link_run xs up) (link_run ys)"
  by (induction xs arbitrary: up) (auto split: Option.bind_split)

text \<open>The signals among effects, and the ones queued closures of the dispatcher will emit.\<close>

primrec emitted :: "cl_effect list \<Rightarrow> cl_signal list" where
  "emitted [] = []"
| "emitted (f # fs) = (case f of Emit_signal s \<Rightarrow> [s] | _ \<Rightarrow> []) @ emitted fs"

definition task_signals :: "cl_task \<Rightarrow> cl_signal list" where
  "task_signals t =
     (case t of
        Cl_connect_failed e \<Rightarrow> [St_connect_failed e]
      | Cl_verification_failed cred \<Rightarrow> [St_peer_verification_failed cred]
      | Cl_received b \<Rightarrow> [St_received b]
      | Cl_request_received i b \<Rightarrow> [St_request_received i b]
      | Cl_error e \<Rightarrow> [St_error_occurred e]
      | Cl_closed \<Rightarrow> [St_closed]
      | Cl_connected cred \<Rightarrow> [St_connected cred]
      | Cl_callback c \<Rightarrow> [St_callback c]
      | _ \<Rightarrow> [])"

definition queued :: "cl_task list \<Rightarrow> cl_signal list" where
  "queued ts = concat (map task_signals ts)"

lemma queued_simps [simp]: "queued [] = []" "queued (t # ts) = task_signals t @ queued ts"
  "queued (xs @ ys) = queued xs @ queued ys"
  by (simp_all add: queued_def)

lemma emitted_append [simp]: "emitted (xs @ ys) = emitted xs @ emitted ys"
  by (induction xs) simp_all

lemma emitted_quiet [simp]:
  "emitted (map (\<lambda>c. Enqueue (Cl_callback c)) cs) = []"
  "emitted (map (\<lambda>(c, w). Enqueue_at (Cl_debounced c) w) ds) = []"
  by (induction cs) (simp_all, induction ds, auto)

text \<open>The peer a closure of the io context comes from.\<close>

definition io_peer :: "cl_io \<Rightarrow> nat option" where
  "io_peer c =
     (case c of
        Io_received p b \<Rightarrow> Some p
      | Io_request_received p i b \<Rightarrow> Some p
      | Io_response_received p i b \<Rightarrow> Some p
      | Io_error p e \<Rightarrow> Some p
      | Io_closed p \<Rightarrow> Some p
      | Io_announce p cred \<Rightarrow> Some p
      | _ \<Rightarrow> None)"

text \<open>The announcement of a peer precedes everything else that comes from it, and there is one.\<close>

definition announced_first :: "nat \<Rightarrow> cl_io list \<Rightarrow> bool" where
  "announced_first p cs \<longleftrightarrow> (\<exists>xs cred ys. cs = xs @ Io_announce p cred # ys \<and> (\<forall>c\<in>set xs. io_peer c \<noteq> Some p) \<and>
     (\<forall>cred'. Io_announce p cred' \<notin> set ys))"

text \<open>The session that will be open when the queued closures have run, given the peer and the closures of the io context.\<close>

definition link_state :: "bool \<Rightarrow> nat option \<Rightarrow> cl_io list \<Rightarrow> bool" where
  "link_state up peer cs \<longleftrightarrow>
     (case peer of
        None \<Rightarrow> \<not> up
      | Some p \<Rightarrow> if up then \<forall>cred. Io_announce p cred \<notin> set cs else announced_first p cs)"

definition numbering :: "cl_system \<Rightarrow> bool" where
  "numbering y \<longleftrightarrow>
     (\<forall>c\<in>set (ys_io y). \<forall>p. io_peer c = Some p \<longrightarrow> Peer_create p \<in> set (ys_trace y)) \<and>
     (\<forall>p. Peer_create p \<in> set (ys_trace y) \<longrightarrow> p < cl_next (ys_client y)) \<and>
     (\<forall>k. cl_connecting_socket (ys_client y) = Some k \<longrightarrow> k < cl_next (ys_client y) \<and> Peer_create k \<notin> set (ys_trace y))"

text \<open>Neither a stop nor an invalidation was asked for.\<close>

definition undisturbed :: "cl_effect list \<Rightarrow> bool" where
  "undisturbed tr \<longleftrightarrow> Post Io_stop \<notin> set tr \<and> Post Io_invalidate \<notin> set tr"

definition link_inv :: "cl_system \<Rightarrow> bool" where
  "link_inv y \<longleftrightarrow> cl_shape y \<and> numbering y \<and>
     (undisturbed (ys_trace y) \<longrightarrow>
        Io_stop \<notin> set (ys_io y) \<and> Io_invalidate \<notin> set (ys_io y) \<and>
        (\<exists>up. link_run (emitted (ys_trace y) @ queued (ys_tasks y)) False = Some up \<and>
              link_state up (cl_peer (ys_client y)) (ys_io y)))"

subsection \<open>The operations keep to the sessions\<close>

lemma set_posts: "c \<in> set (posts fs) \<longleftrightarrow> Post c \<in> set fs"
  by (induction fs) (auto split: cl_effect.splits)

lemma announced_first_pop:
  assumes "announced_first p (c # cs)" "\<And>cred. c \<noteq> Io_announce p cred"
  shows "announced_first p cs" and "io_peer c \<noteq> Some p"
proof -
  obtain xs cred ys where e: "c # cs = xs @ Io_announce p cred # ys" "\<forall>c\<in>set xs. io_peer c \<noteq> Some p"
    "\<forall>cred'. Io_announce p cred' \<notin> set ys"
    using assms(1) by (auto simp: announced_first_def)
  then obtain zs where "xs = c # zs" using assms(2) by (cases xs) auto
  with e show "announced_first p cs" "io_peer c \<noteq> Some p" by (auto simp: announced_first_def)
qed

lemma announced_first_announced:
  assumes "announced_first p (Io_announce p cred # cs)"
  shows "Io_announce p cred' \<notin> set cs"
proof -
  obtain xs cr ys where e: "Io_announce p cred # cs = xs @ Io_announce p cr # ys" "\<forall>c\<in>set xs. io_peer c \<noteq> Some p"
    "\<forall>cred'. Io_announce p cred' \<notin> set ys"
    using assms by (auto simp: announced_first_def)
  then have "xs = []" by (cases xs) (auto simp: io_peer_def)
  with e show ?thesis by simp
qed

lemma announced_first_post:
  assumes "announced_first p cs" "\<forall>d\<in>set ds. \<forall>q cred. d \<noteq> Io_announce q cred"
  shows "announced_first p (cs @ ds)"
proof -
  obtain xs cred ys where e: "cs = xs @ Io_announce p cred # ys" "\<forall>c\<in>set xs. io_peer c \<noteq> Some p"
    "\<forall>cred'. Io_announce p cred' \<notin> set ys"
    using assms(1) by (auto simp: announced_first_def)
  then have "cs @ ds = xs @ Io_announce p cred # (ys @ ds)" by simp
  moreover have "\<forall>cred'. Io_announce p cred' \<notin> set (ys @ ds)" using e(3) assms(2) by auto
  ultimately show ?thesis using e(2) unfolding announced_first_def by blast
qed

lemma link_state_pop:
  assumes "link_state up peer (c # cs)" "\<And>p cred. peer = Some p \<Longrightarrow> c \<noteq> Io_announce p cred"
  shows "link_state up peer cs"
  using assms announced_first_pop(1) by (auto simp: link_state_def split: option.splits if_splits)

lemma link_state_post:
  assumes "link_state up peer cs" "\<forall>d\<in>set ds. \<forall>p cred. d \<noteq> Io_announce p cred"
  shows "link_state up peer (cs @ ds)"
  using assms announced_first_post by (auto simp: link_state_def split: option.splits if_splits)

text \<open>A closure that comes from the current peer and is not its announcement finds the session open.\<close>

lemma link_state_used:
  assumes "link_state up (Some p) (c # cs)" "io_peer c = Some p" "\<And>cred. c \<noteq> Io_announce p cred"
  shows "up"
  using assms announced_first_pop(2) by (auto simp: link_state_def split: if_splits)

lemma link_run_errors:
  "link_run (queued (map Cl_callback (map (\<lambda>(i, p). Callback (pd_callback p) (Some e) None) ps))) up = Some up"
  by (induction ps) (auto simp: task_signals_def link_step_def link_event_def)

text \<open>What an operation of the io thread does to the session: nothing is emitted there, and what it enqueues continues it.\<close>

definition link_sound :: "stream_client \<Rightarrow> cl_io list \<Rightarrow> cl_io list \<Rightarrow> stream_client \<times> cl_effect list \<Rightarrow> bool" where
  "link_sound s old cs r \<longleftrightarrow> emitted (snd r) = [] \<and>
     (\<forall>up. link_state up (cl_peer s) old \<longrightarrow>
        (\<exists>up'. link_run (queued (enqueues (snd r))) up = Some up' \<and> link_state up' (cl_peer (fst r)) (cs @ posts (snd r))))"

lemmas link_eval = link_step_def link_event_def task_signals_def io_peer_def

lemma link_sound_skip:
  assumes "\<And>p cred. cl_peer s = Some p \<Longrightarrow> c \<noteq> Io_announce p cred" "emitted fs = []" "queued (enqueues fs) = []" "posts fs = []"
    and "cl_peer s' = cl_peer s"
  shows "link_sound s (c # cs) cs (s', fs)"
  using assms link_state_pop by (auto simp: link_sound_def)

lemma link_sound_use:
  assumes "cl_peer s = Some p" "io_peer c = Some p" "\<And>cred. c \<noteq> Io_announce p cred"
    and "emitted fs = []" "posts fs = []" "link_run (queued (enqueues fs)) True = Some True" "cl_peer s' = Some p"
  shows "link_sound s (c # cs) cs (s', fs)"
  unfolding link_sound_def
proof (intro conjI allI impI)
  fix up assume l: "link_state up (cl_peer s) (c # cs)"
  then have "up" using link_state_used assms(1-3) by metis
  moreover have "link_state up (cl_peer s) cs" using l assms(1,3) by (intro link_state_pop[OF l]) auto
  ultimately show "\<exists>up'. link_run (queued (enqueues (snd (s', fs)))) up = Some up' \<and>
      link_state up' (cl_peer (fst (s', fs))) (cs @ posts (snd (s', fs)))"
    using assms by (intro exI[of _ True]) simp
qed (simp add: assms)

lemma link_sound_connected:
  assumes "cl_peer s \<noteq> None \<longrightarrow> cl_connecting_socket s = None"
    and "\<And>d. cl_connecting_socket s = Some k \<Longrightarrow> d \<in> set cs \<Longrightarrow> io_peer d \<noteq> Some k"
  shows "link_sound s (Io_connected k cred v # cs) cs (handle_connected_socket k cred v s)"
proof (cases "cl_connecting_socket s = Some k \<and> \<not> cl_stopped s \<and> v")
  case True
  then have "cl_peer s = None" using assms(1) by auto
  moreover have "announced_first k (cs @ [Io_announce k cred])"
    using assms(2) True unfolding announced_first_def
    by (rule_tac exI[of _ cs], rule_tac exI[of _ cred], rule_tac exI[of _ "[]"]) simp
  ultimately show ?thesis
    using True by (auto simp: link_sound_def link_state_def handle_connected_socket_def)
next
  case False
  have old: "link_state up (cl_peer s) cs" if "link_state up (cl_peer s) (Io_connected k cred v # cs)" for up
    using link_state_pop[OF that] by simp
  from False show ?thesis
    using old by (auto simp: link_sound_def handle_connected_socket_def Let_def link_eval)
qed

lemma link_sound_announce: "link_sound s (Io_announce p cred # cs) cs (run_cl_io (Io_announce p cred) s)"
proof (cases "cl_peer s = Some p")
  case True
  have "\<not> up \<and> link_state True (Some p) cs" if "link_state up (Some p) (Io_announce p cred # cs)" for up
    using that announced_first_announced[of p cred cs] by (cases up) (auto simp: link_state_def)
  moreover have "run_cl_io (Io_announce p cred) s = (s, [Enqueue (Cl_connected cred)])" using True by (simp add: run_cl_io_def)
  moreover have "link_run (queued [Cl_connected cred]) False = Some True" by (simp add: link_eval)
  ultimately show ?thesis
    using True unfolding link_sound_def by (intro conjI allI impI exI[of _ True]) (auto simp: link_eval)
next
  case False
  then have "run_cl_io (Io_announce p cred) s = (s, [])" by (simp add: run_cl_io_def)
  then show ?thesis using False by (auto intro!: link_sound_skip)
qed

lemma link_sound_closed: "link_sound s (Io_closed p # cs) cs (run_cl_io (Io_closed p) s)"
proof (cases "cl_peer s = Some p")
  case True
  then show ?thesis
    by (auto simp: link_sound_def run_cl_io_def rm_complete_all_def link_run_append link_run_errors link_state_def
        link_eval simp del: map_map)
next
  case False
  then have "run_cl_io (Io_closed p) s = (s, [])" by (simp add: run_cl_io_def)
  then show ?thesis using False by (simp add: link_sound_skip)
qed

text \<open>The closures of a peer that only use the session.\<close>

lemma link_sound_message:
  assumes "c \<in> peer_posts p" "c \<noteq> Io_closed p"
  shows "link_sound s (c # cs) cs (run_cl_io c s)"
proof (cases "cl_peer s = Some p")
  case True
  obtain s' fs where r: "run_cl_io c s = (s', fs)" by fastforce
  have "emitted fs = [] \<and> posts fs = [] \<and> link_run (queued (enqueues fs)) True = Some True \<and> cl_peer s' = Some p"
    using assms True r
    by (auto simp: peer_posts_def run_cl_io_def rm_complete_all_def rm_complete_def link_run_append link_run_errors
        link_eval simp del: map_map split: option.splits)
  moreover have "io_peer c = Some p" "\<And>cred. c \<noteq> Io_announce p cred" using assms by (auto simp: peer_posts_def io_peer_def)
  ultimately show ?thesis unfolding r using True by (intro link_sound_use) auto
next
  case False
  then have "run_cl_io c s = (s, [])" using assms by (auto simp: peer_posts_def run_cl_io_def)
  then show ?thesis using assms by (auto simp: peer_posts_def intro!: link_sound_skip)
qed

lemma link_sound_io:
  assumes "cl_peer s \<noteq> None \<longrightarrow> cl_connecting_socket s = None"
    and "\<And>k d. cl_connecting_socket s = Some k \<Longrightarrow> d \<in> set cs \<Longrightarrow> io_peer d \<noteq> Some k"
    and "c \<noteq> Io_stop" "c \<noteq> Io_invalidate"
  shows "link_sound s (c # cs) cs (run_cl_io c s)"
proof (cases c)
  case (Io_connected k cred v)
  then show ?thesis using link_sound_connected[of s k cs cred v] assms by (simp add: run_cl_io_def)
next
  case (Io_announce p cred)
  then show ?thesis by (simp add: link_sound_announce)
next
  case (Io_closed p)
  then show ?thesis by (simp add: link_sound_closed)
next
  case (Io_received p b)
  then show ?thesis using link_sound_message[of c p] by (simp add: peer_posts_def)
next
  case (Io_request_received p i b)
  then show ?thesis using link_sound_message[of c p] by (simp add: peer_posts_def)
next
  case (Io_response_received p i b)
  then show ?thesis using link_sound_message[of c p] by (simp add: peer_posts_def)
next
  case (Io_error p e)
  then show ?thesis using link_sound_message[of c p] by (simp add: peer_posts_def)
next
  case (Io_request b w cb)
  have "link_state up (cl_peer s) cs" if "link_state up (cl_peer s) (c # cs)" for up
    using link_state_pop[OF that] Io_request by simp
  then show ?thesis
    using Io_request by (auto simp: link_sound_def run_cl_io_def send_request_def rm_add_def link_eval Let_def split: option.splits)
qed (use assms in \<open>auto simp: run_cl_io_def io_connect_def intro!: link_sound_skip split: option.splits\<close>)

lemma link_sound_timeout: "link_sound s cs cs (request_timeout i s)"
proof -
  obtain rm calls where c: "rm_complete i (Some Timed_out) None (cl_requests s) = (rm, calls)" by fastforce
  have calls: "link_run (queued (map Cl_callback calls)) up = Some up" for up
    using c by (auto simp: rm_complete_def link_eval split: option.splits)
  show ?thesis
  proof (cases "po_invalidate_connection_on_request_error (cl_options s) \<and> cl_peer s \<noteq> None")
    case True
    then show ?thesis
      by (auto simp: link_sound_def request_timeout_def rm_on_timeout_def close_peer_def rm_complete_all_def c calls Let_def
          link_run_append link_run_errors link_state_def link_eval simp del: map_map)
  next
    case False
    then have "request_timeout i s = (s\<lparr>cl_requests := rm\<rparr>, map (\<lambda>c. Enqueue (Cl_callback c)) calls)"
      by (auto simp: request_timeout_def rm_on_timeout_def close_peer_def c Let_def)
    then show ?thesis by (simp add: link_sound_def calls)
  qed
qed

lemma link_sound_completed: "link_sound s cs cs (connect_completed acc k err cred s)"
  by (auto simp: link_sound_def connect_completed_def link_eval split: option.splits)

lemma task_effect:
  assumes "run_cl_task verify now acc c s = (s', fs)"
  shows "emitted fs = task_signals c" "queued (enqueues fs) = []" "\<forall>d\<in>set (posts fs). io_peer d = None"
    "cl_peer s' = cl_peer s" "cl_connecting_socket s' = cl_connecting_socket s" "cl_next s' = cl_next s"
    "Peer_create p \<notin> set fs"
  using assms
  by (cases c; auto simp: run_cl_task_def cl_stop_def invalidate_connection_def schedule_reconnect_def and_then_def
      run_reconnect_task_def task_signals_def io_peer_def split: prod.splits if_splits)+

subsection \<open>Numbering\<close>

text \<open>What an operation does to the numbers: a peer is created for the connecting socket, which is then no longer connecting.\<close>

definition numbers_sound :: "stream_client \<Rightarrow> stream_client \<times> cl_effect list \<Rightarrow> bool" where
  "numbers_sound s r \<longleftrightarrow> cl_next s \<le> cl_next (fst r) \<and>
     (\<forall>p. Peer_create p \<in> set (snd r) \<longrightarrow> cl_connecting_socket s = Some p) \<and>
     (\<forall>d\<in>set (posts (snd r)). \<forall>p. io_peer d = Some p \<longrightarrow> Peer_create p \<in> set (snd r)) \<and>
     (\<forall>k. cl_connecting_socket (fst r) = Some k \<longrightarrow> Peer_create k \<notin> set (snd r) \<and>
        (cl_connecting_socket s = Some k \<or> k = cl_next s \<and> k < cl_next (fst r)))"

lemma numbers_sound_io: "numbers_sound s (run_cl_io c s)"
  by (cases c)
    (auto simp: numbers_sound_def run_cl_io_def close_connecting_socket_def close_peer_def and_then_def io_connect_def
      send_request_def handle_connected_socket_def Let_def io_peer_def split: option.splits prod.splits if_splits)

lemma numbers_sound_task: "numbers_sound s (run_cl_task verify now acc c s)"
proof -
  obtain s' fs where r: "run_cl_task verify now acc c s = (s', fs)" by fastforce
  from task_effect[OF r] show ?thesis unfolding r by (auto simp: numbers_sound_def)
qed

lemma numbers_sound_other:
  "numbers_sound s (connect_completed acc k err cred s)" "numbers_sound s (request_timeout i s)"
  by (auto simp: numbers_sound_def connect_completed_def request_timeout_def close_peer_def Let_def
      split: option.splits prod.splits if_splits)

lemma numbering_apply:
  assumes "numbering y" "numbers_sound (ys_client y) r"
    and "set (ys_io x) \<subseteq> set (ys_io y)" "ys_trace x = ys_trace y"
  shows "numbering (cl_apply r x)"
proof -
  have created: "p < cl_next (ys_client y)" if "Peer_create p \<in> set (ys_trace y) \<or> Peer_create p \<in> set (snd r)" for p
    using that assms(1,2) by (auto simp: numbering_def numbers_sound_def)
  have fresh: "Peer_create k \<notin> set (ys_trace y)" if "cl_connecting_socket (fst r) = Some k" for k
    using that assms(1,2) created[of k] by (auto simp: numbering_def numbers_sound_def)
  show ?thesis
    using assms created fresh by (fastforce simp: numbering_def numbers_sound_def cl_apply_def)
qed

subsection \<open>Every step keeps to the sessions\<close>

lemma undisturbed_append [simp]: "undisturbed (xs @ ys) \<longleftrightarrow> undisturbed xs \<and> undisturbed ys"
  by (auto simp: undisturbed_def)

lemma link_run_extend:
  assumes "link_run xs up = Some v" "link_run ys v = Some w"
  shows "link_run (xs @ ys) up = Some w"
  using assms by (simp add: link_run_append)

text \<open>A step of the io thread, of a connection attempt or of a timer, on a state of which one closure may be taken out.\<close>

lemma link_inv_apply:
  assumes inv: "link_inv y" and shape: "cl_shape (cl_apply r x)" and numbers: "numbers_sound (ys_client y) r"
    and sound: "undisturbed (ys_trace y) \<Longrightarrow> link_sound (ys_client y) (ys_io y) (ys_io x) r"
    and x: "set (ys_io x) \<subseteq> set (ys_io y)" "ys_trace x = ys_trace y" "ys_tasks x = ys_tasks y"
  shows "link_inv (cl_apply r x)"
  unfolding link_inv_def
proof (intro conjI impI)
  show "numbering (cl_apply r x)" using inv numbers x by (intro numbering_apply) (simp_all add: link_inv_def)
  assume quiet: "undisturbed (ys_trace (cl_apply r x))"
  then have u: "undisturbed (ys_trace y)" "undisturbed (snd r)" using x by (simp_all add: cl_apply_def)
  then have "Io_stop \<notin> set (ys_io x)" "Io_invalidate \<notin> set (ys_io x)" using inv x(1) by (auto simp: link_inv_def)
  then show "Io_stop \<notin> set (ys_io (cl_apply r x))" "Io_invalidate \<notin> set (ys_io (cl_apply r x))"
    using u(2) by (auto simp: cl_apply_def set_posts undisturbed_def)
  obtain up where up: "link_run (emitted (ys_trace y) @ queued (ys_tasks y)) False = Some up"
    "link_state up (cl_peer (ys_client y)) (ys_io y)"
    using inv u(1) by (auto simp: link_inv_def)
  obtain up' where up': "emitted (snd r) = []" "link_run (queued (enqueues (snd r))) up = Some up'"
    "link_state up' (cl_peer (fst r)) (ys_io x @ posts (snd r))"
    using sound[OF u(1)] up(2) by (auto simp: link_sound_def)
  show "\<exists>up. link_run (emitted (ys_trace (cl_apply r x)) @ queued (ys_tasks (cl_apply r x))) False = Some up \<and>
      link_state up (cl_peer (ys_client (cl_apply r x))) (ys_io (cl_apply r x))"
    using link_run_extend[OF up(1) up'(2)] up' x by (auto simp: cl_apply_def)
qed (rule shape)

text \<open>A closure of the dispatcher only moves its signal from the queue to the trace; \<open>sig\<close> is what the queue loses.\<close>

lemma link_inv_task:
  assumes inv: "link_inv y" and shape: "cl_shape (cl_apply r x)" and r: "r = run_cl_task verify now acc c (ys_client y)"
    and x: "ys_io x = ys_io y" "ys_trace x = ys_trace y" "queued (ys_tasks y) = task_signals c @ queued (ys_tasks x)"
  shows "link_inv (cl_apply r x)"
  unfolding link_inv_def
proof (intro conjI impI)
  obtain s' fs where e: "r = (s', fs)" by fastforce
  note eff = task_effect[OF r[unfolded e, symmetric]]
  show "numbering (cl_apply r x)"
    using inv x numbers_sound_task unfolding r by (intro numbering_apply) (simp_all add: link_inv_def)
  assume quiet: "undisturbed (ys_trace (cl_apply r x))"
  then have u: "undisturbed (ys_trace y)" "undisturbed (snd r)" using x by (simp_all add: cl_apply_def)
  then show "Io_stop \<notin> set (ys_io (cl_apply r x))" "Io_invalidate \<notin> set (ys_io (cl_apply r x))"
    using inv x by (auto simp: cl_apply_def set_posts undisturbed_def link_inv_def)
  have "\<forall>d\<in>set (posts fs). \<forall>p cred. d \<noteq> Io_announce p cred" using eff(3) by (auto simp: io_peer_def)
  then show "\<exists>up. link_run (emitted (ys_trace (cl_apply r x)) @ queued (ys_tasks (cl_apply r x))) False = Some up \<and>
      link_state up (cl_peer (ys_client (cl_apply r x))) (ys_io (cl_apply r x))"
    using inv u(1) x eff e link_state_post by (fastforce simp: cl_apply_def link_inv_def)
qed (rule shape)

lemma link_inv_step: "cl_step verify y z \<Longrightarrow> link_inv y \<Longrightarrow> link_inv z"
proof (induction rule: cl_step.induct)
  case (cl_call task y)
  then show ?case by (auto simp: link_inv_def cl_shape_def numbering_def task_signals_def)
next
  case (cl_post c y)
  let ?z = "y\<lparr>ys_io := ys_io y @ [c]\<rparr>"
  have "\<forall>p cred. c \<noteq> Io_announce p cred" and c: "c \<noteq> Io_stop" "c \<noteq> Io_invalidate"
    using cl_post(1) by (auto simp: call_posts_def peer_posts_def)
  then have "link_state up p (ys_io y @ [c])" if "link_state up p (ys_io y)" for up p
    using link_state_post[OF that, of "[c]"] by simp
  moreover have "numbering ?z" "cl_shape ?z"
    using cl_post by (auto simp: link_inv_def cl_shape_def numbering_def io_peer_def call_posts_def peer_posts_def)
  ultimately show ?case using cl_post(2) c by (auto simp: link_inv_def)
next
  case (cl_io y c cs)
  let ?x = "y\<lparr>ys_io := cs, ys_requested := ys_requested y @ (case c of Io_request b w cb \<Rightarrow> [cb] | _ \<Rightarrow> [])\<rparr>"
  have shape: "cl_shape y" "numbering y" using cl_io(2) by (simp_all add: link_inv_def)
  have "link_sound (ys_client y) (ys_io y) (ys_io ?x) (run_cl_io c (ys_client y))" if "undisturbed (ys_trace y)"
  proof -
    have "c \<noteq> Io_stop" "c \<noteq> Io_invalidate" using cl_io that by (auto simp: link_inv_def)
    moreover have "io_peer d \<noteq> Some k" if "cl_connecting_socket (ys_client y) = Some k" "d \<in> set cs" for k d
      using that shape(2) cl_io(1) by (auto simp: numbering_def)
    ultimately show ?thesis
      using shape(1) cl_io(1) link_sound_io[of "ys_client y" cs c] by (auto simp: cl_shape_def)
  qed
  then show ?case
    using cl_io shape cl_shape_step[OF cl_step.cl_io[OF cl_io(1)] shape(1)]
    by (intro link_inv_apply[OF cl_io(2)] numbers_sound_io) auto
next
  case (cl_task y c cs now)
  then show ?case
    using cl_shape_step[OF cl_step.cl_task[OF cl_task(1)]] by (intro link_inv_task[OF cl_task(2) _ refl]) (auto simp: link_inv_def)
next
  case (cl_delayed y d1 c d2 now)
  then have "task_signals c = []" by (auto simp: link_inv_def cl_shape_def task_signals_def)
  with cl_delayed show ?case
    using cl_shape_step[OF cl_step.cl_delayed[OF cl_delayed(1)]]
    by (intro link_inv_task[OF cl_delayed(2) _ refl]) (auto simp: link_inv_def)
next
  case (cl_completed y k1 k k2 err cred)
  then show ?case
    using cl_shape_step[OF cl_step.cl_completed[OF cl_completed(1)]]
    by (intro link_inv_apply[OF cl_completed(2)] numbers_sound_other) (auto simp: link_inv_def link_sound_completed)
next
  case (cl_timeout y i)
  then show ?case
    using cl_shape_step[OF cl_step.cl_timeout]
    by (intro link_inv_apply[OF cl_timeout] numbers_sound_other) (auto simp: link_inv_def link_sound_timeout)
qed

lemma link_inv_initial: "cl_initial y \<Longrightarrow> link_inv y"
  using cl_initial_retry
  by (auto simp: cl_initial_def link_inv_def numbering_def stream_client_new_def link_state_def)

interpretation cl_sessions: step_invariant "cl_step verify" cl_initial link_inv
  for verify
  by unfold_locales (auto intro: link_inv_initial link_inv_step)

text \<open>
  A stream client reports its connections as sessions: under every interleaving of its two threads, of connection attempts,
  peers, timeouts and requests, as long as the application neither stops it nor invalidates the connection,
  \<^verbatim>\<open>connected\<close> is never signalled twice without \<^verbatim>\<open>closed\<close> in between, and messages, requests, errors of the
  connection and answers are signalled only between \<^verbatim>\<open>connected\<close> and \<^verbatim>\<open>closed\<close>. When nothing is queued, a session is open
  only while there is a connection.
\<close>

theorem stream_client_sessions:
  assumes "cl_initial y" and "rtranclp (cl_step verify) y z" and "undisturbed (ys_trace z)"
  shows "\<exists>up. link_run (emitted (ys_trace z)) False = Some up \<and>
    (ys_tasks z = [] \<and> up \<longrightarrow> cl_peer (ys_client z) \<noteq> None)"
proof -
  have "link_inv z" using cl_sessions.reachable assms by blast
  then obtain v where "link_run (emitted (ys_trace z) @ queued (ys_tasks z)) False = Some v"
    "link_state v (cl_peer (ys_client z)) (ys_io z)"
    using assms(3) by (auto simp: link_inv_def)
  then show ?thesis
    by (cases "link_run (emitted (ys_trace z)) False"; cases "cl_peer (ys_client z)")
      (auto simp: link_run_append link_state_def)
qed

section \<open>Runs by moves\<close>

text \<open>A run given by its moves, each of which is a step if it is possible.\<close>

datatype client_move =
    Cm_call cl_task
  | Cm_task
  | Cm_io
  | Cm_connected peer_credentials
  | Cm_peer_request nat u64 bytes

definition cl_move :: "client_move \<Rightarrow> cl_system \<Rightarrow> cl_system" where
  "cl_move m y =
     (case m of
        Cm_call t \<Rightarrow> if t \<in> {Cl_start, Cl_stop, Cl_invalidate} then y\<lparr>ys_tasks := ys_tasks y @ [t]\<rparr> else y
      | Cm_task \<Rightarrow>
          (case ys_tasks y of [] \<Rightarrow> y
           | c # cs \<Rightarrow> cl_apply (run_cl_task (\<lambda>_. True) 0 True c (ys_client y)) (y\<lparr>ys_tasks := cs\<rparr>))
      | Cm_io \<Rightarrow>
          (case ys_io y of [] \<Rightarrow> y
           | c # cs \<Rightarrow> cl_apply (run_cl_io c (ys_client y))
               (y\<lparr>ys_io := cs, ys_requested := ys_requested y @ (case c of Io_request b w cb \<Rightarrow> [cb] | _ \<Rightarrow> [])\<rparr>))
      | Cm_connected cred \<Rightarrow>
          (case ys_connects y of [] \<Rightarrow> y
           | k # ks \<Rightarrow> cl_apply (connect_completed True k None cred (ys_client y)) (y\<lparr>ys_connects := ks\<rparr>))
      | Cm_peer_request p i b \<Rightarrow>
          if Peer_create p \<in> set (ys_trace y) then y\<lparr>ys_io := ys_io y @ [Io_request_received p i b]\<rparr> else y)"

lemma cl_move_step: "cl_move m y = y \<or> cl_step (\<lambda>_. True) y (cl_move m y)"
proof (cases m)
  case (Cm_connected cred)
  then show ?thesis
    using cl_completed[of y "[]" _ _ "\<lambda>_. True" None cred] by (simp add: cl_move_def split: list.splits)
next
  case (Cm_peer_request p i b)
  then show ?thesis
    using cl_post[of "Io_request_received p i b" y] by (auto simp: cl_move_def peer_posts_def)
qed (auto simp: cl_move_def peer_posts_def split: list.splits intro: cl_step.intros)

lemma cl_moves_reachable: "rtranclp (cl_step (\<lambda>_. True)) y (fold cl_move ms y)"
proof (induction ms arbitrary: y)
  case (Cons m ms)
  then show ?case using cl_move_step[of m y] by (metis converse_rtranclp_into_rtranclp fold_simps(2))
qed simp

lemma cl_example_initial: "cl_initial cl_example"
  by (auto simp: cl_initial_def cl_example_def)

text \<open>A client connects and receives a status message.\<close>

definition status_moves :: "client_move list" where
  "status_moves = [Cm_call Cl_start, Cm_task, Cm_io, Cm_connected \<lparr>pc_pid = None, pc_uid = None, pc_gid = None\<rparr>, Cm_task,
     Cm_io, Cm_io, Cm_task, Cm_peer_request 0 1 [5, 1], Cm_io, Cm_task]"

lemmas cl_evals = cl_move_def cl_apply_def run_cl_task_def run_cl_io_def io_connect_def connect_completed_def
  handle_connected_socket_def cl_example_def stream_client_new_def

lemma status_moves_trace:
  "emitted (ys_trace (fold cl_move status_moves cl_example)) =
     [St_connected \<lparr>pc_pid = None, pc_uid = None, pc_gid = None\<rparr>, St_request_received 1 [5, 1]] \<and>
   undisturbed (ys_trace (fold cl_move status_moves cl_example)) \<and> ys_tasks (fold cl_move status_moves cl_example) = []"
  by (simp add: status_moves_def cl_evals undisturbed_def)

theorem stream_client_sessions_witness:
  "cl_peer (ys_client (fold cl_move status_moves cl_example)) \<noteq> None"
  using stream_client_sessions[OF cl_example_initial cl_moves_reachable, of status_moves] status_moves_trace
  by (auto simp: link_step_def link_event_def)

section \<open>The service client on top\<close>

text \<open>
  The slots that \<^verbatim>\<open>create_client\<close> connects and the callback of a request: each enqueues a task of the service client; plain
  messages have no slot. \<open>code\<close> gives the number of an error.
\<close>

definition slot_task :: "(asio_error \<Rightarrow> error_code) \<Rightarrow> cl_signal \<Rightarrow> client_task option" where
  "slot_task code s =
     (case s of
        St_connected cred \<Rightarrow> Some Task_connected
      | St_connect_failed e \<Rightarrow> Some (Task_connect_failed (code e))
      | St_closed \<Rightarrow> Some Task_closed
      | St_error_occurred e \<Rightarrow> Some (Task_error_occurred (code e))
      | St_peer_verification_failed cred \<Rightarrow> Some Task_peer_verification_failed
      | St_request_received i b \<Rightarrow> Some (Task_request_received (unat i) b)
      | St_received b \<Rightarrow> None
      | St_callback (Callback cb err data) \<Rightarrow>
          Some (Task_response (case err of None \<Rightarrow> 0 | Some e \<Rightarrow> code e) (case data of None \<Rightarrow> [] | Some b \<Rightarrow> b)))"

definition from_stream :: "client_task \<Rightarrow> bool" where
  "from_stream t \<longleftrightarrow> (case t of Task_start \<Rightarrow> False | Task_stop \<Rightarrow> False | Task_request b \<Rightarrow> False | _ \<Rightarrow> True)"

text \<open>The dispatcher runs tasks of the service client one after the other.\<close>

primrec client_run :: "client_task list \<Rightarrow> service_client \<Rightarrow> service_client \<times> client_effect list" where
  "client_run [] c = (c, [])"
| "client_run (t # ts) c =
     (let (c1, e1) = run_client_task t c; (c2, e2) = client_run ts c1 in (c2, e1 @ e2))"

text \<open>Whether the last of the signals \<^verbatim>\<open>connected\<close> and \<^verbatim>\<open>closed\<close> was \<^verbatim>\<open>connected\<close>.\<close>

primrec connected_shown :: "client_effect list \<Rightarrow> bool \<Rightarrow> bool" where
  "connected_shown [] b = b"
| "connected_shown (e # es) b =
     connected_shown es (if e = Emit Sig_connected then True else if e = Emit Sig_closed then False else b)"

lemma connected_shown_append [simp]: "connected_shown (xs @ ys) b = connected_shown ys (connected_shown xs b)"
  by (induction xs arbitrary: b) simp_all

lemma handle_message_connected:
  assumes "handle_message buffer c = (c', e)"
  shows "connected_shown e b = b"
proof -
  have item: "connected_shown (snd (handle_item code v c)) b = b" for code v c b
    by (simp add: handle_item_def split: option.split response.split)
  have "connected_shown (snd (handle_items bs c)) b = b" for bs c b
  proof (induction bs c rule: handle_items.induct)
    case (1 code v bs c)
    obtain c1 e1 where i: "handle_item code v c = (c1, e1)" by fastforce
    obtain c2 e2 where "handle_items bs c1 = (c2, e2)" by fastforce
    then show ?case using 1[OF i[symmetric] refl] item[of code v c b] by (simp add: i)
  qed simp_all
  from this[of buffer c b] show ?thesis using assms by (auto simp: handle_message_def split: if_splits)
qed

text \<open>
  A ready signal and the session: in a session anything may be shown, the end of it takes the signal back, and outside of it
  nothing shows it. \<open>b\<close> is what was shown before.
\<close>

lemma slot_task_shown:
  assumes "slot_task code s = Some t" "link_step s up = Some up'" "run_client_task t c = (c', e)" "\<forall>x. code x \<noteq> 0"
    and "sig = Sig_virtual_hid_keyboard_ready \<or> sig = Sig_virtual_hid_pointing_ready" "b \<longrightarrow> up"
  shows "connected_shown e up = up'" "shown sig e b \<longrightarrow> up'"
  using assms handle_message_connected
  by (auto simp: slot_task_def link_step_def link_event_def clear_state_def
      split: cl_signal.splits callback_call.splits option.splits if_splits prod.splits)

lemma client_run_shown:
  assumes "filter from_stream ts = map (the \<circ> slot_task code) ss" "\<forall>s\<in>set ss. slot_task code s \<noteq> None"
    and "link_run ss up = Some v" "client_run ts c = (c', e)" "\<forall>x. code x \<noteq> 0" "Task_stop \<notin> set ts"
    and "sig = Sig_virtual_hid_keyboard_ready \<or> sig = Sig_virtual_hid_pointing_ready" "b \<longrightarrow> up"
  shows "connected_shown e up = v \<and> (shown sig e b \<longrightarrow> v)"
  using assms
proof (induction ts arbitrary: ss up c b e)
  case (Cons t ts)
  obtain c1 e1 e2 where r: "run_client_task t c = (c1, e1)" "client_run ts c1 = (c', e2)" "e = e1 @ e2"
    using Cons.prems(4) by (auto split: prod.splits)
  show ?case
  proof (cases "from_stream t")
    case True
    then obtain s ss' where s: "ss = s # ss'" "slot_task code s = Some t" using Cons.prems(1,2) by (cases ss) auto
    then obtain w where w: "link_step s up = Some w" "link_run ss' w = Some v"
      using Cons.prems(3) by (cases "link_step s up") auto
    note one = slot_task_shown[OF s(2) w(1) r(1) Cons.prems(5,7,8)]
    show ?thesis
      using Cons.IH[of ss' w c1 e2 "shown sig e1 b"] Cons.prems True s w(2) r one by auto
  next
    case False
    then have "connected_shown e1 up = up" "shown sig e1 b = b"
      using r(1) Cons.prems(6,7)
      by (auto simp: from_stream_def create_client_def split: client_task.splits if_splits)
    then show ?thesis using Cons.IH[of ss up c1 e2 b] Cons.prems False r by auto
  qed
qed simp

lemma link_run_slots:
  "link_run ss up = Some v \<Longrightarrow> link_run (filter (\<lambda>s. slot_task code s \<noteq> None) ss) up = Some v"
proof (induction ss arbitrary: up)
  case (Cons s ss)
  then obtain w where w: "link_step s up = Some w" "link_run ss w = Some v" by (cases "link_step s up") auto
  have "w = up" if "slot_task code s = None"
    using that w(1) by (auto simp: slot_task_def link_step_def link_event_def split: cl_signal.splits callback_call.splits if_splits)
  then show ?case using Cons.IH[OF w(2)] w(1) by auto
qed simp

text \<open>
  C12. The client library never says that a device is ready without a connection: whatever the stream client goes through, and however
  the closures of the library's methods and of the slots are mixed, as long as the application has not stopped it, the last signal
  about a device is ready only if the last signal about the connection is \<^verbatim>\<open>connected\<close>. The closures of the
  slots run in the order of the signals, of which any number may have been handled.
\<close>

theorem ready_only_while_connected:
  assumes "cl_initial y" and "rtranclp (cl_step verify) y z" and "undisturbed (ys_trace z)"
    and "filter from_stream ts = List.map_filter (slot_task code) (take n (emitted (ys_trace z)))"
    and "Task_stop \<notin> set ts" and "\<forall>x. code x \<noteq> 0"
    and "client_run ts service_client_init = (c, e)"
  shows "shown Sig_virtual_hid_keyboard_ready e False \<or> shown Sig_virtual_hid_pointing_ready e False \<longrightarrow>
    connected_shown e False"
proof -
  let ?ss = "take n (emitted (ys_trace z))"
  obtain up where "link_run (emitted (ys_trace z)) False = Some up"
    using cl_sessions.reachable[OF assms(1,2)] assms(3) by (auto simp: link_inv_def link_run_append split: bind_splits)
  then obtain v where "link_run ?ss False = Some v"
    by (metis append_take_drop_id bind_eq_Some_conv link_run_append)
  then have "link_run (filter (\<lambda>s. slot_task code s \<noteq> None) ?ss) False = Some v" by (rule link_run_slots)
  moreover have "filter from_stream ts = map (the \<circ> slot_task code) (filter (\<lambda>s. slot_task code s \<noteq> None) ?ss)"
    using assms(4) by (simp add: List.map_filter_def)
  moreover have "\<forall>s\<in>set (filter (\<lambda>s. slot_task code s \<noteq> None) ?ss). slot_task code s \<noteq> None" by simp
  ultimately have "connected_shown e False = v \<and> (shown sig e False \<longrightarrow> v)"
    if "sig = Sig_virtual_hid_keyboard_ready \<or> sig = Sig_virtual_hid_pointing_ready" for sig
    using client_run_shown[OF _ _ _ assms(7,6,5) that] by blast
  then show ?thesis by blast
qed

theorem ready_only_while_connected_witness:
  "\<exists>c e. client_run [Task_start, Task_connected, Task_request [], Task_request_received 1 [5, 1]] service_client_init = (c, e) \<and>
     shown Sig_virtual_hid_pointing_ready e False \<and> connected_shown e False"
proof -
  let ?ts = "[Task_start, Task_connected, Task_request [], Task_request_received 1 [5, 1]]"
  obtain c e where r: "client_run ?ts service_client_init = (c, e)" by fastforce
  have s: "shown Sig_virtual_hid_pointing_ready e False"
    using r by (auto simp: service_client_init_def create_client_def handle_message_def handle_item_def response_of_value_def
        all_responses_def)
  have f: "filter from_stream ?ts =
      List.map_filter (slot_task (\<lambda>_. 1)) (take 2 (emitted (ys_trace (fold cl_move status_moves cl_example))))"
    unfolding conjunct1[OF status_moves_trace] by (simp add: from_stream_def slot_task_def List.map_filter_def)
  from ready_only_while_connected[OF cl_example_initial cl_moves_reachable _ f _ _ r] r s status_moves_trace
  show ?thesis by auto
qed

text \<open>
  C40. A status message that a stop overtakes survives it: when the stream client has signalled a status message and \<^verbatim>\<open>async_stop\<close> was
  called before the closure of its slot ran, the stop destroys the stream client and takes the ready signals back,
  and then the closure reports the device ready although there is no connection any more. After the next start
  the stale flag is still there, so the \<^verbatim>\<open>async_virtual_hid_pointing_initialize\<close> an application calls when it is connected
  is dropped.
\<close>

theorem status_survives_stop:
  "\<exists>c1 e1 c2 e2.
    client_run [Task_stop, Task_request_received i [response_value virtual_hid_pointing_ready, 1]] c = (c1, e1) \<and>
    \<not> sc_client c1 \<and> shown Sig_virtual_hid_pointing_ready e1 False \<and>
    client_run [Task_start, Task_connected] c1 = (c2, e2) \<and> sc_client c2 \<and>
    async_virtual_hid_pointing_initialize False c2 = (c2, [])"
  by (simp add: destroy_client_def clear_state_def create_client_def handle_message_def handle_item_def
      response_of_value_def all_responses_def async_virtual_hid_pointing_initialize_def)

end
