(* ===== verification/Io_Service_Client.thy ===== *)
theory Io_Service_Client
  imports Service_Protocol Driver_Interface
begin

text \<open>
  The daemon's connection to the driver, \<^verbatim>\<open>Daemon/include/io_service_client.hpp\<close>: it follows the services
  of the driver that appear and terminate, keeps one connection open, checks the driver's version and
  passes calls and reports on.

  IOKit is a parameter, the record \<open>iokit\<close>; its functions change an abstract world. The object's state
  carries that world, the IOKit calls made so far (\<open>ioc_calls\<close>, oldest first) and the closures the
  object has enqueued on the dispatcher and that did not run yet (\<open>ioc_queue\<close>). The mutexes only guard
  single reads and writes of fields that the dispatcher thread owns; log output is left out.
\<close>

section \<open>The IOKit interface\<close>

record 'w iokit =
  io_service_open :: "u32 \<Rightarrow> 'w \<Rightarrow> (kern_return \<times> u32) \<times> 'w"
    \<comment> \<open>\<^verbatim>\<open>IOServiceOpen\<close> of a service: the connection\<close>
  io_service_close :: "u32 \<Rightarrow> 'w \<Rightarrow> 'w"
  io_call_scalar :: "u32 \<Rightarrow> u32 \<Rightarrow> u64 list \<Rightarrow> 'w \<Rightarrow> (kern_return \<times> u64) \<times> 'w"
    \<comment> \<open>\<^verbatim>\<open>IOConnectCallScalarMethod\<close>: connection, selector, input; the first output scalar\<close>
  io_call_struct :: "u32 \<Rightarrow> u32 \<Rightarrow> bytes \<Rightarrow> 'w \<Rightarrow> kern_return \<times> 'w"
    \<comment> \<open>\<^verbatim>\<open>IOConnectCallStructMethod\<close>: connection, selector, input bytes\<close>
  io_matching_service :: "string \<Rightarrow> 'w \<Rightarrow> bool"
    \<comment> \<open>whether \<^verbatim>\<open>IOServiceGetMatchingService\<close> finds a service of the name\<close>
  io_name_matching :: "string \<Rightarrow> 'w \<Rightarrow> bool"
    \<comment> \<open>whether \<^verbatim>\<open>IOServiceNameMatching\<close> returns a dictionary\<close>

datatype io_call =
    Io_open u32 u32
  | Io_close u32
  | Io_scalar u32 u32 "u64 list"
  | Io_struct u32 u32 bytes

section \<open>State\<close>

record matched_service =
  ms_registry_entry_id :: u64
  ms_service :: u32
  ms_opened :: bool
  ms_invalidated :: bool

definition matched_service_new :: "u64 \<Rightarrow> u32 \<Rightarrow> matched_service" where
  "matched_service_new registry_entry_id service =
     \<lparr>ms_registry_entry_id = registry_entry_id, ms_service = service, ms_opened = False, ms_invalidated = False\<rparr>"

datatype ioc_task =
    Ioc_start
  | Ioc_keyboard_initialize virtual_hid_keyboard_parameters
  | Ioc_keyboard_ready
  | Ioc_set_keyboard_ready "bool option"
  | Ioc_keyboard_reset
  | Ioc_pointing_initialize
  | Ioc_pointing_ready
  | Ioc_set_pointing_ready "bool option"
  | Ioc_pointing_reset
  | Ioc_post_report user_client_method "bytes option" nat
  | Ioc_opened
  | Ioc_closed
  | Ioc_state_changed

datatype ioc_signal = Ioc_sig_opened | Ioc_sig_closed | Ioc_sig_state_changed

text \<open>\<open>ioc_connection\<close> is the \<^verbatim>\<open>iokit_object_ptr\<close>, 0 for the null object.\<close>

record 'w ioc =
  ioc_monitor :: bool
  ioc_services :: "matched_service list"
  ioc_connection :: u32
  ioc_driver_version :: "driver_version option"
  ioc_keyboard_ready :: "bool option"
  ioc_pointing_ready :: "bool option"
  ioc_queue :: "ioc_task list"
  ioc_calls :: "io_call list"
  ioc_world :: 'w

definition ioc_init :: "'w \<Rightarrow> 'w ioc" where
  "ioc_init w = \<lparr>ioc_monitor = False, ioc_services = [], ioc_connection = 0, ioc_driver_version = None,
     ioc_keyboard_ready = None, ioc_pointing_ready = None, ioc_queue = [], ioc_calls = [], ioc_world = w\<rparr>"

definition ioc_service_name :: string where
  "ioc_service_name = ''org_pqrs_Karabiner_DriverKit_VirtualHIDDeviceRoot''"

definition ioc_enqueue :: "ioc_task \<Rightarrow> 'w ioc \<Rightarrow> 'w ioc" where
  "ioc_enqueue task s = s\<lparr>ioc_queue := ioc_queue s @ [task]\<rparr>"

section \<open>The matched services\<close>

definition matched_services_insert :: "u64 \<Rightarrow> u32 \<Rightarrow> matched_service list \<Rightarrow> matched_service list" where
  "matched_services_insert registry_entry_id service services =
     (if list_ex (\<lambda>m. ms_registry_entry_id m = registry_entry_id) services then services
      else services @ [matched_service_new registry_entry_id service])"

definition matched_services_erase :: "u64 \<Rightarrow> matched_service list \<Rightarrow> matched_service list" where
  "matched_services_erase registry_entry_id services =
     filter (\<lambda>m. ms_registry_entry_id m \<noteq> registry_entry_id) services"

definition matched_services_find :: "u64 \<Rightarrow> matched_service list \<Rightarrow> matched_service option" where
  "matched_services_find registry_entry_id services =
     find (\<lambda>m. ms_registry_entry_id m = registry_entry_id) services"

definition matched_services_find_opened :: "matched_service list \<Rightarrow> matched_service option" where
  "matched_services_find_opened services = find ms_opened services"

text \<open>The elements are shared objects: a change of the one that \<^verbatim>\<open>find\<close> returned is a change in the list.\<close>

primrec update_first ::
  "(matched_service \<Rightarrow> bool) \<Rightarrow> (matched_service \<Rightarrow> matched_service) \<Rightarrow>
   matched_service list \<Rightarrow> matched_service list" where
  "update_first P f [] = []"
| "update_first P f (m # ms) = (if P m then f m # ms else m # update_first P f ms)"

section \<open>Queries\<close>

definition ioc_driver_activated :: "'w iokit \<Rightarrow> 'w ioc \<Rightarrow> bool" where
  "ioc_driver_activated env s = io_matching_service env ioc_service_name (ioc_world s)"

definition ioc_driver_connected :: "'w ioc \<Rightarrow> bool" where
  "ioc_driver_connected s \<longleftrightarrow> ioc_driver_version s \<noteq> None"

definition ioc_driver_version_mismatched :: "'w ioc \<Rightarrow> bool" where
  "ioc_driver_version_mismatched s =
     (if ioc_driver_version s = None then False
      else if ioc_driver_version s = Some embedded_driver_version then False
      else True)"

definition get_virtual_hid_keyboard_ready :: "'w ioc \<Rightarrow> bool option" where
  "get_virtual_hid_keyboard_ready s =
     (if \<not> ioc_driver_connected s \<or> ioc_driver_version_mismatched s then None else ioc_keyboard_ready s)"

definition get_virtual_hid_pointing_ready :: "'w ioc \<Rightarrow> bool option" where
  "get_virtual_hid_pointing_ready s =
     (if \<not> ioc_driver_connected s \<or> ioc_driver_version_mismatched s then None else ioc_pointing_ready s)"

section \<open>Setters\<close>

definition set_driver_version :: "driver_version option \<Rightarrow> 'w ioc \<Rightarrow> 'w ioc" where
  "set_driver_version v s =
     (if ioc_driver_version s \<noteq> v then ioc_enqueue Ioc_state_changed (s\<lparr>ioc_driver_version := v\<rparr>) else s)"

definition set_virtual_hid_keyboard_ready :: "bool option \<Rightarrow> 'w ioc \<Rightarrow> 'w ioc" where
  "set_virtual_hid_keyboard_ready v s =
     (if ioc_keyboard_ready s \<noteq> v then ioc_enqueue Ioc_state_changed (s\<lparr>ioc_keyboard_ready := v\<rparr>) else s)"

definition set_virtual_hid_pointing_ready :: "bool option \<Rightarrow> 'w ioc \<Rightarrow> 'w ioc" where
  "set_virtual_hid_pointing_ready v s =
     (if ioc_pointing_ready s \<noteq> v then ioc_enqueue Ioc_state_changed (s\<lparr>ioc_pointing_ready := v\<rparr>) else s)"

section \<open>Calls into IOKit\<close>

definition do_open :: "'w iokit \<Rightarrow> u32 \<Rightarrow> 'w ioc \<Rightarrow> (kern_return \<times> u32) \<times> 'w ioc" where
  "do_open env service s =
     (let ((kr, conn), w) = io_service_open env service (ioc_world s);
          s1 = s\<lparr>ioc_world := w\<rparr>
      in ((kr, conn),
          if kr = kIOReturnSuccess then s1\<lparr>ioc_calls := ioc_calls s1 @ [Io_open service conn]\<rparr> else s1))"

definition do_close :: "'w iokit \<Rightarrow> u32 \<Rightarrow> 'w ioc \<Rightarrow> 'w ioc" where
  "do_close env conn s =
     s\<lparr>ioc_world := io_service_close env conn (ioc_world s), ioc_calls := ioc_calls s @ [Io_close conn]\<rparr>"

definition do_scalar ::
  "'w iokit \<Rightarrow> u32 \<Rightarrow> user_client_method \<Rightarrow> u64 list \<Rightarrow> 'w ioc \<Rightarrow> (kern_return \<times> u64) \<times> 'w ioc" where
  "do_scalar env conn method input s =
     (let (r, w) = io_call_scalar env conn (method_value method) input (ioc_world s)
      in (r, s\<lparr>ioc_world := w, ioc_calls := ioc_calls s @ [Io_scalar conn (method_value method) input]\<rparr>))"

definition do_struct ::
  "'w iokit \<Rightarrow> u32 \<Rightarrow> user_client_method \<Rightarrow> bytes \<Rightarrow> 'w ioc \<Rightarrow> kern_return \<times> 'w ioc" where
  "do_struct env conn method input s =
     (let (r, w) = io_call_struct env conn (method_value method) input (ioc_world s)
      in (r, s\<lparr>ioc_world := w, ioc_calls := ioc_calls s @ [Io_struct conn (method_value method) input]\<rparr>))"

definition call_driver_version :: "'w iokit \<Rightarrow> u32 \<Rightarrow> 'w ioc \<Rightarrow> driver_version option \<times> 'w ioc" where
  "call_driver_version env connection s =
     (if connection = 0 then (None, s)
      else
        (let ((kr, output), s1) = do_scalar env connection method_driver_version [] s
         in if kr \<noteq> kIOReturnSuccess then (None, s1) else (Some (Driver_version output), s1)))"

definition ioc_call :: "'w iokit \<Rightarrow> user_client_method \<Rightarrow> 'w ioc \<Rightarrow> kern_return \<times> 'w ioc" where
  "ioc_call env method s =
     (if ioc_connection s = 0 then (kIOReturnNotOpen, s)
      else if \<not> ioc_driver_connected s \<or> ioc_driver_version_mismatched s then (kIOReturnError, s)
      else do_struct env (ioc_connection s) method [] s)"

definition call_scalar_method ::
  "'w iokit \<Rightarrow> user_client_method \<Rightarrow> u64 list \<Rightarrow> 'w ioc \<Rightarrow> kern_return \<times> 'w ioc" where
  "call_scalar_method env method input s =
     (if ioc_connection s = 0 then (kIOReturnNotOpen, s)
      else if \<not> ioc_driver_connected s \<or> ioc_driver_version_mismatched s then (kIOReturnError, s)
      else (let ((kr, v), s1) = do_scalar env (ioc_connection s) method input s in (kr, s1)))"

definition call_ready :: "'w iokit \<Rightarrow> user_client_method \<Rightarrow> 'w ioc \<Rightarrow> bool option \<times> 'w ioc" where
  "call_ready env method s =
     (if ioc_connection s = 0 then (None, s)
      else if \<not> ioc_driver_connected s \<or> ioc_driver_version_mismatched s then (None, s)
      else
        (let ((kr, output), s1) = do_scalar env (ioc_connection s) method [] s
         in if kr \<noteq> kIOReturnSuccess then (None, s1) else (Some (output \<noteq> 0), s1)))"

definition ioc_post_report ::
  "'w iokit \<Rightarrow> user_client_method \<Rightarrow> bytes \<Rightarrow> 'w ioc \<Rightarrow> kern_return \<times> 'w ioc" where
  "ioc_post_report env method report s =
     (if ioc_connection s = 0 then (kIOReturnNotOpen, s)
      else if \<not> ioc_driver_connected s \<or> ioc_driver_version_mismatched s then (kIOReturnError, s)
      else do_struct env (ioc_connection s) method report s)"

section \<open>Opening and closing the connection\<close>

text \<open>
  The loop of \<^verbatim>\<open>open_connection\<close> over the matched services. It returns the services with their flags
  changed, and stops at the first one that opens and reports a version.
\<close>

primrec open_services ::
  "'w iokit \<Rightarrow> matched_service list \<Rightarrow> 'w ioc \<Rightarrow> matched_service list \<times> 'w ioc" where
  "open_services env [] s = ([], s)"
| "open_services env (m # ms) s =
     (if ms_invalidated m then
        (let (ms', s') = open_services env ms s in (m # ms', s'))
      else
        (let ((kr, new_connection), s1) = do_open env (ms_service m) s
         in if kr \<noteq> kIOReturnSuccess then
              (let (ms', s') = open_services env ms s1 in (m # ms', s'))
            else
              (let (v, s2) = call_driver_version env new_connection s1;
                   s3 = set_driver_version v s2
               in if v = None then
                    (let (ms', s') = open_services env ms (do_close env new_connection s3)
                     in (m\<lparr>ms_invalidated := True\<rparr> # ms', s'))
                  else
                    (m\<lparr>ms_opened := True\<rparr> # ms,
                     ioc_enqueue Ioc_opened (s3\<lparr>ioc_connection := new_connection\<rparr>)))))"

definition clear_driver_state :: "'w ioc \<Rightarrow> 'w ioc" where
  "clear_driver_state s =
     set_virtual_hid_pointing_ready None (set_virtual_hid_keyboard_ready None (set_driver_version None s))"

definition open_connection :: "'w iokit \<Rightarrow> 'w ioc \<Rightarrow> 'w ioc" where
  "open_connection env s =
     (if ioc_connection s \<noteq> 0 then s
      else
        (let (services, s1) = open_services env (ioc_services s) (clear_driver_state s)
         in s1\<lparr>ioc_services := services\<rparr>))"

definition close_connection :: "'w iokit \<Rightarrow> u64 \<Rightarrow> 'w ioc \<Rightarrow> 'w ioc" where
  "close_connection env registry_entry_id s =
     (case matched_services_find registry_entry_id (ioc_services s) of
        None \<Rightarrow> s
      | Some m \<Rightarrow>
          if \<not> ms_opened m then s
          else
            (let s1 = s\<lparr>ioc_services := update_first (\<lambda>m. ms_registry_entry_id m = registry_entry_id)
                          (\<lambda>m. m\<lparr>ms_opened := False\<rparr>) (ioc_services s)\<rparr>
             in if ioc_connection s1 = 0 then s1
                else
                  (let s2 = (do_close env (ioc_connection s1) s1)\<lparr>ioc_connection := 0\<rparr>
                   in clear_driver_state (ioc_enqueue Ioc_closed s2))))"

section \<open>Slots, closures and the destructor\<close>

definition ioc_service_matched :: "'w iokit \<Rightarrow> u64 \<Rightarrow> u32 \<Rightarrow> 'w ioc \<Rightarrow> 'w ioc" where
  "ioc_service_matched env registry_entry_id service s =
     (let s1 = s\<lparr>ioc_services := matched_services_insert registry_entry_id service (ioc_services s)\<rparr>
      in ioc_enqueue Ioc_state_changed (open_connection env s1))"

definition ioc_service_terminated :: "'w iokit \<Rightarrow> u64 \<Rightarrow> 'w ioc \<Rightarrow> 'w ioc" where
  "ioc_service_terminated env registry_entry_id s =
     (let s1 = close_connection env registry_entry_id s;
          s2 = s1\<lparr>ioc_services := matched_services_erase registry_entry_id (ioc_services s1)\<rparr>
      in ioc_enqueue Ioc_state_changed (open_connection env s2))"

definition ioc_destroy :: "'w iokit \<Rightarrow> 'w ioc \<Rightarrow> 'w ioc" where
  "ioc_destroy env s =
     (let s1 = (case matched_services_find_opened (ioc_services s) of
                  None \<Rightarrow> s
                | Some m \<Rightarrow> close_connection env (ms_registry_entry_id m) s)
      in s1\<lparr>ioc_monitor := False\<rparr>)"

text \<open>What the dispatcher thread does with an enqueued closure: the new state and the signals emitted.\<close>

definition run_ioc_task :: "'w iokit \<Rightarrow> ioc_task \<Rightarrow> 'w ioc \<Rightarrow> 'w ioc \<times> ioc_signal list" where
  "run_ioc_task env task s =
     (case task of
        Ioc_start \<Rightarrow>
          ((if io_name_matching env ioc_service_name (ioc_world s) then s\<lparr>ioc_monitor := True\<rparr> else s), [])
      | Ioc_keyboard_initialize parameters \<Rightarrow>
          (snd (call_scalar_method env method_virtual_hid_keyboard_initialize
             [vendor_id parameters, product_id parameters, country_code parameters] s), [])
      | Ioc_keyboard_ready \<Rightarrow>
          (let (ready, s1) = call_ready env method_virtual_hid_keyboard_ready s
           in (ioc_enqueue (Ioc_set_keyboard_ready ready) s1, []))
      | Ioc_set_keyboard_ready ready \<Rightarrow> (set_virtual_hid_keyboard_ready ready s, [])
      | Ioc_keyboard_reset \<Rightarrow> (snd (ioc_call env method_virtual_hid_keyboard_reset s), [])
      | Ioc_pointing_initialize \<Rightarrow> (snd (ioc_call env method_virtual_hid_pointing_initialize s), [])
      | Ioc_pointing_ready \<Rightarrow>
          (let (ready, s1) = call_ready env method_virtual_hid_pointing_ready s
           in (ioc_enqueue (Ioc_set_pointing_ready ready) s1, []))
      | Ioc_set_pointing_ready ready \<Rightarrow> (set_virtual_hid_pointing_ready ready s, [])
      | Ioc_pointing_reset \<Rightarrow> (snd (ioc_call env method_virtual_hid_pointing_reset s), [])
      | Ioc_post_report method report_buffer report_offset \<Rightarrow>
          (case report_buffer of
             None \<Rightarrow> (s, [])
           | Some buffer \<Rightarrow>
               if report_offset > length buffer then (s, [])
               else (snd (ioc_post_report env method (drop report_offset buffer) s), []))
      | Ioc_opened \<Rightarrow> (s, [Ioc_sig_opened])
      | Ioc_closed \<Rightarrow> (s, [Ioc_sig_closed])
      | Ioc_state_changed \<Rightarrow> (s, [Ioc_sig_state_changed]))"

section \<open>The invariant\<close>

text \<open>How often a connection was opened and not yet closed.\<close>

primrec open_balance :: "u32 \<Rightarrow> io_call list \<Rightarrow> int" where
  "open_balance c [] = 0"
| "open_balance c (x # xs) = open_balance c xs +
     (case x of Io_open svc d \<Rightarrow> if d = c then 1 else 0
      | Io_close d \<Rightarrow> if d = c then -1 else 0
      | Io_scalar d sel i \<Rightarrow> 0 | Io_struct d sel b \<Rightarrow> 0)"

definition ioc_inv :: "'w ioc \<Rightarrow> bool" where
  "ioc_inv s \<longleftrightarrow>
     distinct (map ms_registry_entry_id (ioc_services s)) \<and>
     length (filter ms_opened (ioc_services s)) = (if ioc_connection s = 0 then 0 else 1) \<and>
     (\<forall>m\<in>set (ioc_services s). ms_opened m \<longrightarrow> \<not> ms_invalidated m) \<and>
     (ioc_driver_version s = None \<longleftrightarrow> ioc_connection s = 0) \<and>
     (\<forall>c. open_balance c (ioc_calls s) = (if c = ioc_connection s \<and> c \<noteq> 0 then 1 else 0))"

lemma open_balance_append [simp]: "open_balance c (xs @ ys) = open_balance c xs + open_balance c ys"
  by (induction xs) simp_all

lemma ioc_enqueue_frame [simp]:
  "ioc_services (ioc_enqueue k s) = ioc_services s" "ioc_connection (ioc_enqueue k s) = ioc_connection s"
  "ioc_driver_version (ioc_enqueue k s) = ioc_driver_version s" "ioc_calls (ioc_enqueue k s) = ioc_calls s"
  "ioc_keyboard_ready (ioc_enqueue k s) = ioc_keyboard_ready s"
  "ioc_pointing_ready (ioc_enqueue k s) = ioc_pointing_ready s"
  "ioc_world (ioc_enqueue k s) = ioc_world s" "ioc_monitor (ioc_enqueue k s) = ioc_monitor s"
  by (simp_all add: ioc_enqueue_def)

lemma set_driver_version_frame [simp]:
  "ioc_services (set_driver_version v s) = ioc_services s"
  "ioc_connection (set_driver_version v s) = ioc_connection s"
  "ioc_driver_version (set_driver_version v s) = v" "ioc_calls (set_driver_version v s) = ioc_calls s"
  "ioc_keyboard_ready (set_driver_version v s) = ioc_keyboard_ready s"
  "ioc_pointing_ready (set_driver_version v s) = ioc_pointing_ready s"
  "ioc_world (set_driver_version v s) = ioc_world s"
  by (simp_all add: set_driver_version_def)

lemma set_keyboard_ready_frame [simp]:
  "ioc_services (set_virtual_hid_keyboard_ready v s) = ioc_services s"
  "ioc_connection (set_virtual_hid_keyboard_ready v s) = ioc_connection s"
  "ioc_driver_version (set_virtual_hid_keyboard_ready v s) = ioc_driver_version s"
  "ioc_calls (set_virtual_hid_keyboard_ready v s) = ioc_calls s"
  "ioc_keyboard_ready (set_virtual_hid_keyboard_ready v s) = v"
  "ioc_pointing_ready (set_virtual_hid_keyboard_ready v s) = ioc_pointing_ready s"
  "ioc_world (set_virtual_hid_keyboard_ready v s) = ioc_world s"
  by (simp_all add: set_virtual_hid_keyboard_ready_def)

lemma set_pointing_ready_frame [simp]:
  "ioc_services (set_virtual_hid_pointing_ready v s) = ioc_services s"
  "ioc_connection (set_virtual_hid_pointing_ready v s) = ioc_connection s"
  "ioc_driver_version (set_virtual_hid_pointing_ready v s) = ioc_driver_version s"
  "ioc_calls (set_virtual_hid_pointing_ready v s) = ioc_calls s"
  "ioc_keyboard_ready (set_virtual_hid_pointing_ready v s) = ioc_keyboard_ready s"
  "ioc_pointing_ready (set_virtual_hid_pointing_ready v s) = v"
  "ioc_world (set_virtual_hid_pointing_ready v s) = ioc_world s"
  by (simp_all add: set_virtual_hid_pointing_ready_def)

lemma clear_driver_state_frame [simp]:
  "ioc_services (clear_driver_state s) = ioc_services s"
  "ioc_connection (clear_driver_state s) = ioc_connection s"
  "ioc_driver_version (clear_driver_state s) = None" "ioc_calls (clear_driver_state s) = ioc_calls s"
  "ioc_keyboard_ready (clear_driver_state s) = None" "ioc_pointing_ready (clear_driver_state s) = None"
  "ioc_world (clear_driver_state s) = ioc_world s"
  by (simp_all add: clear_driver_state_def)

lemma do_close_frame [simp]:
  "ioc_services (do_close env c s) = ioc_services s" "ioc_connection (do_close env c s) = ioc_connection s"
  "ioc_driver_version (do_close env c s) = ioc_driver_version s"
  "ioc_calls (do_close env c s) = ioc_calls s @ [Io_close c]"
  "ioc_keyboard_ready (do_close env c s) = ioc_keyboard_ready s"
  "ioc_pointing_ready (do_close env c s) = ioc_pointing_ready s"
  by (simp_all add: do_close_def)

text \<open>Fields that the calls into the driver leave alone.\<close>

definition ioc_same :: "'w ioc \<Rightarrow> 'w ioc \<Rightarrow> bool" where
  "ioc_same s s' \<longleftrightarrow> ioc_services s' = ioc_services s \<and> ioc_connection s' = ioc_connection s \<and>
     ioc_driver_version s' = ioc_driver_version s \<and> ioc_keyboard_ready s' = ioc_keyboard_ready s \<and>
     ioc_pointing_ready s' = ioc_pointing_ready s \<and> ioc_queue s' = ioc_queue s \<and>
     ioc_monitor s' = ioc_monitor s"

lemma do_open_effect:
  assumes "do_open env svc s = ((kr, conn), s')"
  shows "ioc_same s s'"
    and "ioc_calls s' = ioc_calls s @ (if kr = kIOReturnSuccess then [Io_open svc conn] else [])"
  using assms by (auto simp: do_open_def ioc_same_def Let_def split: prod.splits if_splits)

lemma do_scalar_effect:
  assumes "do_scalar env conn m input s = (r, s')"
  shows "ioc_same s s'" "ioc_calls s' = ioc_calls s @ [Io_scalar conn (method_value m) input]"
  using assms by (auto simp: do_scalar_def ioc_same_def split: prod.splits)

lemma do_struct_effect:
  assumes "do_struct env conn m input s = (r, s')"
  shows "ioc_same s s'" "ioc_calls s' = ioc_calls s @ [Io_struct conn (method_value m) input]"
  using assms by (auto simp: do_struct_def ioc_same_def split: prod.splits)

lemma call_driver_version_effect:
  assumes "call_driver_version env conn s = (v, s')"
  shows "ioc_same s s'"
    and "ioc_calls s' = ioc_calls s @ (if conn = 0 then [] else [Io_scalar conn 0 []])"
    and "v \<noteq> None \<Longrightarrow> conn \<noteq> 0"
  using assms
  by (auto simp: call_driver_version_def ioc_same_def Let_def split: prod.splits if_splits
      dest: do_scalar_effect)

text \<open>The result of the loop on services none of which is open, started without a connection.\<close>

definition opened_from :: "matched_service list \<Rightarrow> 'w ioc \<Rightarrow> matched_service list \<Rightarrow> 'w ioc \<Rightarrow> bool" where
  "opened_from ms s ms' s' \<longleftrightarrow>
     map ms_registry_entry_id ms' = map ms_registry_entry_id ms \<and>
     map ms_service ms' = map ms_service ms \<and>
     length (filter ms_opened ms') = (if ioc_connection s' = 0 then 0 else 1) \<and>
     (\<forall>m\<in>set ms'. ms_opened m \<longrightarrow> \<not> ms_invalidated m) \<and>
     (ioc_driver_version s' = None \<longleftrightarrow> ioc_connection s' = 0) \<and>
     (\<forall>c. open_balance c (ioc_calls s') =
        open_balance c (ioc_calls s) + (if c = ioc_connection s' \<and> c \<noteq> 0 then 1 else 0)) \<and>
     ioc_services s' = ioc_services s"

lemma opened_from_skip:
  assumes "opened_from ms t ms' s'" "\<not> ms_opened m'" "ms_registry_entry_id m' = ms_registry_entry_id m"
    "ms_service m' = ms_service m" "ioc_services t = ioc_services s"
    "\<And>c. open_balance c (ioc_calls t) = open_balance c (ioc_calls s)"
  shows "opened_from (m # ms) s (m' # ms') s'"
  using assms by (simp add: opened_from_def)

lemma open_services_effect:
  assumes "open_services env ms s = (ms', s')" "ioc_connection s = 0" "ioc_driver_version s = None"
    and "\<forall>m\<in>set ms. \<not> ms_opened m"
  shows "opened_from ms s ms' s'"
  using assms
proof (induction ms arbitrary: s ms' s')
  case Nil
  then show ?case by (simp add: opened_from_def)
next
  case (Cons m ms)
  have no: "\<not> ms_opened m" "\<forall>m\<in>set ms. \<not> ms_opened m" using Cons.prems(4) by auto
  obtain kr conn s1 where o: "do_open env (ms_service m) s = ((kr, conn), s1)" by (metis surj_pair)
  obtain v s2 where v: "call_driver_version env conn s1 = (v, s2)" by (metis surj_pair)
  note e = do_open_effect[OF o] call_driver_version_effect[OF v]
  consider (inv) "ms_invalidated m" | (fail) "\<not> ms_invalidated m" "kr \<noteq> kIOReturnSuccess"
    | (none) "\<not> ms_invalidated m" "kr = kIOReturnSuccess" "v = None"
    | (ok) w where "\<not> ms_invalidated m" "kr = kIOReturnSuccess" "v = Some w" by blast
  then show ?case
  proof cases
    case inv
    obtain ms1 t where r: "open_services env ms s = (ms1, t)" by (metis surj_pair)
    from Cons.IH[OF r Cons.prems(2,3) no(2)] have "opened_from (m # ms) s (m # ms1) t"
      using no by (intro opened_from_skip[of ms s]) auto
    with inv r Cons.prems(1) show ?thesis by simp
  next
    case fail
    obtain ms1 t where r: "open_services env ms s1 = (ms1, t)" by (metis surj_pair)
    have "opened_from (m # ms) s (m # ms1) t"
      using Cons.IH[OF r] Cons.prems(2,3) no e(1,2) fail
      by (intro opened_from_skip[of ms s1]) (auto simp: ioc_same_def)
    with fail r o Cons.prems(1) show ?thesis by simp
  next
    case none
    let ?t = "do_close env conn (set_driver_version v s2)"
    obtain ms1 t where r: "open_services env ms ?t = (ms1, t)" by (metis surj_pair)
    have "opened_from (m # ms) s (m\<lparr>ms_invalidated := True\<rparr> # ms1) t"
      using Cons.IH[OF r] Cons.prems(2,3) no e(1-4) none
      by (intro opened_from_skip[of ms ?t]) (auto simp: ioc_same_def)
    with none r o v Cons.prems(1) show ?thesis by simp
  next
    case ok
    with e have c: "conn \<noteq> 0" by simp
    have "ms' = m\<lparr>ms_opened := True\<rparr> # ms"
      "s' = ioc_enqueue Ioc_opened ((set_driver_version v s2)\<lparr>ioc_connection := conn\<rparr>)"
      using ok o v Cons.prems(1) by auto
    with c no e(1-4) ok show ?thesis
      by (auto simp: opened_from_def ioc_same_def filter_empty_conv)
  qed
qed

lemma ioc_inv_same:
  "ioc_inv s \<Longrightarrow> ioc_services s' = ioc_services s \<Longrightarrow> ioc_connection s' = ioc_connection s \<Longrightarrow>
   ioc_driver_version s' = ioc_driver_version s \<Longrightarrow>
   (\<And>c. open_balance c (ioc_calls s') = open_balance c (ioc_calls s)) \<Longrightarrow> ioc_inv s'"
  by (simp add: ioc_inv_def)

lemma open_connection_inv [inv_intros]:
  assumes "ioc_inv s"
  shows "ioc_inv (open_connection env s)"
proof (cases "ioc_connection s = 0")
  case True
  obtain ms t where r: "open_services env (ioc_services s) (clear_driver_state s) = (ms, t)"
    by (metis surj_pair)
  have none: "\<forall>m\<in>set (ioc_services s). \<not> ms_opened m"
    using assms True by (simp add: ioc_inv_def filter_empty_conv)
  have "opened_from (ioc_services s) (clear_driver_state s) ms t"
    by (rule open_services_effect[OF r _ _ none]) (simp_all add: True)
  then show ?thesis
    using assms True by (simp add: open_connection_def r opened_from_def ioc_inv_def)
qed (simp add: open_connection_def assms)

lemma update_first_ids [simp]:
  "map ms_registry_entry_id (update_first P (\<lambda>m. m\<lparr>ms_opened := b\<rparr>) ms) = map ms_registry_entry_id ms"
  by (induction ms) simp_all

lemma update_first_close:
  "find P ms = Some m \<Longrightarrow> ms_opened m \<Longrightarrow>
    Suc (length (filter ms_opened (update_first P (\<lambda>m. m\<lparr>ms_opened := False\<rparr>) ms))) =
      length (filter ms_opened ms)"
  by (induction ms) (auto split: if_splits)

lemma close_connection_inv:
  assumes inv: "ioc_inv s"
  shows "ioc_inv (close_connection env i s) \<and>
    (\<forall>m\<in>set (ioc_services (close_connection env i s)). ms_registry_entry_id m = i \<longrightarrow> \<not> ms_opened m)"
proof (cases "matched_services_find i (ioc_services s)")
  case None
  then have "\<forall>m\<in>set (ioc_services s). ms_registry_entry_id m \<noteq> i"
    by (auto simp: matched_services_find_def find_None_iff)
  with inv None show ?thesis by (simp add: close_connection_def)
next
  case (Some m)
  then have f: "find (\<lambda>m. ms_registry_entry_id m = i) (ioc_services s) = Some m"
    by (simp add: matched_services_find_def)
  then have m: "m \<in> set (ioc_services s)" "ms_registry_entry_id m = i"
    by (auto simp: find_Some_iff in_set_conv_nth)
  have only: "m' = m" if "m' \<in> set (ioc_services s)" "ms_registry_entry_id m' = i" for m'
    using inv that m by (auto simp: ioc_inv_def distinct_map inj_on_def)
  show ?thesis
  proof (cases "ms_opened m")
    case False
    then show ?thesis using inv Some only by (auto simp: close_connection_def)
  next
    case True
    let ?ms = "update_first (\<lambda>m. ms_registry_entry_id m = i) (\<lambda>m. m\<lparr>ms_opened := False\<rparr>) (ioc_services s)"
    have cnt: "Suc (length (filter ms_opened ?ms)) = length (filter ms_opened (ioc_services s))"
      by (rule update_first_close[OF f True])
    then have c: "ioc_connection s \<noteq> 0" and none: "filter ms_opened ?ms = []"
      using inv by (auto simp: ioc_inv_def split: if_splits)
    from none have closed: "\<forall>m\<in>set ?ms. \<not> ms_opened m" by (simp add: filter_empty_conv)
    have "ioc_inv (close_connection env i s) \<and> ioc_services (close_connection env i s) = ?ms"
      using inv none closed c by (auto simp: close_connection_def Some True Let_def ioc_inv_def)
    with closed show ?thesis by simp
  qed
qed

lemma insert_inv:
  assumes "ioc_inv s"
  shows "ioc_inv (s\<lparr>ioc_services := matched_services_insert i svc (ioc_services s)\<rparr>)"
  using assms
  by (auto simp: ioc_inv_def matched_services_insert_def matched_service_new_def list_ex_iff)

lemma filter_opened_erase:
  "\<forall>m\<in>set ms. ms_registry_entry_id m = i \<longrightarrow> \<not> ms_opened m \<Longrightarrow>
   filter ms_opened (matched_services_erase i ms) = filter ms_opened ms"
  by (induction ms) (auto simp: matched_services_erase_def)

lemma erase_inv:
  assumes "ioc_inv s" "\<forall>m\<in>set (ioc_services s). ms_registry_entry_id m = i \<longrightarrow> \<not> ms_opened m"
  shows "ioc_inv (s\<lparr>ioc_services := matched_services_erase i (ioc_services s)\<rparr>)"
proof -
  have "distinct (map ms_registry_entry_id (matched_services_erase i (ioc_services s)))"
    using assms(1) by (simp add: ioc_inv_def matched_services_erase_def distinct_map_filter)
  with assms show ?thesis
    by (auto simp: ioc_inv_def filter_opened_erase) (auto simp: matched_services_erase_def)
qed

lemma service_matched_inv [inv_intros]: "ioc_inv s \<Longrightarrow> ioc_inv (ioc_service_matched env i svc s)"
  unfolding ioc_service_matched_def Let_def
  by (rule ioc_inv_same[OF open_connection_inv[OF insert_inv]]) simp_all

lemma service_terminated_inv [inv_intros]:
  assumes "ioc_inv s"
  shows "ioc_inv (ioc_service_terminated env i s)"
proof -
  note c = close_connection_inv[OF assms, of env i]
  show ?thesis
    unfolding ioc_service_terminated_def Let_def
    by (rule ioc_inv_same[OF open_connection_inv[OF erase_inv[OF conjunct1[OF c] conjunct2[OF c]]]]) simp_all
qed

text \<open>
  The calls a closure makes: none, or one on the current connection, and then the driver's version is
  the expected one.
\<close>

definition call_method :: "io_call \<Rightarrow> u32 option" where
  "call_method x = (case x of Io_scalar c sel i \<Rightarrow> Some sel | Io_struct c sel b \<Rightarrow> Some sel | _ \<Rightarrow> None)"

definition call_connection :: "io_call \<Rightarrow> u32" where
  "call_connection x = (case x of Io_open svc c \<Rightarrow> c | Io_close c \<Rightarrow> c | Io_scalar c sel i \<Rightarrow> c | Io_struct c sel b \<Rightarrow> c)"

lemma guarded_version:
  "ioc_driver_connected s \<Longrightarrow> \<not> ioc_driver_version_mismatched s \<Longrightarrow>
   ioc_driver_version s = Some embedded_driver_version"
  by (auto simp: ioc_driver_connected_def ioc_driver_version_mismatched_def split: if_splits)

definition guarded_step :: "'w ioc \<Rightarrow> 'w ioc \<Rightarrow> bool" where
  "guarded_step s s' \<longleftrightarrow> ioc_services s' = ioc_services s \<and> ioc_connection s' = ioc_connection s \<and>
     ioc_driver_version s' = ioc_driver_version s \<and>
     (ioc_calls s' = ioc_calls s \<or>
       (\<exists>x m. ioc_calls s' = ioc_calls s @ [x] \<and> call_method x = Some (method_value m) \<and>
         call_connection x = ioc_connection s \<and> ioc_connection s \<noteq> 0 \<and>
         ioc_driver_version s = Some embedded_driver_version))"

lemma guarded_stepI:
  "ioc_same s s' \<Longrightarrow> ioc_calls s' = ioc_calls s @ [x] \<Longrightarrow> call_method x = Some (method_value m) \<Longrightarrow>
   call_connection x = ioc_connection s \<Longrightarrow> ioc_connection s \<noteq> 0 \<Longrightarrow>
   ioc_driver_connected s \<Longrightarrow> \<not> ioc_driver_version_mismatched s \<Longrightarrow> guarded_step s s'"
  using guarded_version[of s] unfolding guarded_step_def ioc_same_def by blast

lemma guarded_step_refl [simp]: "guarded_step s s"
  by (simp add: guarded_step_def)

lemma guarded_step_enqueue [simp]: "guarded_step s (ioc_enqueue k s') \<longleftrightarrow> guarded_step s s'"
  by (simp add: guarded_step_def)

lemma guarded_step_set:
  "guarded_step s (set_virtual_hid_keyboard_ready v s)" "guarded_step s (set_virtual_hid_pointing_ready v s)"
  "guarded_step s (s\<lparr>ioc_monitor := b\<rparr>)"
  by (simp_all add: guarded_step_def)

lemma guarded_do_struct:
  assumes "ioc_connection s \<noteq> 0" "ioc_driver_connected s" "\<not> ioc_driver_version_mismatched s"
  shows "guarded_step s (snd (do_struct env (ioc_connection s) m input s))"
proof -
  obtain r s' where d: "do_struct env (ioc_connection s) m input s = (r, s')" by fastforce
  show ?thesis
    using guarded_stepI[OF do_struct_effect[OF d], of m] assms
    by (simp add: d call_method_def call_connection_def)
qed

lemma guarded_do_scalar:
  assumes "ioc_connection s \<noteq> 0" "ioc_driver_connected s" "\<not> ioc_driver_version_mismatched s"
  shows "guarded_step s (snd (do_scalar env (ioc_connection s) m input s))"
proof -
  obtain r s' where d: "do_scalar env (ioc_connection s) m input s = (r, s')" by fastforce
  show ?thesis
    using guarded_stepI[OF do_scalar_effect[OF d], of m] assms
    by (simp add: d call_method_def call_connection_def)
qed

lemma guarded_calls:
  "guarded_step s (snd (ioc_call env m s))" "guarded_step s (snd (call_scalar_method env m input s))"
  "guarded_step s (snd (call_ready env m s))" "guarded_step s (snd (ioc_post_report env m report s))"
  using guarded_do_struct[of s env m] guarded_do_scalar[of s env m]
  by (simp_all add: ioc_call_def call_scalar_method_def call_ready_def ioc_post_report_def case_prod_beta)

lemma open_balance_method: "call_method x = Some sel \<Longrightarrow> open_balance c [x] = 0"
  by (cases x) (simp_all add: call_method_def)

lemma run_task_guarded: "guarded_step s (fst (run_ioc_task env task s))"
  using guarded_calls[of s env]
  by (cases task)
    (simp_all add: run_ioc_task_def case_prod_beta guarded_step_set split: option.split)

lemma guarded_step_inv:
  assumes "ioc_inv s" "guarded_step s s'"
  shows "ioc_inv s'"
proof -
  have "open_balance c (ioc_calls s') = open_balance c (ioc_calls s)" for c
    using assms(2) unfolding guarded_step_def by (auto simp: open_balance_method simp del: open_balance.simps)
  then show ?thesis
    using ioc_inv_same[OF assms(1)] assms(2) unfolding guarded_step_def by blast
qed

lemma run_task_inv [inv_intros]: "ioc_inv s \<Longrightarrow> ioc_inv (fst (run_ioc_task env task s))"
  using guarded_step_inv run_task_guarded by blast

section \<open>Runs\<close>

text \<open>
  A run of the object: the daemon calls public methods (each enqueues its closure), the service monitor
  reports services, and the dispatcher runs queued closures, in any order.
\<close>

inductive ioc_step :: "'w iokit \<Rightarrow> 'w ioc \<Rightarrow> 'w ioc \<Rightarrow> bool" for env where
  ioc_step_call: "task \<in> {Ioc_start, Ioc_keyboard_ready, Ioc_keyboard_reset, Ioc_pointing_initialize,
       Ioc_pointing_ready, Ioc_pointing_reset} \<union> range Ioc_keyboard_initialize \<union>
       {Ioc_post_report m b i |m b i. True} \<Longrightarrow>
     ioc_step env s (ioc_enqueue task s)"
| ioc_step_matched: "ioc_step env s (ioc_service_matched env registry_entry_id service s)"
| ioc_step_terminated: "ioc_step env s (ioc_service_terminated env registry_entry_id s)"
| ioc_step_run: "ioc_queue s = q1 @ task # q2 \<Longrightarrow>
     ioc_step env s (fst (run_ioc_task env task (s\<lparr>ioc_queue := q1 @ q2\<rparr>)))"

abbreviation ioc_reachable :: "'w iokit \<Rightarrow> 'w ioc \<Rightarrow> bool" where
  "ioc_reachable env \<equiv> reaches (\<lambda>s. \<exists>w. s = ioc_init w) (ioc_step env)"

lemma ioc_reach_init: "ioc_reachable env (ioc_init w)"
  by (rule reaches_init) (rule exI, rule refl)

lemma ioc_reach_step: "ioc_reachable env s \<Longrightarrow> ioc_step env s s' \<Longrightarrow> ioc_reachable env s'"
  by (rule reaches_step)

lemma ioc_inv_init: "ioc_inv (ioc_init w)"
  by (simp add: ioc_inv_def ioc_init_def)

lemma ioc_step_inv: "ioc_step env s s' \<Longrightarrow> ioc_inv s \<Longrightarrow> ioc_inv s'"
proof (induction rule: ioc_step.induct)
  case (ioc_step_run s q1 task q2)
  have "ioc_inv (s\<lparr>ioc_queue := q1 @ q2\<rparr>)"
    by (rule ioc_inv_same[OF ioc_step_run(2)]) simp_all
  then show ?case by (rule run_task_inv)
qed (auto intro: inv_intros ioc_inv_same)

interpretation connections: step_invariant "ioc_step env" "\<lambda>s. \<exists>w. s = ioc_init w" ioc_inv
  for env
  by unfold_locales (auto intro: ioc_inv_init ioc_step_inv)

lemmas ioc_reachable_inv = connections.reaches_inv

section \<open>Which service is opened\<close>

text \<open>
  What IOKit makes of one attempt at a service in a given world: a connection with the version the driver
  reports over it, or nothing, when the service is invalidated, does not open or reports no version (the
  connection is closed again); and the world afterwards. Nothing is assumed of IOKit: it may answer differently each time.
\<close>

definition try_service :: "'w iokit \<Rightarrow> matched_service \<Rightarrow> 'w \<Rightarrow> (u32 \<times> driver_version) option \<times> 'w" where
  "try_service env m w =
     (if ms_invalidated m then (None, w)
      else
        (case io_service_open env (ms_service m) w of
           ((kr, c), w1) \<Rightarrow>
             if kr \<noteq> kIOReturnSuccess then (None, w1)
             else if c = 0 then (None, io_service_close env c w1)
             else
               (case io_call_scalar env c (method_value method_driver_version) [] w1 of
                  ((kr', v), w2) \<Rightarrow>
                    if kr' \<noteq> kIOReturnSuccess then (None, io_service_close env c w2)
                    else (Some (c, Driver_version v), w2))))"

text \<open>The world after attempts at services one after the other that all fail; \<open>None\<close> if one succeeds.\<close>

primrec all_fail :: "'w iokit \<Rightarrow> matched_service list \<Rightarrow> 'w \<Rightarrow> 'w option" where
  "all_fail env [] w = Some w"
| "all_fail env (m # ms) w =
     (case try_service env m w of (None, w') \<Rightarrow> all_fail env ms w' | (Some r, w') \<Rightarrow> None)"

text \<open>
  What the object has after trying the services \<open>ms\<close> from the world \<open>w\<close>: the connection and version of the first one
  that works, which alone is marked as opened, or none.
\<close>

definition first_working :: "'w iokit \<Rightarrow> matched_service list \<Rightarrow> 'w \<Rightarrow> matched_service list \<Rightarrow> 'w ioc \<Rightarrow> bool" where
  "first_working env ms w ms' t \<longleftrightarrow>
     (all_fail env ms w = Some (ioc_world t) \<and> ioc_connection t = 0 \<and> ioc_driver_version t = None \<and>
        map ms_opened ms' = map ms_opened ms) \<or>
     (\<exists>pre m post pre' w' c v. ms = pre @ m # post \<and> all_fail env pre w = Some w' \<and>
        try_service env m w' = (Some (c, v), ioc_world t) \<and>
        ioc_connection t = c \<and> ioc_driver_version t = Some v \<and>
        ms' = pre' @ m\<lparr>ms_opened := True\<rparr> # post \<and> map ms_opened pre' = map ms_opened pre)"

lemma first_working_skip:
  assumes "try_service env m w = (None, w')" "first_working env ms w' ms' t" "ms_opened m' = ms_opened m"
  shows "first_working env (m # ms) w (m' # ms') t"
  using assms(2)[unfolded first_working_def]
proof (elim disjE exE conjE)
  fix pre n post pre' u c v
  assume "ms = pre @ n # post" "all_fail env pre w' = Some u" "try_service env n u = (Some (c, v), ioc_world t)"
    "ioc_connection t = c" "ioc_driver_version t = Some v" "ms' = pre' @ n\<lparr>ms_opened := True\<rparr> # post"
    "map ms_opened pre' = map ms_opened pre"
  then show ?thesis
    using assms(1,3) unfolding first_working_def
    by (intro disjI2 exI[of _ "m # pre"] exI[of _ n] exI[of _ post] exI[of _ "m' # pre'"] exI[of _ u]) simp
qed (use assms(1,3) in \<open>simp add: first_working_def\<close>)

lemma open_services_first_working:
  assumes "ioc_connection s = 0" "ioc_driver_version s = None"
  shows "first_working env ms (ioc_world s) (fst (open_services env ms s)) (snd (open_services env ms s))"
  using assms
proof (induction ms arbitrary: s)
  case Nil
  then show ?case by (simp add: first_working_def)
next
  case (Cons m ms)
  obtain kr c t where o: "do_open env (ms_service m) s = ((kr, c), t)" by (metis surj_pair)
  then have w: "io_service_open env (ms_service m) (ioc_world s) = ((kr, c), ioc_world t)" and t: "ioc_same s t"
    using do_open_effect(1)[OF o] by (auto simp: do_open_def Let_def split: prod.splits)
  obtain v u where v: "call_driver_version env c t = (v, u)" by (metis surj_pair)
  note u = call_driver_version_effect(1)[OF v]
  have conn: "ioc_connection t = 0" "ioc_driver_version t = None" "ioc_connection u = 0"
    using Cons.prems t u by (simp_all add: ioc_same_def)
  consider "ms_invalidated m" | "\<not> ms_invalidated m" "kr \<noteq> kIOReturnSuccess"
    | "\<not> ms_invalidated m" "kr = kIOReturnSuccess" "v = None" | x where "\<not> ms_invalidated m" "kr = kIOReturnSuccess" "v = Some x"
    by (cases v) auto
  then show ?case
  proof cases
    case 1
    with Cons show ?thesis
      using first_working_skip[of env m "ioc_world s" "ioc_world s" ms] by (simp add: try_service_def case_prod_beta)
  next
    case 2
    with Cons.IH[OF conn(1,2)] show ?thesis
      using first_working_skip[of env m "ioc_world s" "ioc_world t" ms] by (simp add: try_service_def w o case_prod_beta)
  next
    case 3
    let ?u = "do_close env c (set_driver_version None u)"
    have "try_service env m (ioc_world s) = (None, ioc_world ?u)"
      using 3 v by (auto simp: try_service_def w call_driver_version_def do_scalar_def do_close_def split: prod.splits if_splits)
    with 3 Cons.IH[of ?u] conn(3) show ?thesis
      using first_working_skip[of env m "ioc_world s" "ioc_world ?u" ms _ _ "m\<lparr>ms_invalidated := True\<rparr>"]
      by (simp add: o v case_prod_beta Let_def)
  next
    case 4
    have "try_service env m (ioc_world s) = (Some (c, x), ioc_world u)"
      using 4 v by (auto simp: try_service_def w call_driver_version_def do_scalar_def split: prod.splits if_splits)
    then show ?thesis
      using 4 unfolding first_working_def
      by (intro disjI2 exI[of _ "[]"] exI[of _ m] exI[of _ ms] exI[of _ "ioc_world s"] exI[of _ c] exI[of _ x])
        (simp add: o v Let_def)
  qed
qed

lemma erase_update_first:
  "matched_services_erase i (update_first (\<lambda>m. ms_registry_entry_id m = i) (\<lambda>m. m\<lparr>ms_opened := b\<rparr>) ms) =
   matched_services_erase i ms"
  by (induction ms) (auto simp: matched_services_erase_def)

lemma terminated_opened:
  assumes "ioc_inv s" "matched_services_find i (ioc_services s) = Some m" "ms_opened m"
  shows "\<exists>t. ioc_service_terminated env i s = ioc_enqueue Ioc_state_changed (open_connection env t) \<and>
     ioc_connection t = 0 \<and> ioc_services t = matched_services_erase i (ioc_services s) \<and>
     ioc_world t = io_service_close env (ioc_connection s) (ioc_world s)"
proof -
  have "m \<in> set (ioc_services s)"
    using assms(2) by (auto simp: matched_services_find_def find_Some_iff in_set_conv_nth)
  then have "filter ms_opened (ioc_services s) \<noteq> []" using assms(3) by (auto simp: filter_empty_conv)
  then have "ioc_connection s \<noteq> 0" using assms(1) by (auto simp: ioc_inv_def split: if_splits)
  then show ?thesis
    using assms(2,3)
    by (auto simp: ioc_service_terminated_def close_connection_def do_close_def Let_def erase_update_first)
qed

lemma first_working_cong:
  "ioc_world t = ioc_world t' \<Longrightarrow> ioc_connection t = ioc_connection t' \<Longrightarrow> ioc_driver_version t = ioc_driver_version t' \<Longrightarrow>
   first_working env ms w ms' t = first_working env ms w ms' t'"
  by (simp add: first_working_def)

lemma open_connection_first_working:
  assumes "ioc_connection s = 0"
  shows "first_working env (ioc_services s) (ioc_world s) (ioc_services (open_connection env s)) (open_connection env s)"
proof -
  let ?o = "open_services env (ioc_services s) (clear_driver_state s)"
  have "first_working env (ioc_services s) (ioc_world s) (fst ?o) (snd ?o)"
    using open_services_first_working[of "clear_driver_state s" env "ioc_services s"] assms by simp
  then show ?thesis
    using assms first_working_cong[of "open_connection env s" "snd ?o"] by (simp add: open_connection_def case_prod_beta)
qed

text \<open>Closures stay queued until they run.\<close>

lemma queue_kept [frame_simps]:
  "set (ioc_queue s) \<subseteq> set (ioc_queue (ioc_enqueue k s))"
  "set (ioc_queue s) \<subseteq> set (ioc_queue (set_driver_version v s))"
  "set (ioc_queue s) \<subseteq> set (ioc_queue (set_virtual_hid_keyboard_ready r s))"
  "set (ioc_queue s) \<subseteq> set (ioc_queue (set_virtual_hid_pointing_ready r s))"
  "ioc_queue (do_close env c s) = ioc_queue s"
  by (auto simp: ioc_enqueue_def set_driver_version_def set_virtual_hid_keyboard_ready_def
      set_virtual_hid_pointing_ready_def do_close_def)

lemma queue_kept_clear: "set (ioc_queue s) \<subseteq> set (ioc_queue (clear_driver_state s))"
  unfolding clear_driver_state_def by (meson queue_kept(2-4) subset_trans)

lemma queue_kept_open_services: "set (ioc_queue s) \<subseteq> set (ioc_queue (snd (open_services env ms s)))"
proof (induction ms arbitrary: s)
  case (Cons m ms)
  obtain kr c t where o: "do_open env (ms_service m) s = ((kr, c), t)" by (metis surj_pair)
  obtain v u where v: "call_driver_version env c t = (v, u)" by (metis surj_pair)
  have q: "ioc_queue t = ioc_queue s" "ioc_queue u = ioc_queue s"
    using do_open_effect(1)[OF o] call_driver_version_effect(1)[OF v] by (auto simp: ioc_same_def)
  have r: "set (ioc_queue s) \<subseteq> set (ioc_queue (snd (open_services env ms (do_close env c (set_driver_version v u)))))"
    using Cons.IH[of "do_close env c (set_driver_version v u)"] queue_kept(2)[of u v] q
    by (simp add: queue_kept(5))
  have k: "set (ioc_queue s) \<subseteq> set (ioc_queue (ioc_enqueue Ioc_opened ((set_driver_version v u)\<lparr>ioc_connection := c\<rparr>)))"
    using queue_kept(2)[of u v] q by (auto simp: ioc_enqueue_def)
  from Cons.IH[of s] Cons.IH[of t] q r k show ?case
    by (cases v) (simp_all add: o v case_prod_beta Let_def)
qed simp

lemma queue_kept_open_connection: "set (ioc_queue s) \<subseteq> set (ioc_queue (open_connection env s))"
  using queue_kept_clear[of s] queue_kept_open_services[of "clear_driver_state s" env "ioc_services s"]
  by (auto simp: open_connection_def case_prod_beta)

lemma queue_kept_close_connection: "set (ioc_queue s) \<subseteq> set (ioc_queue (close_connection env i s))"
proof -
  have "set (ioc_queue s) \<subseteq> set (ioc_queue (clear_driver_state (ioc_enqueue Ioc_closed
      ((do_close env c (s\<lparr>ioc_services := ms\<rparr>))\<lparr>ioc_connection := 0\<rparr>))))" for c ms
    using queue_kept_clear[of "ioc_enqueue Ioc_closed ((do_close env c (s\<lparr>ioc_services := ms\<rparr>))\<lparr>ioc_connection := 0\<rparr>)"]
    by (auto simp: ioc_enqueue_def do_close_def)
  then show ?thesis by (simp add: close_connection_def Let_def split: option.split)
qed

lemma queue_kept_terminated: "set (ioc_queue s) \<subseteq> set (ioc_queue (ioc_service_terminated env i s))"
proof -
  let ?t = "(close_connection env i s)\<lparr>ioc_services := matched_services_erase i (ioc_services (close_connection env i s))\<rparr>"
  have "set (ioc_queue s) \<subseteq> set (ioc_queue (open_connection env ?t))"
    using queue_kept_close_connection[of s env i] queue_kept_open_connection[of ?t env] by auto
  then show ?thesis by (auto simp: ioc_service_terminated_def Let_def ioc_enqueue_def)
qed

section \<open>Properties\<close>

text \<open>A driver with services 1 and 2, each opening the connection of its number; used by the witnesses.\<close>

definition io_two :: "unit iokit" where
  "io_two = \<lparr>io_service_open = (\<lambda>svc w. ((if svc = 1 \<or> svc = 2 then kIOReturnSuccess else kIOReturnError, svc), w)),
     io_service_close = (\<lambda>c w. w),
     io_call_scalar = (\<lambda>c sel i w. ((kIOReturnSuccess, if sel = 0 then 10800 else if c = 1 then 1 else 0), w)),
     io_call_struct = (\<lambda>c sel b w. (kIOReturnSuccess, w)),
     io_matching_service = (\<lambda>n w. True), io_name_matching = (\<lambda>n w. True)\<rparr>"

definition ioc_demo :: "unit ioc" where
  "ioc_demo = ioc_service_matched io_two 200 2 (ioc_service_matched io_two 100 1 (ioc_init ()))"

lemma ioc_demo_reachable: "ioc_reachable io_two ioc_demo"
  unfolding ioc_demo_def
  by (intro ioc_reach_step[OF ioc_reach_step[OF ioc_reach_init ioc_step_matched] ioc_step_matched])

lemmas ioc_eval = ioc_demo_def io_two_def ioc_init_def ioc_service_matched_def matched_services_insert_def
  matched_service_new_def open_connection_def do_open_def call_driver_version_def do_scalar_def
  do_close_def clear_driver_state_def set_driver_version_def set_virtual_hid_keyboard_ready_def
  set_virtual_hid_pointing_ready_def ioc_enqueue_def close_connection_def matched_services_find_def
  matched_services_erase_def ioc_service_terminated_def

text \<open>
  C2. The connection of the daemon is consistent in every reachable state: it is open exactly when the
  driver counts as connected, exactly when one matched service is marked open (never two), and no
  service is listed twice. No connection is leaked: the connections opened and not yet closed are
  the current one, once, and no other.
\<close>

theorem connection_consistent:
  assumes "ioc_reachable env s"
  shows "(ioc_driver_connected s \<longleftrightarrow> ioc_connection s \<noteq> 0) \<and>
    length (filter ms_opened (ioc_services s)) = (if ioc_driver_connected s then 1 else 0) \<and>
    distinct (map ms_registry_entry_id (ioc_services s)) \<and>
    (\<forall>c. open_balance c (ioc_calls s) = (if ioc_driver_connected s \<and> c = ioc_connection s then 1 else 0))"
  using ioc_reachable_inv[OF assms] by (auto simp: ioc_inv_def ioc_driver_connected_def)

theorem connection_consistent_witness:
  "ioc_connection ioc_demo = 1 \<and> length (filter ms_opened (ioc_services ioc_demo)) = 1 \<and>
   open_balance 1 (ioc_calls ioc_demo) = 1"
proof -
  have "ioc_connection ioc_demo = 1" by (simp add: ioc_eval)
  with connection_consistent[OF ioc_demo_reachable] show ?thesis by simp
qed

text \<open>
  The destructor leaves no connection behind: in every reachable state it closes what is open, once.
\<close>

theorem destroy_closes:
  assumes "ioc_reachable env s"
  shows "ioc_connection (ioc_destroy env s) = 0 \<and> (\<forall>c. open_balance c (ioc_calls (ioc_destroy env s)) = 0)"
proof (cases "matched_services_find_opened (ioc_services s)")
  case None
  then have "filter ms_opened (ioc_services s) = []"
    by (simp add: matched_services_find_opened_def find_None_iff filter_empty_conv)
  with ioc_reachable_inv[OF assms] None show ?thesis
    by (auto simp: ioc_destroy_def ioc_inv_def split: if_splits)
next
  case (Some m)
  let ?s = "close_connection env (ms_registry_entry_id m) s"
  have m: "m \<in> set (ioc_services s)" "ms_opened m"
    using Some by (auto simp: matched_services_find_opened_def find_Some_iff in_set_conv_nth)
  obtain m' where f: "matched_services_find (ms_registry_entry_id m) (ioc_services s) = Some m'"
    using m(1) by (cases "matched_services_find (ms_registry_entry_id m) (ioc_services s)")
      (auto simp: matched_services_find_def find_None_iff)
  then have "m' \<in> set (ioc_services s)" "ms_registry_entry_id m' = ms_registry_entry_id m"
    by (auto simp: matched_services_find_def find_Some_iff in_set_conv_nth)
  with m ioc_reachable_inv[OF assms] have "m' = m"
    by (auto simp: ioc_inv_def distinct_map inj_on_def)
  with f m have "ioc_connection ?s = 0"
    by (auto simp: close_connection_def Let_def)
  moreover have "ioc_inv ?s" using close_connection_inv[OF ioc_reachable_inv[OF assms]] by blast
  ultimately show ?thesis using Some by (simp add: ioc_destroy_def ioc_inv_def)
qed

theorem destroy_closes_witness:
  "ioc_connection ioc_demo = 1 \<and> ioc_connection (ioc_destroy io_two ioc_demo) = 0 \<and>
   open_balance 1 (ioc_calls (ioc_destroy io_two ioc_demo)) = 0"
  using destroy_closes[OF ioc_demo_reachable] by (simp add: ioc_eval)

text \<open>
  C22. The driver is only used through the current connection and only when its version is the one the
  daemon was built for: a closure the dispatcher runs makes no method call, or one, on the current
  connection, and then the driver's version is the embedded one. This covers reports, resets,
  initialization and readiness queries; only the version query itself precedes the check.
\<close>

theorem driver_calls_guarded:
  assumes "run_ioc_task env task s = (s', sigs)"
  shows "ioc_calls s' = ioc_calls s \<or>
    (\<exists>x m. ioc_calls s' = ioc_calls s @ [x] \<and> call_method x = Some (method_value m) \<and>
       call_connection x = ioc_connection s \<and> ioc_connection s \<noteq> 0 \<and>
       ioc_driver_connected s \<and> \<not> ioc_driver_version_mismatched s)"
  using run_task_guarded[of s env task] assms
  by (auto simp: guarded_step_def ioc_driver_connected_def ioc_driver_version_mismatched_def)

theorem driver_calls_guarded_witness:
  "ioc_calls (fst (run_ioc_task io_two Ioc_keyboard_reset (ioc_demo\<lparr>ioc_driver_version := Some (Driver_version 10700)\<rparr>))) =
   ioc_calls ioc_demo"
proof -
  let ?s = "ioc_demo\<lparr>ioc_driver_version := Some (Driver_version 10700)\<rparr>"
  have "ioc_driver_version_mismatched ?s"
    by (simp add: ioc_driver_version_mismatched_def embedded_driver_version_def)
  with driver_calls_guarded[of io_two Ioc_keyboard_reset ?s "fst (run_ioc_task io_two Ioc_keyboard_reset ?s)"
      "snd (run_ioc_task io_two Ioc_keyboard_reset ?s)"]
  show ?thesis by simp
qed

text \<open>
  C23. Failover: when the service whose connection is open terminates, the object closes the connection and at once
  tries the remaining services in the order they were matched, whatever IOKit answers. It is then connected to the first that
  opens and reports a version, has taken over that version and marked that service, and has tried no later one; if each of them is
  invalidated, does not open or reports no version, the object is disconnected and no service is marked.
\<close>

theorem failover_to_next_service:
  fixes env :: "'w iokit"
  assumes "ioc_reachable env s" and "matched_services_find i (ioc_services s) = Some m" and "ms_opened m"
  defines "t \<equiv> ioc_service_terminated env i s"
    and "rest \<equiv> matched_services_erase i (ioc_services s)"
    and "w \<equiv> io_service_close env (ioc_connection s) (ioc_world s)"
  shows "(all_fail env rest w = Some (ioc_world t) \<and> ioc_connection t = 0 \<and> ioc_driver_version t = None \<and>
      (\<forall>n\<in>set (ioc_services t). \<not> ms_opened n)) \<or>
    (\<exists>pre n post pre' w' c v. rest = pre @ n # post \<and> all_fail env pre w = Some w' \<and>
      try_service env n w' = (Some (c, v), ioc_world t) \<and> ioc_connection t = c \<and> c \<noteq> 0 \<and> ioc_driver_version t = Some v \<and>
      ioc_services t = pre' @ n\<lparr>ms_opened := True\<rparr> # post \<and> (\<forall>k\<in>set (pre' @ post). \<not> ms_opened k))"
proof -
  obtain t0 where t0: "t = ioc_enqueue Ioc_state_changed (open_connection env t0)"
    "ioc_connection t0 = 0" "ioc_services t0 = rest" "ioc_world t0 = w"
    using terminated_opened[OF ioc_reachable_inv[OF assms(1)] assms(2,3)] unfolding t_def rest_def w_def by blast
  have inv: "ioc_inv t"
    unfolding t_def by (rule ioc_reachable_inv[OF reaches_step[OF assms(1) ioc_step_terminated]])
  have opened: "\<not> ms_opened k" if "ioc_services t = pre @ n # post" "ms_opened n" "k \<in> set (pre @ post)" for pre n post k
  proof
    assume "ms_opened k"
    with that have "2 \<le> length (filter ms_opened (ioc_services t))"
      by (auto simp: in_set_conv_decomp)
    then show False using inv by (simp add: ioc_inv_def split: if_splits)
  qed
  have "first_working env rest w (ioc_services t) t"
    using open_connection_first_working[OF t0(2), of env] t0 first_working_cong[of t "open_connection env t0"] by simp
  then show ?thesis
    unfolding first_working_def
  proof (elim disjE exE conjE)
    assume "all_fail env rest w = Some (ioc_world t)" "ioc_connection t = 0" "ioc_driver_version t = None"
    moreover from this(2) have "\<forall>n\<in>set (ioc_services t). \<not> ms_opened n"
      using inv by (auto simp: ioc_inv_def filter_empty_conv)
    ultimately show ?thesis by blast
  next
    fix pre n post pre' w' c v
    assume *: "rest = pre @ n # post" "all_fail env pre w = Some w'" "try_service env n w' = (Some (c, v), ioc_world t)"
      "ioc_connection t = c" "ioc_driver_version t = Some v" "ioc_services t = pre' @ n\<lparr>ms_opened := True\<rparr> # post"
    moreover have "c \<noteq> 0" using inv *(4,5) by (auto simp: ioc_inv_def)
    moreover have "\<forall>k\<in>set (pre' @ post). \<not> ms_opened k" using opened[OF *(6)] by simp
    ultimately show ?thesis by blast
  qed
qed

theorem failover_to_next_service_witness:
  "ioc_connection ioc_demo = 1 \<and> ioc_connection (ioc_service_terminated io_two 100 ioc_demo) = 2"
proof -
  have find: "matched_services_find 100 (ioc_services ioc_demo) =
      Some \<lparr>ms_registry_entry_id = 100, ms_service = 1, ms_opened = True, ms_invalidated = False\<rparr>"
    by (simp add: ioc_eval)
  let ?n = "\<lparr>ms_registry_entry_id = 200, ms_service = 2, ms_opened = False, ms_invalidated = False\<rparr>"
  have rest: "matched_services_erase 100 (ioc_services ioc_demo) = [?n]"
    by (simp add: ioc_eval matched_services_erase_def)
  have "try_service io_two ?n w = (Some (2, Driver_version 10800), w)" for w
    by (simp add: try_service_def io_two_def)
  with failover_to_next_service[OF ioc_demo_reachable find] rest
  have "ioc_connection (ioc_service_terminated io_two 100 ioc_demo) = 2"
    by (auto simp: Cons_eq_append_conv)
  then show ?thesis by (simp add: ioc_eval)
qed

text \<open>
  C36. A readiness answer can be attributed to the wrong connection: the answer is read in one closure and
  stored by a second one that is only enqueued then. When the service terminates in between and
  the object reconnects to another driver of the right version, the stored answer of the old
  connection is reported as the readiness of the new one, which was not asked.
\<close>

theorem stale_ready_reported:
  assumes "call_ready env method_virtual_hid_keyboard_ready s = (Some ready, s0)"
    and "run_ioc_task env Ioc_keyboard_ready s = (s1, sigs)"
    and "s2 = ioc_service_terminated env i s1"
    and "ioc_driver_version s2 = Some embedded_driver_version"
  shows "Ioc_set_keyboard_ready (Some ready) \<in> set (ioc_queue s2) \<and>
    get_virtual_hid_keyboard_ready
      (fst (run_ioc_task env (Ioc_set_keyboard_ready (Some ready)) s2)) = Some ready"
proof -
  have "Ioc_set_keyboard_ready (Some ready) \<in> set (ioc_queue s1)"
    using assms(1,2) by (auto simp: run_ioc_task_def ioc_enqueue_def)
  then have "Ioc_set_keyboard_ready (Some ready) \<in> set (ioc_queue s2)"
    using queue_kept_terminated[of s1 env i] assms(3) by blast
  then show ?thesis
    using assms(4)
    by (simp add: run_ioc_task_def get_virtual_hid_keyboard_ready_def ioc_driver_connected_def
        ioc_driver_version_mismatched_def)
qed

theorem stale_ready_reported_witness:
  "let s1 = fst (run_ioc_task io_two Ioc_keyboard_ready ioc_demo);
       s2 = ioc_service_terminated io_two 100 s1
   in ioc_connection s1 = 1 \<and> ioc_connection s2 = 2 \<and>
      get_virtual_hid_keyboard_ready
        (fst (run_ioc_task io_two (Ioc_set_keyboard_ready (Some True)) s2)) = Some True \<and>
      fst (call_ready io_two method_virtual_hid_keyboard_ready s2) = Some False"
proof -
  let ?r = "call_ready io_two method_virtual_hid_keyboard_ready ioc_demo"
  let ?q = "run_ioc_task io_two Ioc_keyboard_ready ioc_demo"
  let ?s2 = "ioc_service_terminated io_two 100 (fst ?q)"
  note ev = ioc_eval run_ioc_task_def call_ready_def ioc_driver_connected_def
    ioc_driver_version_mismatched_def embedded_driver_version_def
  have r: "call_ready io_two method_virtual_hid_keyboard_ready ioc_demo = (Some True, snd ?r)"
    by (simp add: ev)
  have v: "ioc_driver_version ?s2 = Some embedded_driver_version"
    by (simp add: ev)
  have "ioc_connection (fst ?q) = 1" "ioc_connection ?s2 = 2"
    "fst (call_ready io_two method_virtual_hid_keyboard_ready ?s2) = Some False"
    by (simp_all add: ev)
  then show ?thesis
    using stale_ready_reported[OF r prod.collapse[symmetric] refl v] by (simp add: Let_def)
qed

end
