(* ===== verification/Clients_Manager.thy ===== *)
theory Clients_Manager
  imports Io_Service_Client
begin

text \<open>
  The daemon's clients manager, \<^verbatim>\<open>Daemon/include/virtual_hid_device_service_clients_manager.hpp\<close>. Every
  connected peer has a \<^verbatim>\<open>client_entry\<close> with up to three \<^verbatim>\<open>io_service_client\<close> objects: one that only watches
  the driver, and one per virtual device that is enabled.

  The entry uses these objects through their queries and by enqueuing work on them. Objects are
  numbered; the parameter \<open>views\<close> gives what the queries of each object answer at the moment
  (\<open>Io_Service_Client\<close> models the objects themselves, see \<open>ioc_view_of\<close> below). What an entry does to the
  outside is a list of \<open>entry_effect\<close>, in order. The closures it enqueues are \<open>entry_task\<close>s.
\<close>

section \<open>Data\<close>

record ioc_view =
  iv_driver_activated :: bool
  iv_driver_connected :: bool
  iv_driver_version_mismatched :: bool
  iv_keyboard_ready :: "bool option"
  iv_pointing_ready :: "bool option"

text \<open>
  The fields \<^verbatim>\<open>virtual_hid_keyboard_...\<close> and \<^verbatim>\<open>virtual_hid_pointing_...\<close> of an entry are the same three
  values per device: the client object, the generation id and the enabled flag. The generation id is an
  \<^verbatim>\<open>int\<close> that is only incremented and compared; it is kept at its 32 bits, and wraps where the increment of the
  code overflows.
\<close>

datatype device = Keyboard | Pointing

record virtual_device =
  vd_client :: "nat option"
  vd_generation :: u32
  vd_enabled :: bool

record client_entry =
  ce_device :: "device \<Rightarrow> virtual_device"
  ce_parameters :: virtual_hid_keyboard_parameters
  ce_no_virtual_devices :: nat
  ce_last_response :: "bytes option"
  ce_next :: nat
    \<comment> \<open>the number of the next object to be created\<close>

datatype entry_task =
    Entry_initialize_keyboard virtual_hid_keyboard_parameters
  | Entry_terminate_keyboard
  | Entry_initialize_pointing
  | Entry_terminate_pointing
  | Entry_check_status
  | Entry_recreate device u32

datatype entry_effect =
    Create_io_client nat
  | Destroy_io_client nat
  | Io_client_task nat ioc_task
  | Enqueue_entry entry_task nat
      \<comment> \<open>with a delay in milliseconds\<close>
  | Status_changed bytes

type_synonym views = "nat \<Rightarrow> ioc_view"

section \<open>Queries and the response\<close>

definition device_ready :: "views \<Rightarrow> device \<Rightarrow> client_entry \<Rightarrow> bool" where
  "device_ready views d e =
     (case vd_client (ce_device e d) of
        None \<Rightarrow> False
      | Some r \<Rightarrow>
          (case (if d = Keyboard then iv_keyboard_ready (views r) else iv_pointing_ready (views r)) of
             None \<Rightarrow> False
           | Some b \<Rightarrow> b))"

definition append_response :: "response \<Rightarrow> bool \<Rightarrow> bytes \<Rightarrow> bytes" where
  "append_response r v buffer = buffer @ [response_value r, if v then 1 else 0]"

definition make_response :: "views \<Rightarrow> client_entry \<Rightarrow> bytes" where
  "make_response views e =
     (let n = views (ce_no_virtual_devices e)
      in fold (\<lambda>(r, v). append_response r v)
           [(driver_activated, iv_driver_activated n),
            (driver_connected, iv_driver_connected n),
            (driver_version_mismatched, iv_driver_version_mismatched n),
            (virtual_hid_keyboard_ready, device_ready views Keyboard e),
            (virtual_hid_pointing_ready, device_ready views Pointing e)] [])"

definition check_status_changed :: "views \<Rightarrow> client_entry \<Rightarrow> client_entry \<times> entry_effect list" where
  "check_status_changed views e =
     (let response = make_response views e
      in if ce_last_response e \<noteq> Some response
         then (e\<lparr>ce_last_response := Some response\<rparr>, [Status_changed response])
         else (e, []))"

section \<open>Device clients\<close>

definition update_device :: "device \<Rightarrow> (virtual_device \<Rightarrow> virtual_device) \<Rightarrow> client_entry \<Rightarrow> client_entry" where
  "update_device d f e = e\<lparr>ce_device := (ce_device e)(d := f (ce_device e d))\<rparr>"

text \<open>The assignment of a null pointer to a device's client.\<close>

definition drop_client :: "device \<Rightarrow> client_entry \<Rightarrow> client_entry \<times> entry_effect list" where
  "drop_client d e =
     (update_device d (\<lambda>v. v\<lparr>vd_client := None\<rparr>) e,
      case vd_client (ce_device e d) of None \<Rightarrow> [] | Some r \<Rightarrow> [Destroy_io_client r])"

definition create_virtual_hid_client :: "device \<Rightarrow> client_entry \<Rightarrow> client_entry \<times> entry_effect list" where
  "create_virtual_hid_client d e =
     (let r = ce_next e;
          g = vd_generation (ce_device e d) + 1;
          old = (case vd_client (ce_device e d) of None \<Rightarrow> [] | Some q \<Rightarrow> [Destroy_io_client q])
      in (update_device d (\<lambda>v. v\<lparr>vd_client := Some r, vd_generation := g\<rparr>) (e\<lparr>ce_next := r + 1\<rparr>),
          [Create_io_client r] @ old @
          [Io_client_task r Ioc_start, Enqueue_entry (Entry_recreate d g) 5000]))"

definition setup_device :: "views \<Rightarrow> device \<Rightarrow> client_entry \<Rightarrow> client_entry \<times> entry_effect list" where
  "setup_device views d e =
     (if vd_enabled (ce_device e d) then
        (if \<not> device_ready views d e \<and> vd_client (ce_device e d) = None
         then create_virtual_hid_client d e
         else (e, []))
      else drop_client d e)"

definition setup_virtual_hid_devices :: "views \<Rightarrow> client_entry \<Rightarrow> client_entry \<times> entry_effect list" where
  "setup_virtual_hid_devices views e =
     (let (e1, f1) = setup_device views Keyboard e;
          (e2, f2) = setup_device views Pointing e1
      in (e2, f1 @ f2))"

section \<open>The entry's operations\<close>

text \<open>
  The constructor: the watching client is created and started, and a timer is started that queries
  the devices' readiness every 1000 milliseconds.
\<close>

definition client_entry_new :: "client_entry \<times> entry_effect list" where
  "client_entry_new =
     (\<lparr>ce_device = (\<lambda>d. \<lparr>vd_client = None, vd_generation = 0, vd_enabled = False\<rparr>),
       ce_parameters = default_parameters, ce_no_virtual_devices = 0, ce_last_response = None, ce_next = 1\<rparr>,
      [Create_io_client 0, Io_client_task 0 Ioc_start])"

definition client_entry_destroy :: "client_entry \<Rightarrow> entry_effect list" where
  "client_entry_destroy e =
     snd (drop_client Pointing e) @ snd (drop_client Keyboard e) @ [Destroy_io_client (ce_no_virtual_devices e)]"

definition on_ready_timer :: "client_entry \<Rightarrow> entry_effect list" where
  "on_ready_timer e =
     (case vd_client (ce_device e Keyboard) of None \<Rightarrow> [] | Some r \<Rightarrow> [Io_client_task r Ioc_keyboard_ready]) @
     (case vd_client (ce_device e Pointing) of None \<Rightarrow> [] | Some r \<Rightarrow> [Io_client_task r Ioc_pointing_ready])"

text \<open>The slots of the objects' signals. A destroyed object emits no signal.\<close>

definition on_opened :: "nat \<Rightarrow> client_entry \<Rightarrow> entry_effect list" where
  "on_opened r e =
     (if vd_client (ce_device e Keyboard) = Some r then [Io_client_task r (Ioc_keyboard_initialize (ce_parameters e))]
      else if vd_client (ce_device e Pointing) = Some r then [Io_client_task r Ioc_pointing_initialize]
      else [])"

text \<open>A change of the parameters destroys the keyboard's client.\<close>

definition drop_if_changed ::
  "virtual_hid_keyboard_parameters \<Rightarrow> client_entry \<Rightarrow> client_entry \<times> entry_effect list" where
  "drop_if_changed parameters e =
     (if vd_client (ce_device e Keyboard) \<noteq> None \<and> ce_parameters e \<noteq> parameters
      then drop_client Keyboard e else (e, []))"

text \<open>What the dispatcher thread does with a closure of the entry.\<close>

definition run_entry_task :: "views \<Rightarrow> entry_task \<Rightarrow> client_entry \<Rightarrow> client_entry \<times> entry_effect list" where
  "run_entry_task views task e =
     (case task of
        Entry_initialize_keyboard parameters \<Rightarrow>
          (let (e1, f1) = drop_if_changed parameters e;
               e2 = (update_device Keyboard (\<lambda>v. v\<lparr>vd_enabled := True\<rparr>) e1)\<lparr>ce_parameters := parameters\<rparr>;
               (e3, f3) = setup_virtual_hid_devices views e2;
               (e4, f4) = check_status_changed views e3
           in (e4, f1 @ f3 @ f4))
      | Entry_terminate_keyboard \<Rightarrow>
          (let e1 = update_device Keyboard (\<lambda>v. v\<lparr>vd_enabled := False, vd_generation := vd_generation v + 1\<rparr>) e;
               (e2, f2) = drop_client Keyboard e1;
               (e3, f3) = check_status_changed views e2
           in (e3, f2 @ f3))
      | Entry_initialize_pointing \<Rightarrow>
          (let e1 = update_device Pointing (\<lambda>v. v\<lparr>vd_enabled := True\<rparr>) e;
               (e2, f2) = setup_virtual_hid_devices views e1;
               (e3, f3) = check_status_changed views e2
           in (e3, f2 @ f3))
      | Entry_terminate_pointing \<Rightarrow>
          (let e1 = update_device Pointing (\<lambda>v. v\<lparr>vd_enabled := False, vd_generation := vd_generation v + 1\<rparr>) e;
               (e2, f2) = drop_client Pointing e1;
               (e3, f3) = check_status_changed views e2
           in (e3, f2 @ f3))
      | Entry_check_status \<Rightarrow> check_status_changed views e
      | Entry_recreate d generation_id \<Rightarrow>
          (if generation_id \<noteq> vd_generation (ce_device e d) then (e, [])
           else if vd_enabled (ce_device e d) \<and> \<not> device_ready views d e then
             (let (e1, f1) = drop_client d e;
                  (e2, f2) = setup_virtual_hid_devices views e1
              in (e2, f1 @ f2))
           else (e, [])))"

section \<open>The manager\<close>

type_synonym peer_id = nat
type_synonym manager = "peer_id \<Rightarrow> client_entry option"

datatype manager_error = Logic_error string

text \<open>Every operation throws when it is not called in the dispatcher thread (\<open>thr\<close>).\<close>

definition in_dispatcher_thread :: "bool \<Rightarrow> string \<Rightarrow> 'a \<Rightarrow> manager_error + 'a" where
  "in_dispatcher_thread thr func x = (if \<not> thr then Inl (Logic_error func) else Inr x)"

definition create_client_entry :: "bool \<Rightarrow> peer_id \<Rightarrow> manager \<Rightarrow> manager_error + manager \<times> entry_effect list" where
  "create_client_entry thr peer m =
     in_dispatcher_thread thr ''create_client''
       (case m peer of
          Some e \<Rightarrow> (m, [])
        | None \<Rightarrow> (m(peer \<mapsto> fst client_entry_new), snd client_entry_new))"

definition erase_client_entry :: "bool \<Rightarrow> peer_id \<Rightarrow> manager \<Rightarrow> manager_error + manager \<times> entry_effect list" where
  "erase_client_entry thr peer m =
     in_dispatcher_thread thr ''erase_client''
       (m(peer := None), case m peer of None \<Rightarrow> [] | Some e \<Rightarrow> client_entry_destroy e)"

text \<open>The operations that enqueue a closure on the peer's entry.\<close>

definition enqueue_on_entry ::
  "string \<Rightarrow> entry_task \<Rightarrow> bool \<Rightarrow> peer_id \<Rightarrow> manager \<Rightarrow> manager_error + entry_effect list" where
  "enqueue_on_entry func task thr peer m =
     in_dispatcher_thread thr func (case m peer of None \<Rightarrow> [] | Some e \<Rightarrow> [Enqueue_entry task 0])"

definition async_check_status_changed :: "bool \<Rightarrow> peer_id \<Rightarrow> manager \<Rightarrow> manager_error + entry_effect list" where
  "async_check_status_changed = enqueue_on_entry ''async_check_status_changed'' Entry_check_status"

definition initialize_keyboard ::
  "virtual_hid_keyboard_parameters \<Rightarrow> bool \<Rightarrow> peer_id \<Rightarrow> manager \<Rightarrow> manager_error + entry_effect list" where
  "initialize_keyboard parameters =
     enqueue_on_entry ''initialize_keyboard'' (Entry_initialize_keyboard parameters)"

definition terminate_keyboard :: "bool \<Rightarrow> peer_id \<Rightarrow> manager \<Rightarrow> manager_error + entry_effect list" where
  "terminate_keyboard = enqueue_on_entry ''terminate_keyboard'' Entry_terminate_keyboard"

definition initialize_pointing :: "bool \<Rightarrow> peer_id \<Rightarrow> manager \<Rightarrow> manager_error + entry_effect list" where
  "initialize_pointing = enqueue_on_entry ''initialize_pointing'' Entry_initialize_pointing"

definition terminate_pointing :: "bool \<Rightarrow> peer_id \<Rightarrow> manager \<Rightarrow> manager_error + entry_effect list" where
  "terminate_pointing = enqueue_on_entry ''terminate_pointing'' Entry_terminate_pointing"

text \<open>Resets and reports go to the device's client object, if there is one.\<close>

definition on_device_client ::
  "device \<Rightarrow> ioc_task \<Rightarrow> peer_id \<Rightarrow> manager \<Rightarrow> entry_effect list" where
  "on_device_client d task peer m =
     (case m peer of
        None \<Rightarrow> []
      | Some e \<Rightarrow>
          (case vd_client (ce_device e d) of None \<Rightarrow> [] | Some r \<Rightarrow> [Io_client_task r task]))"

definition manager_keyboard_reset :: "bool \<Rightarrow> peer_id \<Rightarrow> manager \<Rightarrow> manager_error + entry_effect list" where
  "manager_keyboard_reset thr peer m =
     in_dispatcher_thread thr ''virtual_hid_keyboard_reset'' (on_device_client Keyboard Ioc_keyboard_reset peer m)"

definition manager_pointing_reset :: "bool \<Rightarrow> peer_id \<Rightarrow> manager \<Rightarrow> manager_error + entry_effect list" where
  "manager_pointing_reset thr peer m =
     in_dispatcher_thread thr ''virtual_hid_pointing_reset'' (on_device_client Pointing Ioc_pointing_reset peer m)"

definition manager_make_response :: "(peer_id \<Rightarrow> views) \<Rightarrow> bool \<Rightarrow> peer_id \<Rightarrow> manager \<Rightarrow> manager_error + bytes" where
  "manager_make_response views thr peer m =
     in_dispatcher_thread thr ''make_response''
       (case m peer of None \<Rightarrow> [] | Some e \<Rightarrow> make_response (views peer) e)"

definition manager_post_report ::
  "device \<Rightarrow> bool \<Rightarrow> peer_id \<Rightarrow> bytes option \<Rightarrow> nat \<Rightarrow> user_client_method \<Rightarrow> nat \<Rightarrow> manager \<Rightarrow>
   manager_error + entry_effect list" where
  "manager_post_report d thr peer buffer report_offset method expected_size m =
     in_dispatcher_thread thr ''post_report''
       (case buffer of
          None \<Rightarrow> []
        | Some b \<Rightarrow>
            if report_offset > length b then []
            else if expected_size \<noteq> length b - report_offset then []
            else on_device_client d (Ioc_post_report method buffer report_offset) peer m)"

definition post_keyboard_report ::
  "bool \<Rightarrow> peer_id \<Rightarrow> bytes option \<Rightarrow> nat \<Rightarrow> user_client_method \<Rightarrow> nat \<Rightarrow> manager \<Rightarrow>
   manager_error + entry_effect list" where
  "post_keyboard_report = manager_post_report Keyboard"

definition post_pointing_report ::
  "bool \<Rightarrow> peer_id \<Rightarrow> bytes option \<Rightarrow> nat \<Rightarrow> user_client_method \<Rightarrow> nat \<Rightarrow> manager \<Rightarrow>
   manager_error + entry_effect list" where
  "post_pointing_report = manager_post_report Pointing"

section \<open>Runs of an entry\<close>

primrec pending_of :: "entry_effect list \<Rightarrow> entry_task list" where
  "pending_of [] = []"
| "pending_of (f # fs) = (case f of Enqueue_entry task delay \<Rightarrow> [task] | _ \<Rightarrow> []) @ pending_of fs"

record entry_system =
  es_entry :: client_entry
  es_pending :: "entry_task list"
  es_trace :: "entry_effect list"
  es_runs :: nat
    \<comment> \<open>the closures run so far\<close>

text \<open>
  The server's calls enqueue closures, the dispatcher runs queued ones (in any order, so in particular
  whatever the delays), the objects emit signals and the timer fires. Each step may find the queries of the
  objects answering anything (\<open>views\<close>).
\<close>

inductive entry_step :: "entry_system \<Rightarrow> entry_system \<Rightarrow> bool" where
  entry_step_call: "task \<in> {Entry_terminate_keyboard, Entry_initialize_pointing, Entry_terminate_pointing,
       Entry_check_status} \<union> range Entry_initialize_keyboard \<Longrightarrow>
     entry_step s (s\<lparr>es_pending := es_pending s @ [task]\<rparr>)"
| entry_step_run: "es_pending s = q1 @ task # q2 \<Longrightarrow> run_entry_task views task (es_entry s) = (e', f) \<Longrightarrow>
     entry_step s \<lparr>es_entry = e', es_pending = q1 @ q2 @ pending_of f, es_trace = es_trace s @ f,
       es_runs = es_runs s + 1\<rparr>"
| entry_step_state_changed: "check_status_changed views (es_entry s) = (e', f) \<Longrightarrow>
     entry_step s (s\<lparr>es_entry := e', es_trace := es_trace s @ f\<rparr>)"
| entry_step_opened: "entry_step s (s\<lparr>es_trace := es_trace s @ on_opened r (es_entry s)\<rparr>)"
| entry_step_timer: "entry_step s (s\<lparr>es_trace := es_trace s @ on_ready_timer (es_entry s)\<rparr>)"

definition entry_start :: entry_system where
  "entry_start = \<lparr>es_entry = fst client_entry_new, es_pending = [], es_trace = snd client_entry_new, es_runs = 0\<rparr>"

abbreviation entry_reachable :: "entry_system \<Rightarrow> bool" where
  "entry_reachable \<equiv> reaches (\<lambda>s. s = entry_start) entry_step"

lemma entry_reach_init: "entry_reachable entry_start"
  by (rule reaches_init) simp

lemma entry_reach_step: "entry_reachable s \<Longrightarrow> entry_step s s' \<Longrightarrow> entry_reachable s'"
  by (rule reaches_step)

lemma pending_of_append [simp]: "pending_of (xs @ ys) = pending_of xs @ pending_of ys"
  by (induction xs) simp_all

lemma update_device_frame [simp]:
  "ce_parameters (update_device d f e) = ce_parameters e"
  "ce_no_virtual_devices (update_device d f e) = ce_no_virtual_devices e"
  "ce_last_response (update_device d f e) = ce_last_response e" "ce_next (update_device d f e) = ce_next e"
  "ce_device (update_device d f e) d' = (if d' = d then f (ce_device e d) else ce_device e d')"
  by (simp_all add: update_device_def)

text \<open>
  A relation between an entry and the effects so far that holds at the start and is kept by each of
  the small operations an entry is made of. The lemmas carry it through the closures and whole
  runs, so an invariant needs only its interpretation.
\<close>

locale entry_invariant =
  fixes P :: "client_entry \<Rightarrow> entry_effect list \<Rightarrow> bool"
  assumes start: "P (fst client_entry_new) (snd client_entry_new)"
    and drop: "P e tr \<Longrightarrow> drop_client d e = (e', f) \<Longrightarrow> P e' (tr @ f)"
    and create: "P e tr \<Longrightarrow> vd_client (ce_device e d) = None \<Longrightarrow>
       create_virtual_hid_client d e = (e', f) \<Longrightarrow> P e' (tr @ f)"
    and enable: "P e tr \<Longrightarrow> (\<And>v. vd_client (u v) = vd_client v) \<Longrightarrow> P (update_device d u e) tr"
    and params: "P e tr \<Longrightarrow> vd_client (ce_device e Keyboard) = None \<or> ce_parameters e = p \<Longrightarrow>
       P (e\<lparr>ce_parameters := p\<rparr>) tr"
    and status: "P e tr \<Longrightarrow> check_status_changed views e = (e', f) \<Longrightarrow> P e' (tr @ f)"
    and opened: "P e tr \<Longrightarrow> P e (tr @ on_opened r e)"
    and timer: "P e tr \<Longrightarrow> P e (tr @ on_ready_timer e)"
begin

lemma setup_one: "P e tr \<Longrightarrow> setup_device views d e = (e', f) \<Longrightarrow> P e' (tr @ f)"
  by (auto simp: setup_device_def split: if_splits intro: create drop)

lemma setup_both:
  assumes "P e tr" "setup_virtual_hid_devices views e = (e', f)"
  shows "P e' (tr @ f)"
proof -
  obtain e1 f1 where 1: "setup_device views Keyboard e = (e1, f1)" by fastforce
  obtain e2 f2 where 2: "setup_device views Pointing e1 = (e2, f2)" by fastforce
  from setup_one[OF setup_one[OF assms(1) 1] 2] assms(2) show ?thesis
    by (simp add: setup_virtual_hid_devices_def 1 2)
qed

lemma setup_status:
  assumes "P e tr"
  shows "P (fst (check_status_changed views (fst (setup_virtual_hid_devices views e))))
    (tr @ snd (setup_virtual_hid_devices views e) @
      snd (check_status_changed views (fst (setup_virtual_hid_devices views e))))"
  using status[OF setup_both[OF assms prod.collapse[symmetric]] prod.collapse[symmetric]] by simp

lemma terminate:
  assumes "P e tr" "\<And>v. vd_client (u v) = vd_client v"
  shows "P (fst (check_status_changed views (fst (drop_client d (update_device d u e)))))
    (tr @ snd (drop_client d (update_device d u e)) @
      snd (check_status_changed views (fst (drop_client d (update_device d u e)))))"
  using status[OF drop[OF enable[OF assms] prod.collapse[symmetric]] prod.collapse[symmetric]] by simp

lemma change_parameters:
  assumes "P e tr"
    and "drop_if_changed p e = (e1, f1)"
  shows "P ((update_device Keyboard (\<lambda>v. v\<lparr>vd_enabled := True\<rparr>) e1)\<lparr>ce_parameters := p\<rparr>) (tr @ f1)"
proof -
  have "P e1 (tr @ f1)" using assms by (auto simp: drop_if_changed_def split: if_splits intro: drop)
  moreover have "vd_client (ce_device e1 Keyboard) = None \<or> ce_parameters e1 = p"
    using assms(2) by (auto simp: drop_if_changed_def drop_client_def split: if_splits)
  ultimately show ?thesis by (intro params enable) auto
qed

lemma run:
  assumes "P e tr" "run_entry_task views task e = (e', f)"
  shows "P e' (tr @ f)"
proof (cases task)
  case (Entry_initialize_keyboard p)
  obtain e1 f1 where c: "drop_if_changed p e = (e1, f1)" by fastforce
  show ?thesis
    using setup_status[OF change_parameters[OF assms(1) c]] assms(2)
    by (auto simp: run_entry_task_def Entry_initialize_keyboard c case_prod_beta Let_def)
next
  case Entry_terminate_keyboard
  then show ?thesis
    using terminate[OF assms(1), of "\<lambda>v. v\<lparr>vd_enabled := False, vd_generation := vd_generation v + 1\<rparr>" views Keyboard]
      assms(2) by (auto simp: run_entry_task_def case_prod_beta Let_def)
next
  case Entry_initialize_pointing
  then show ?thesis
    using setup_status[OF enable[OF assms(1), of "\<lambda>v. v\<lparr>vd_enabled := True\<rparr>" Pointing]] assms(2)
    by (auto simp: run_entry_task_def case_prod_beta Let_def)
next
  case Entry_terminate_pointing
  then show ?thesis
    using terminate[OF assms(1), of "\<lambda>v. v\<lparr>vd_enabled := False, vd_generation := vd_generation v + 1\<rparr>" views Pointing]
      assms(2) by (auto simp: run_entry_task_def case_prod_beta Let_def)
next
  case Entry_check_status
  then show ?thesis using assms by (auto simp: run_entry_task_def intro: status)
next
  case (Entry_recreate d g)
  then show ?thesis
    using assms setup_both[OF drop[OF assms(1) prod.collapse[symmetric]] prod.collapse[symmetric], of views d]
    by (auto simp: run_entry_task_def case_prod_beta split: if_splits)
qed

end

sublocale entry_invariant \<subseteq> steps: step_invariant entry_step "\<lambda>s. s = entry_start" "\<lambda>s. P (es_entry s) (es_trace s)"
proof unfold_locales
  show "P (es_entry t) (es_trace t)" if "entry_step s t" "P (es_entry s) (es_trace s)" for s t
    using that by (cases rule: entry_step.cases) (auto intro: run status opened timer)
qed (simp add: start entry_start_def)

subsection \<open>Objects\<close>

text \<open>
  The objects alive after the effects: created once, destroyed once, used only in between; \<open>None\<close> is
  a violation.
\<close>

primrec live_run :: "entry_effect list \<Rightarrow> nat set \<Rightarrow> nat set option" where
  "live_run [] S = Some S"
| "live_run (f # fs) S =
     (case f of
        Create_io_client r \<Rightarrow> if r \<in> S then None else live_run fs (insert r S)
      | Destroy_io_client r \<Rightarrow> if r \<in> S then live_run fs (S - {r}) else None
      | Io_client_task r task \<Rightarrow> if r \<in> S then live_run fs S else None
      | Enqueue_entry task delay \<Rightarrow> live_run fs S
      | Status_changed b \<Rightarrow> live_run fs S)"

definition entry_objects :: "client_entry \<Rightarrow> nat set" where
  "entry_objects e = insert (ce_no_virtual_devices e)
     (set_option (vd_client (ce_device e Keyboard)) \<union> set_option (vd_client (ce_device e Pointing)))"

definition objects_inv :: "client_entry \<Rightarrow> entry_effect list \<Rightarrow> bool" where
  "objects_inv e tr \<longleftrightarrow>
     live_run tr {} = Some (entry_objects e) \<and> (\<forall>r\<in>entry_objects e. r < ce_next e) \<and>
     vd_client (ce_device e Keyboard) \<noteq> Some (ce_no_virtual_devices e) \<and>
     vd_client (ce_device e Pointing) \<noteq> Some (ce_no_virtual_devices e) \<and>
     (vd_client (ce_device e Keyboard) = vd_client (ce_device e Pointing) \<longrightarrow>
        vd_client (ce_device e Keyboard) = None)"

lemma live_run_append [simp]:
  "live_run (xs @ ys) S = (case live_run xs S of None \<Rightarrow> None | Some S' \<Rightarrow> live_run ys S')"
  by (induction xs arbitrary: S) (simp_all split: entry_effect.split)

lemma check_status_effect:
  assumes "check_status_changed views e = (e', f)"
  shows "ce_device e' = ce_device e" "ce_parameters e' = ce_parameters e" "ce_next e' = ce_next e"
    "ce_no_virtual_devices e' = ce_no_virtual_devices e"
    "f = (if ce_last_response e = ce_last_response e' then [] else [Status_changed (make_response views e)])"
    "ce_last_response e' = Some (make_response views e)"
  using assms by (auto simp: check_status_changed_def Let_def split: if_splits)

interpretation objects: entry_invariant objects_inv
proof unfold_locales
  fix e e' :: client_entry and tr f d
  assume P: "objects_inv e tr" and d: "drop_client d e = (e', f)"
  show "objects_inv e' (tr @ f)"
    using P d by (cases d; cases "vd_client (ce_device e d)")
      (auto simp: objects_inv_def drop_client_def entry_objects_def)
next
  fix e e' :: client_entry and tr f d
  assume P: "objects_inv e tr" and n: "vd_client (ce_device e d) = None"
    and c: "create_virtual_hid_client d e = (e', f)"
  have "ce_next e \<notin> entry_objects e" using P by (auto simp: objects_inv_def)
  with P n c show "objects_inv e' (tr @ f)"
    by (cases d) (auto simp: objects_inv_def create_virtual_hid_client_def entry_objects_def Let_def)
next
  fix e e' :: client_entry and tr f views
  assume "objects_inv e tr" "check_status_changed views e = (e', f)"
  then show "objects_inv e' (tr @ f)"
    using check_status_effect[of views e e' f] by (simp add: objects_inv_def entry_objects_def)
next
  fix e :: client_entry and tr r
  assume "objects_inv e tr"
  then show "objects_inv e (tr @ on_opened r e)"
    by (auto simp: objects_inv_def on_opened_def entry_objects_def)
next
  fix e :: client_entry and tr
  assume "objects_inv e tr"
  then show "objects_inv e (tr @ on_ready_timer e)"
    by (auto simp: objects_inv_def on_ready_timer_def entry_objects_def split: option.split)
qed (auto simp: objects_inv_def client_entry_new_def entry_objects_def)

subsection \<open>Parameters\<close>

abbreviation initialized_with :: "nat \<Rightarrow> virtual_hid_keyboard_parameters \<Rightarrow> entry_effect" where
  "initialized_with r p \<equiv> Io_client_task r (Ioc_keyboard_initialize p)"

definition parameters_inv :: "client_entry \<Rightarrow> entry_effect list \<Rightarrow> bool" where
  "parameters_inv e tr \<longleftrightarrow>
     (\<forall>r p. initialized_with r p \<in> set tr \<longrightarrow> r < ce_next e) \<and>
     (\<forall>r. vd_client (ce_device e Keyboard) = Some r \<longrightarrow> r < ce_next e \<and>
        (\<forall>p. initialized_with r p \<in> set tr \<longrightarrow> p = ce_parameters e)) \<and>
     (\<forall>r p q. initialized_with r p \<in> set tr \<longrightarrow> initialized_with r q \<in> set tr \<longrightarrow> p = q)"

interpretation parameters: entry_invariant parameters_inv
proof unfold_locales
  fix e e' :: client_entry and tr f d
  assume P: "parameters_inv e tr" and d: "drop_client d e = (e', f)"
  show "parameters_inv e' (tr @ f)"
    using P d unfolding parameters_inv_def drop_client_def by (auto split: option.splits if_splits)
next
  fix e e' :: client_entry and tr f d
  assume P: "parameters_inv e tr" and n: "vd_client (ce_device e d) = None"
    and c: "create_virtual_hid_client d e = (e', f)"
  show "parameters_inv e' (tr @ f)"
    using P n c unfolding parameters_inv_def create_virtual_hid_client_def Let_def
    by (cases d) (auto simp: less_Suc_eq)
next
  fix e e' :: client_entry and tr f views
  assume "parameters_inv e tr" "check_status_changed views e = (e', f)"
  then show "parameters_inv e' (tr @ f)"
    using check_status_effect[of views e e' f] by (simp add: parameters_inv_def)
next
  fix e :: client_entry and tr r
  assume "parameters_inv e tr"
  then show "parameters_inv e (tr @ on_opened r e)"
    unfolding parameters_inv_def on_opened_def by (auto split: if_splits)
next
  fix e :: client_entry and tr
  assume "parameters_inv e tr"
  then show "parameters_inv e (tr @ on_ready_timer e)"
    unfolding parameters_inv_def on_ready_timer_def by (auto split: option.splits)
qed (auto simp: parameters_inv_def client_entry_new_def)

subsection \<open>Status notifications\<close>

primrec statuses :: "entry_effect list \<Rightarrow> bytes list" where
  "statuses [] = []"
| "statuses (f # fs) = (case f of Status_changed b \<Rightarrow> [b] | _ \<Rightarrow> []) @ statuses fs"

lemma statuses_append [simp]: "statuses (xs @ ys) = statuses xs @ statuses ys"
  by (induction xs) simp_all

definition status_inv :: "client_entry \<Rightarrow> entry_effect list \<Rightarrow> bool" where
  "status_inv e tr \<longleftrightarrow> distinct_adj (statuses tr) \<and>
     ce_last_response e = (if statuses tr = [] then None else Some (last (statuses tr)))"

interpretation status: entry_invariant status_inv
proof unfold_locales
  fix e e' :: client_entry and tr f d
  assume "status_inv e tr" "drop_client d e = (e', f)"
  then show "status_inv e' (tr @ f)"
    by (auto simp: status_inv_def drop_client_def split: option.splits)
next
  fix e e' :: client_entry and tr f d
  assume "status_inv e tr" "create_virtual_hid_client d e = (e', f)" "vd_client (ce_device e d) = None"
  then show "status_inv e' (tr @ f)"
    by (auto simp: status_inv_def create_virtual_hid_client_def Let_def)
next
  fix e e' :: client_entry and tr f views
  assume "status_inv e tr" "check_status_changed views e = (e', f)"
  then show "status_inv e' (tr @ f)"
    by (auto simp: status_inv_def check_status_changed_def Let_def distinct_adj_append_iff split: if_splits)
next
  fix e :: client_entry and tr r
  assume "status_inv e tr"
  then show "status_inv e (tr @ on_opened r e)"
    by (auto simp: status_inv_def on_opened_def)
next
  fix e :: client_entry and tr
  assume "status_inv e tr"
  then show "status_inv e (tr @ on_ready_timer e)"
    by (auto simp: status_inv_def on_ready_timer_def split: option.split)
qed (auto simp: status_inv_def client_entry_new_def)

subsection \<open>Generations\<close>

primrec recreates :: "entry_task list \<Rightarrow> (device \<times> u32) list" where
  "recreates [] = []"
| "recreates (k # ks) = (case k of Entry_recreate d g \<Rightarrow> [(d, g)] | _ \<Rightarrow> []) @ recreates ks"

text \<open>
  Pending checks: no generation is checked twice, none is newer than its device's, and those of a
  disabled device are older. A device's generation is at most \<open>n\<close>, the increments so far.
\<close>

definition generation_inv :: "(device \<Rightarrow> nat) \<Rightarrow> client_entry \<Rightarrow> entry_task list \<Rightarrow> bool" where
  "generation_inv n e q \<longleftrightarrow> distinct (recreates q) \<and> (\<forall>d. unat (vd_generation (ce_device e d)) \<le> n d) \<and>
     (\<forall>d g. (d, g) \<in> set (recreates q) \<longrightarrow> unat g \<le> unat (vd_generation (ce_device e d)) \<and>
        (\<not> vd_enabled (ce_device e d) \<longrightarrow> unat g < unat (vd_generation (ce_device e d))))"

text \<open>A device has a client object exactly when it is enabled.\<close>

definition enabled_inv :: "client_entry \<Rightarrow> bool" where
  "enabled_inv e \<longleftrightarrow> (\<forall>d. vd_client (ce_device e d) \<noteq> None \<longleftrightarrow> vd_enabled (ce_device e d))"

lemma recreates_append [simp]: "recreates (xs @ ys) = recreates xs @ recreates ys"
  by (induction xs) simp_all

lemma recreates_iff: "(d, g) \<in> set (recreates q) \<longleftrightarrow> Entry_recreate d g \<in> set q"
  by (induction q) (auto split: entry_task.split)

lemma generation_inv_pop:
  "generation_inv n e (q1 @ task # q2) \<Longrightarrow> generation_inv n e (q1 @ q2)"
  by (auto simp: generation_inv_def)

lemma generation_inv_mono: "generation_inv n e q \<Longrightarrow> (\<And>d. n d \<le> m d) \<Longrightarrow> generation_inv m e q"
  unfolding generation_inv_def using le_trans by blast

lemma generation_inv_drop:
  "generation_inv n e q \<Longrightarrow> drop_client d e = (e', f) \<Longrightarrow> generation_inv n e' (q @ pending_of f)"
  by (auto simp: generation_inv_def drop_client_def split: option.splits)

lemma generation_inv_enable:
  "generation_inv n e q \<Longrightarrow> generation_inv n (update_device d (\<lambda>v. v\<lparr>vd_enabled := True\<rparr>) e) q"
  by (auto simp: generation_inv_def)

text \<open>An increment below the bound does not wrap.\<close>

lemma generation_Suc:
  assumes "generation_inv n e q" "n d < 2 ^ 31"
  shows "unat (vd_generation (ce_device e d) + 1) = Suc (unat (vd_generation (ce_device e d)))"
proof -
  let ?g = "vd_generation (ce_device e d)"
  have "unat ?g \<le> n d" using assms(1) by (simp add: generation_inv_def)
  then have "unat (of_nat (Suc (unat ?g)) :: u32) = Suc (unat ?g)"
    using assms(2) by (intro unat_of_nat_less) simp
  then show ?thesis by (simp add: add.commute)
qed

lemma generation_inv_disable:
  assumes "generation_inv n e q" "n d < 2 ^ 31"
  shows "generation_inv (n(d := Suc (n d)))
    (update_device d (\<lambda>v. v\<lparr>vd_enabled := False, vd_generation := vd_generation v + 1\<rparr>) e) q"
  using assms generation_Suc[OF assms] unfolding generation_inv_def by (force simp: le_imp_less_Suc)

lemma generation_inv_create:
  assumes inv: "generation_inv n e q" and n: "n d < 2 ^ 31" and en: "vd_enabled (ce_device e d)"
    and c: "create_virtual_hid_client d e = (e', f)"
  shows "generation_inv (n(d := Suc (n d))) e' (q @ pending_of f)"
proof -
  let ?g = "vd_generation (ce_device e d)"
  note suc = generation_Suc[OF inv n]
  have "(d, ?g + 1) \<notin> set (recreates q)" using inv suc unfolding generation_inv_def by fastforce
  moreover have "recreates (pending_of f) = [(d, ?g + 1)]"
    "ce_device e' d' = (if d' = d then (ce_device e d)\<lparr>vd_client := Some (ce_next e), vd_generation := ?g + 1\<rparr> else ce_device e d')" for d'
    using c by (auto simp: create_virtual_hid_client_def Let_def split: option.splits)
  ultimately show ?thesis
    using inv suc en unfolding generation_inv_def by (auto intro: le_SucI)
qed

lemma generation_inv_status:
  "generation_inv n e q \<Longrightarrow> check_status_changed views e = (e', f) \<Longrightarrow> generation_inv n e' (q @ pending_of f)"
  using check_status_effect[of views e e' f] by (simp add: generation_inv_def)

lemma generation_inv_setup_device:
  assumes "generation_inv n e q" "n d < 2 ^ 31" "setup_device views d e = (e', f)"
  shows "generation_inv (n(d := Suc (n d))) e' (q @ pending_of f)"
proof -
  have "generation_inv (n(d := Suc (n d))) e q" using assms(1) by (rule generation_inv_mono) simp
  then show ?thesis
    using assms generation_inv_create[OF assms(1,2)] generation_inv_drop
    by (auto simp: setup_device_def split: if_splits)
qed

lemma generation_inv_setup:
  assumes "generation_inv (\<lambda>_. n) e q" "n < 2 ^ 31" "setup_virtual_hid_devices views e = (e', f)"
  shows "generation_inv (\<lambda>_. Suc n) e' (q @ pending_of f)"
proof -
  obtain e1 f1 where 1: "setup_device views Keyboard e = (e1, f1)" by fastforce
  obtain e2 f2 where 2: "setup_device views Pointing e1 = (e2, f2)" by fastforce
  have "generation_inv ((\<lambda>_. n)(Keyboard := Suc n, Pointing := Suc n)) e2 (q @ pending_of f1 @ pending_of f2)"
    using generation_inv_setup_device[OF generation_inv_setup_device[OF assms(1) _ 1] _ 2] assms(2) by simp
  then have "generation_inv (\<lambda>_. Suc n) e2 (q @ pending_of f1 @ pending_of f2)"
    by (rule generation_inv_mono) simp
  then show ?thesis using assms(3) by (auto simp: setup_virtual_hid_devices_def 1 2)
qed

lemma setup_device_enabled:
  assumes "setup_device views d e = (e', f)"
  shows "vd_client (ce_device e' d) \<noteq> None \<longleftrightarrow> vd_enabled (ce_device e' d)"
    and "d' \<noteq> d \<Longrightarrow> ce_device e' d' = ce_device e d'"
  using assms
  by (auto simp: setup_device_def create_virtual_hid_client_def drop_client_def device_ready_def Let_def
      split: if_splits option.splits)

lemma setup_enabled:
  assumes "setup_virtual_hid_devices views e = (e', f)"
  shows "enabled_inv e'"
proof -
  obtain e1 f1 where 1: "setup_device views Keyboard e = (e1, f1)" by fastforce
  obtain e2 f2 where 2: "setup_device views Pointing e1 = (e2, f2)" by fastforce
  have e': "e' = e2" using assms by (simp add: setup_virtual_hid_devices_def 1 2)
  have "vd_client (ce_device e2 d) \<noteq> None \<longleftrightarrow> vd_enabled (ce_device e2 d)" for d
    using setup_device_enabled[OF 1] setup_device_enabled[OF 2] by (cases d) auto
  then show ?thesis by (simp add: enabled_inv_def e')
qed

lemma status_enabled: "check_status_changed views e = (e', f) \<Longrightarrow> enabled_inv e' = enabled_inv e"
  using check_status_effect[of views e e' f] by (simp add: enabled_inv_def)

lemma disable_enabled:
  "enabled_inv e \<Longrightarrow> drop_client d (update_device d (\<lambda>v. v\<lparr>vd_enabled := False, vd_generation := vd_generation v + 1\<rparr>) e)
     = (e', f) \<Longrightarrow> enabled_inv e'"
  unfolding enabled_inv_def drop_client_def by clarsimp

lemmas collapse = prod.collapse[symmetric]

lemma run_entry_enabled:
  assumes a: "enabled_inv e" and r: "run_entry_task views task e = (e', f)"
  shows "enabled_inv e'"
proof (cases task)
  case (Entry_recreate d g)
  then show ?thesis
    using a r setup_enabled[OF collapse] by (auto simp: run_entry_task_def case_prod_beta split: if_splits)
next
  case Entry_check_status
  then show ?thesis using a r status_enabled by (auto simp: run_entry_task_def)
qed (use r a setup_enabled[OF collapse] disable_enabled[OF a collapse] status_enabled[OF collapse] in
  \<open>auto simp: run_entry_task_def case_prod_beta Let_def\<close>)

lemma generation_inv_disable_all:
  assumes "generation_inv (\<lambda>_. n) e q" "n < 2 ^ 31"
  shows "generation_inv (\<lambda>_. Suc n)
    (update_device d (\<lambda>v. v\<lparr>vd_enabled := False, vd_generation := vd_generation v + 1\<rparr>) e) q"
  using generation_inv_disable[OF assms(1), of d] assms(2) by (auto elim: generation_inv_mono)

lemma run_entry_generation:
  assumes g: "generation_inv (\<lambda>_. n) e q" and n: "n < 2 ^ 31" and r: "run_entry_task views task e = (e', f)"
  shows "generation_inv (\<lambda>_. Suc n) e' (q @ pending_of f)"
proof (cases task)
  case (Entry_initialize_keyboard p)
  obtain e1 f1 where c: "drop_if_changed p e = (e1, f1)" by fastforce
  have "generation_inv (\<lambda>_. n) e1 (q @ pending_of f1)"
    using c g by (auto simp: drop_if_changed_def split: if_splits intro: generation_inv_drop)
  then have "generation_inv (\<lambda>_. n) ((update_device Keyboard (\<lambda>v. v\<lparr>vd_enabled := True\<rparr>) e1)\<lparr>ce_parameters := p\<rparr>)
     (q @ pending_of f1)"
    using generation_inv_enable[of "\<lambda>_. n" e1 "q @ pending_of f1" Keyboard] by (simp add: generation_inv_def)
  from generation_inv_status[OF generation_inv_setup[OF this n collapse[of "setup_virtual_hid_devices views _"]] collapse]
  show ?thesis
    using r by (auto simp: run_entry_task_def Entry_initialize_keyboard c case_prod_beta Let_def)
next
  case Entry_terminate_keyboard
  then show ?thesis
    using generation_inv_status[OF generation_inv_drop[OF generation_inv_disable_all[OF g n] collapse] collapse, of views Keyboard] r
    by (auto simp: run_entry_task_def case_prod_beta Let_def)
next
  case Entry_initialize_pointing
  then show ?thesis
    using generation_inv_status[OF generation_inv_setup[OF generation_inv_enable[OF g] n collapse] collapse, of views views Pointing] r
    by (auto simp: run_entry_task_def case_prod_beta Let_def)
next
  case Entry_terminate_pointing
  then show ?thesis
    using generation_inv_status[OF generation_inv_drop[OF generation_inv_disable_all[OF g n] collapse] collapse, of views Pointing] r
    by (auto simp: run_entry_task_def case_prod_beta Let_def)
next
  case Entry_check_status
  then show ?thesis
    using r generation_inv_status[OF generation_inv_mono[OF g, of "\<lambda>_. Suc n"]] by (auto simp: run_entry_task_def)
next
  case (Entry_recreate d m)
  then show ?thesis
    using r generation_inv_mono[OF g, of "\<lambda>_. Suc n"] generation_inv_setup[OF generation_inv_drop[OF g collapse] n collapse, of views d]
    by (auto simp: run_entry_task_def case_prod_beta split: if_splits)
qed

text \<open>
  Each closure increments the generation of a device at most once, so generations do not wrap during the
  first \<^verbatim>\<open>2 ^ 31\<close> closures; whether a device has a client does not depend on that.
\<close>

definition generations_sound :: "entry_system \<Rightarrow> bool" where
  "generations_sound s \<longleftrightarrow> enabled_inv (es_entry s) \<and>
     (es_runs s < 2 ^ 31 \<longrightarrow> generation_inv (\<lambda>_. es_runs s) (es_entry s) (es_pending s))"

interpretation generations: step_invariant entry_step "\<lambda>s. s = entry_start" generations_sound
proof unfold_locales
  fix s s' assume step: "entry_step s s'" and inv: "generations_sound s"
  from step show "generations_sound s'"
  proof (cases rule: entry_step.cases)
    case (entry_step_run q1 task q2 views e' f)
    have "enabled_inv e'" using inv run_entry_enabled[OF _ entry_step_run(3)] by (simp add: generations_sound_def)
    moreover have "generation_inv (\<lambda>_. Suc (es_runs s)) e' ((q1 @ q2) @ pending_of f)" if "Suc (es_runs s) < 2 ^ 31"
    proof -
      have n: "es_runs s < 2 ^ 31" using that by simp
      then have "generation_inv (\<lambda>_. es_runs s) (es_entry s) (q1 @ q2)"
        using inv entry_step_run(2) generation_inv_pop unfolding generations_sound_def by metis
      from run_entry_generation[OF this n entry_step_run(3)] show ?thesis .
    qed
    ultimately show ?thesis by (simp add: generations_sound_def entry_step_run(1))
  next
    case (entry_step_state_changed views e' f)
    then show ?thesis
      using inv generation_inv_status[OF _ entry_step_state_changed(2), of "\<lambda>_. es_runs s" "es_pending s"]
        status_enabled[OF entry_step_state_changed(2)] check_status_effect(5)[OF entry_step_state_changed(2)]
      by (auto simp: generations_sound_def split: if_splits)
  qed (use inv in \<open>auto simp: generation_inv_def generations_sound_def\<close>)
qed (simp add: generations_sound_def generation_inv_def enabled_inv_def client_entry_new_def entry_start_def)

lemmas entry_reachable_generation = generations.reaches_inv[unfolded generations_sound_def]

subsection \<open>Terminated devices\<close>

text \<open>The closures that enable a device; without one of them a terminated device stays so.\<close>

definition initializes :: "device \<Rightarrow> entry_task \<Rightarrow> bool" where
  "initializes d task \<longleftrightarrow>
     (case task of Entry_initialize_keyboard p \<Rightarrow> d = Keyboard | Entry_initialize_pointing \<Rightarrow> d = Pointing | _ \<Rightarrow> False)"

definition terminated :: "device \<Rightarrow> client_entry \<Rightarrow> bool" where
  "terminated d e \<longleftrightarrow> \<not> vd_enabled (ce_device e d) \<and> vd_client (ce_device e d) = None"

lemma terminated_kept [simp]:
  "terminated d (fst (check_status_changed views e)) = terminated d e"
  "terminated d (e\<lparr>ce_parameters := p\<rparr>) = terminated d e"
  "d \<noteq> d' \<Longrightarrow> terminated d (update_device d' f e) = terminated d e"
  by (auto simp: terminated_def check_status_changed_def Let_def)

lemma terminated_drop:
  "terminated d e \<Longrightarrow> terminated d (fst (drop_client d' e))"
  "\<not> vd_enabled (ce_device e d) \<Longrightarrow> terminated d (fst (drop_client d e))"
  "terminated d e \<Longrightarrow> terminated d (fst (drop_if_changed p e))"
  by (auto simp: terminated_def drop_client_def drop_if_changed_def)

lemma terminated_setup_device: "terminated d e \<Longrightarrow> terminated d (fst (setup_device views d' e))"
  by (auto simp: setup_device_def create_virtual_hid_client_def terminated_def drop_client_def Let_def)

lemma terminated_setup: "terminated d e \<Longrightarrow> terminated d (fst (setup_virtual_hid_devices views e))"
  using terminated_setup_device by (simp add: setup_virtual_hid_devices_def case_prod_beta)

lemma terminate_terminates:
  "terminated Keyboard (fst (run_entry_task views Entry_terminate_keyboard e))"
  "terminated Pointing (fst (run_entry_task views Entry_terminate_pointing e))"
  by (simp_all add: run_entry_task_def case_prod_beta Let_def terminated_drop)

lemma terminated_stays:
  assumes "terminated d e" "\<not> initializes d task"
  shows "terminated d (fst (run_entry_task views task e))"
proof (cases task)
  case Entry_terminate_keyboard
  then show ?thesis using assms(1) terminate_terminates
    by (cases d) (simp_all add: run_entry_task_def case_prod_beta Let_def terminated_drop)
next
  case Entry_terminate_pointing
  then show ?thesis using assms(1) terminate_terminates
    by (cases d) (simp_all add: run_entry_task_def case_prod_beta Let_def terminated_drop)
qed (use assms in \<open>cases d; simp add: run_entry_task_def initializes_def case_prod_beta Let_def terminated_drop terminated_setup\<close>)+

lemma terminated_fold:
  "terminated d e \<Longrightarrow> list_all (\<lambda>(views, task). \<not> initializes d task) ts \<Longrightarrow>
   terminated d (fold (\<lambda>(views, task) e. fst (run_entry_task views task e)) ts e)"
  by (induction ts arbitrary: e) (auto simp: terminated_stays)

section \<open>Properties\<close>

text \<open>A run used by the witnesses: a peer initializes the keyboard, and its client opens a connection.\<close>

definition entry_demo :: entry_system where
  "entry_demo =
     (let (e, f) = run_entry_task (\<lambda>r. \<lparr>iv_driver_activated = True, iv_driver_connected = True,
            iv_driver_version_mismatched = False, iv_keyboard_ready = None, iv_pointing_ready = None\<rparr>)
            (Entry_initialize_keyboard default_parameters) (fst client_entry_new)
      in \<lparr>es_entry = e, es_pending = pending_of f,
          es_trace = (snd client_entry_new @ f) @ on_opened 1 e, es_runs = 1\<rparr>)"

lemma entry_demo_reachable: "entry_reachable entry_demo"
proof -
  let ?v = "\<lambda>r :: nat. \<lparr>iv_driver_activated = True, iv_driver_connected = True,
      iv_driver_version_mismatched = False, iv_keyboard_ready = None, iv_pointing_ready = None\<rparr>"
  let ?k = "Entry_initialize_keyboard default_parameters"
  let ?e = "fst client_entry_new" and ?t = "snd client_entry_new"
  let ?r = "run_entry_task ?v ?k ?e"
  have 1: "entry_reachable \<lparr>es_entry = ?e, es_pending = [?k], es_trace = ?t, es_runs = 0\<rparr>"
    using entry_reach_step[OF entry_reach_init entry_step_call[of ?k]] by (simp add: entry_start_def)
  have 2: "entry_reachable \<lparr>es_entry = fst ?r, es_pending = pending_of (snd ?r), es_trace = ?t @ snd ?r, es_runs = 1\<rparr>"
    using entry_reach_step[OF 1 entry_step_run[of _ "[]" ?k "[]" ?v "fst ?r" "snd ?r"]] by simp
  show ?thesis
    using entry_reach_step[OF 2 entry_step_opened[of _ 1]] by (simp add: entry_demo_def case_prod_beta)
qed

lemmas entry_eval = entry_demo_def run_entry_task_def client_entry_new_def drop_if_changed_def
  setup_virtual_hid_devices_def setup_device_def device_ready_def create_virtual_hid_client_def
  drop_client_def check_status_changed_def make_response_def append_response_def on_opened_def
  update_device_def Let_def

text \<open>
  C3. A virtual device has a connection to the driver exactly while it is enabled: in every reachable state
  of a peer's entry, under every interleaving of requests, delayed checks and driver answers.
  In particular a terminated device is never revived by a check that was still pending, and an
  enabled one is never left without a client.
\<close>

theorem client_exists_iff_enabled:
  assumes "entry_reachable s"
  shows "vd_client (ce_device (es_entry s) d) \<noteq> None \<longleftrightarrow> vd_enabled (ce_device (es_entry s) d)"
  using entry_reachable_generation[OF assms] unfolding enabled_inv_def by blast

theorem client_exists_iff_enabled_witness:
  "vd_client (ce_device (es_entry entry_demo) Keyboard) \<noteq> None \<and>
   vd_client (ce_device (es_entry entry_demo) Pointing) = None"
proof -
  have "vd_enabled (ce_device (es_entry entry_demo) Keyboard)"
    "\<not> vd_enabled (ce_device (es_entry entry_demo) Pointing)"
    by (simp_all add: entry_eval)
  with client_exists_iff_enabled[OF entry_demo_reachable, of Keyboard]
    client_exists_iff_enabled[OF entry_demo_reachable, of Pointing] show ?thesis by blast
qed

text \<open>
  C21. The delayed check belongs to one client: as long as the entry has run fewer than \<^verbatim>\<open>2 ^ 31\<close> closures, so that
  its generation counters, which are of type \<^verbatim>\<open>int\<close>, have not overflowed, no generation of a device is checked
  twice by the pending checks, so at most one of them is for the current generation; the others are for
  earlier ones and do nothing, and no pending check does anything while the device is disabled. A new client
  therefore is not replaced by a check that was scheduled for a predecessor, even across terminate and initialize.
\<close>

theorem stale_checks_harmless:
  assumes "entry_reachable s" "es_runs s < 2 ^ 31"
  shows "distinct (recreates (es_pending s)) \<and>
    (Entry_recreate d g \<in> set (es_pending s) \<longrightarrow>
       unat g \<le> unat (vd_generation (ce_device (es_entry s) d)) \<and>
       (g \<noteq> vd_generation (ce_device (es_entry s) d) \<or> \<not> vd_enabled (ce_device (es_entry s) d) \<longrightarrow>
          run_entry_task views (Entry_recreate d g) (es_entry s) = (es_entry s, [])))"
  using entry_reachable_generation[OF assms(1)] assms(2)
  by (auto simp: generation_inv_def recreates_iff run_entry_task_def)

theorem stale_checks_harmless_witness:
  "distinct (recreates (es_pending entry_demo)) \<and> recreates (es_pending entry_demo) = [(Keyboard, 1)]"
  using stale_checks_harmless[OF entry_demo_reachable] by (simp add: entry_eval)

text \<open>
  A device that does not get ready is retried: when the check of the current generation finds the
  enabled device not ready, its client is destroyed, a new one with a fresh number is created and started, and
  a new check for the next generation is scheduled in 5 seconds.
\<close>

theorem check_recreates_client:
  assumes "vd_enabled (ce_device e d)" and "\<not> device_ready views d e"
    and "vd_client (ce_device e d) = Some old"
    and "run_entry_task views (Entry_recreate d (vd_generation (ce_device e d))) e = (e', f)"
  shows "\<exists>r. ce_next e \<le> r \<and> vd_client (ce_device e' d) = Some r \<and>
     vd_generation (ce_device e' d) = vd_generation (ce_device e d) + 1 \<and>
     hd f = Destroy_io_client old \<and>
     {Create_io_client r, Io_client_task r Ioc_start,
      Enqueue_entry (Entry_recreate d (vd_generation (ce_device e d) + 1)) 5000} \<subseteq> set f"
  using assms
  by (cases d)
    (auto simp: run_entry_task_def drop_client_def setup_virtual_hid_devices_def setup_device_def
      create_virtual_hid_client_def device_ready_def Let_def split: if_splits option.splits)

theorem check_recreates_client_witness:
  "\<exists>r. vd_client (ce_device (fst (run_entry_task (\<lambda>r. \<lparr>iv_driver_activated = True, iv_driver_connected = False,
       iv_driver_version_mismatched = False, iv_keyboard_ready = None, iv_pointing_ready = None\<rparr>)
       (Entry_recreate Keyboard 1) (es_entry entry_demo))) Keyboard) = Some r \<and> 2 \<le> r"
proof -
  let ?v = "\<lambda>r. \<lparr>iv_driver_activated = True, iv_driver_connected = False,
       iv_driver_version_mismatched = False, iv_keyboard_ready = None, iv_pointing_ready = None\<rparr>"
  let ?e = "es_entry entry_demo"
  have e: "vd_enabled (ce_device ?e Keyboard)" "\<not> device_ready ?v Keyboard ?e"
    "vd_client (ce_device ?e Keyboard) = Some 1" "vd_generation (ce_device ?e Keyboard) = 1" "ce_next ?e = 2"
    by (simp_all add: entry_eval)
  show ?thesis
    using check_recreates_client[OF e(1-3) prod.collapse[symmetric]] e(4,5) by auto
qed

text \<open>
  C20. One connection, one set of parameters: all keyboard initializations ever sent through a client object
  carry the same parameters, and those sent through the current one carry the entry's
  parameters. With the driver latching the first ones, a keyboard has the identity its
  peer asked for last.
\<close>

theorem keyboard_parameters_consistent:
  assumes "entry_reachable s"
  shows "(initialized_with r p \<in> set (es_trace s) \<longrightarrow> initialized_with r q \<in> set (es_trace s) \<longrightarrow> p = q) \<and>
    (vd_client (ce_device (es_entry s) Keyboard) = Some r \<longrightarrow> initialized_with r p \<in> set (es_trace s) \<longrightarrow>
       p = ce_parameters (es_entry s))"
  using parameters.steps.reaches_inv[OF assms] unfolding parameters_inv_def by blast

theorem keyboard_parameters_consistent_witness:
  "initialized_with 1 default_parameters \<in> set (es_trace entry_demo) \<and>
   ce_parameters (es_entry entry_demo) = default_parameters"
proof -
  have "initialized_with 1 default_parameters \<in> set (es_trace entry_demo)"
    "vd_client (ce_device (es_entry entry_demo) Keyboard) = Some 1"
    by (simp_all add: entry_eval)
  with keyboard_parameters_consistent[OF entry_demo_reachable, of 1 default_parameters default_parameters]
  show ?thesis by simp
qed

text \<open>
  C19. No client object is leaked, destroyed twice or used after its destruction: the objects created and
  not destroyed are exactly those the entry holds, work is enqueued only on living objects, and the
  destructor of the entry destroys what is left.
\<close>

theorem client_objects_owned:
  assumes "entry_reachable s"
  shows "live_run (es_trace s) {} = Some (entry_objects (es_entry s)) \<and>
    live_run (es_trace s @ client_entry_destroy (es_entry s)) {} = Some {}"
proof -
  have inv: "objects_inv (es_entry s) (es_trace s)" by (rule objects.steps.reaches_inv[OF assms])
  let ?e = "es_entry s"
  obtain e1 f1 where 1: "drop_client Pointing ?e = (e1, f1)" by fastforce
  obtain e2 f2 where 2: "drop_client Keyboard e1 = (e2, f2)" by fastforce
  have f2: "f2 = snd (drop_client Keyboard ?e)" using 1 2 by (auto simp: drop_client_def)
  have "objects_inv e2 ((es_trace s @ f1) @ f2)"
    by (rule objects.drop[OF objects.drop[OF inv 1] 2])
  moreover have "entry_objects e2 = {ce_no_virtual_devices ?e}" "ce_no_virtual_devices e2 = ce_no_virtual_devices ?e"
    using 1 2 by (auto simp: drop_client_def entry_objects_def)
  ultimately have "live_run (es_trace s @ f1 @ f2) {} = Some {ce_no_virtual_devices ?e}"
    by (simp add: objects_inv_def)
  then have "live_run ((es_trace s @ f1 @ f2) @ [Destroy_io_client (ce_no_virtual_devices ?e)]) {} = Some {}"
    unfolding live_run_append[of "es_trace s @ f1 @ f2"] by simp
  then show ?thesis
    using inv 1 f2 by (simp add: objects_inv_def client_entry_destroy_def)
qed

theorem client_objects_owned_witness:
  "live_run (es_trace entry_demo @ client_entry_destroy (es_entry entry_demo)) {} = Some {} \<and>
   entry_objects (es_entry entry_demo) = {0, 1}"
proof -
  have "entry_objects (es_entry entry_demo) = {0, 1}"
    by (auto simp: entry_eval entry_objects_def)
  with client_objects_owned[OF entry_demo_reachable] show ?thesis by blast
qed

text \<open>
  A peer is notified of changes only: two consecutive status notifications of an entry differ, and
  the last one sent is the remembered response.
\<close>

theorem status_notified_on_change:
  assumes "entry_reachable s"
  shows "distinct_adj (statuses (es_trace s)) \<and>
    ce_last_response (es_entry s) =
      (if statuses (es_trace s) = [] then None else Some (last (statuses (es_trace s))))"
  using status.steps.reaches_inv[OF assms] unfolding status_inv_def .

theorem status_notified_on_change_witness:
  "statuses (es_trace entry_demo) = [[1, 1, 2, 1, 3, 0, 4, 0, 5, 0]] \<and>
   ce_last_response (es_entry entry_demo) = Some [1, 1, 2, 1, 3, 0, 4, 0, 5, 0]"
proof -
  have "statuses (es_trace entry_demo) = [[1, 1, 2, 1, 3, 0, 4, 0, 5, 0]]"
    by (simp add: entry_eval)
  with status_notified_on_change[OF entry_demo_reachable] show ?thesis by simp
qed

text \<open>
  A report is passed on exactly when it has the size of its report class: in the dispatcher thread, a
  report of the expected size goes, unchanged and once, to the device client of the peer that sent
  it, if it has one; a report of any other size goes nowhere. Outside the dispatcher thread the call
  throws.
\<close>

theorem report_guard:
  "manager_post_report d True peer buffer off method n m =
     Inr (case (buffer, m peer) of
            (Some b, Some e) \<Rightarrow>
              (case vd_client (ce_device e d) of
                 Some r \<Rightarrow> if off \<le> length b \<and> length b = off + n
                           then [Io_client_task r (Ioc_post_report method (Some b) off)] else []
               | None \<Rightarrow> [])
          | _ \<Rightarrow> []) \<and>
   manager_post_report d False peer buffer off method n m = Inl (Logic_error ''post_report'')"
  by (auto simp: manager_post_report_def in_dispatcher_thread_def on_device_client_def split: option.splits)

text \<open>
  Peers are isolated: creating or erasing a peer's entry leaves every other entry as it is, creating
  an existing entry changes nothing, and an unknown peer's requests have no effect.
\<close>

theorem peers_isolated:
  assumes "create_client_entry True peer m = Inr (m1, f1)" and "erase_client_entry True peer m = Inr (m2, f2)"
  shows "(peer' \<noteq> peer \<longrightarrow> m1 peer' = m peer' \<and> m2 peer' = m peer') \<and>
    (m peer \<noteq> None \<longrightarrow> m1 = m \<and> f1 = []) \<and> m1 peer \<noteq> None \<and> m2 peer = None \<and>
    (m peer = None \<longrightarrow> enqueue_on_entry func task True peer m = Inr [] \<and> on_device_client d k peer m = [] \<and>
       manager_make_response views True peer m = Inr [] \<and> f2 = [])"
  using assms
  by (auto simp: create_client_entry_def erase_client_entry_def in_dispatcher_thread_def enqueue_on_entry_def
      on_device_client_def manager_make_response_def split: option.splits)

theorem peers_isolated_witness:
  "\<exists>m1 f1. create_client_entry True 7 Map.empty = Inr (m1, f1) \<and> m1 8 = None \<and> m1 7 \<noteq> None"
proof -
  let ?c = "(Map.empty(7 \<mapsto> fst client_entry_new), snd client_entry_new)"
  have 1: "create_client_entry True 7 Map.empty = Inr (fst ?c, snd ?c)"
    and 2: "erase_client_entry True 7 Map.empty = Inr (Map.empty(7 := None), [])"
    by (simp_all add: create_client_entry_def erase_client_entry_def in_dispatcher_thread_def)
  from peers_isolated[OF 1 2, of 8] 1 show ?thesis by auto
qed

end
