(* ===== verification/Service_Server.thy ===== *)
theory Service_Server
  imports Clients_Manager
begin

text \<open>
  The daemon's server, \<^verbatim>\<open>Daemon/include/virtual_hid_device_service_server.hpp\<close>: it owns the stream server
  and the clients manager, decodes the requests of the peers, calls the manager and answers. What it
  does to the outside is a list of \<open>server_effect\<close>, in order; the file system and the stream server are
  outside.
\<close>

section \<open>State\<close>

record service_server =
  ss_server :: bool
  ss_retry_timer :: bool
  ss_manager :: manager

text \<open>
  \<open>Server_create\<close> carries the socket path, the message limit, the bind retry interval and the health
  check interval in milliseconds; \<open>Server_status_request\<close> is the \<^verbatim>\<open>async_request\<close> that delivers a status.
\<close>

datatype server_effect =
    On_entry peer_id entry_effect
  | Server_respond peer_id nat bytes
  | Server_status_request peer_id bytes
  | Server_create string nat nat nat
  | Server_start
  | Server_stop
  | Server_destroy
  | Retry_timer_start nat
  | Retry_timer_stop
  | Enqueue_teardown

section \<open>Requests\<close>

definition respond_empty :: "peer_id \<Rightarrow> nat \<Rightarrow> service_server \<Rightarrow> server_effect list" where
  "respond_empty peer request_id s = (if ss_server s then [Server_respond peer request_id []] else [])"

text \<open>A manager call and what follows it; an exception ends the handler.\<close>

definition after_manager ::
  "peer_id \<Rightarrow> manager_error + entry_effect list \<Rightarrow> (manager_error + server_effect list) \<Rightarrow>
   manager_error + server_effect list" where
  "after_manager peer call rest =
     (case call of
        Inl err \<Rightarrow> Inl err
      | Inr fs \<Rightarrow> (case rest of Inl err \<Rightarrow> Inl err | Inr gs \<Rightarrow> Inr (map (On_entry peer) fs @ gs)))"

definition respond_status ::
  "(peer_id \<Rightarrow> views) \<Rightarrow> bool \<Rightarrow> peer_id \<Rightarrow> nat \<Rightarrow> service_server \<Rightarrow> manager_error + server_effect list" where
  "respond_status views thr peer request_id s =
     (if ss_server s then
        (case manager_make_response views thr peer (ss_manager s) of
           Inl err \<Rightarrow> Inl err
         | Inr response \<Rightarrow> Inr [Server_respond peer request_id response])
      else Inr [])"

text \<open>The body of the slot of \<^verbatim>\<open>request_received\<close>: first the switch, then the whole slot.\<close>

definition dispatch_request ::
  "(peer_id \<Rightarrow> views) \<Rightarrow> bool \<Rightarrow> peer_id \<Rightarrow> nat \<Rightarrow> bytes \<Rightarrow> nat \<Rightarrow> request option \<Rightarrow> service_server \<Rightarrow>
   manager_error + server_effect list" where
  "dispatch_request views thr peer request_id buffer offset request s =
     (let m = ss_manager s;
          status = respond_status views thr peer request_id s;
          empty_response = Inr (respond_empty peer request_id s);
          keyboard_report = (\<lambda>n. after_manager peer (post_keyboard_report thr peer (Some buffer) offset
             method_virtual_hid_keyboard_post_report n m) empty_response)
      in case request of
           None \<Rightarrow> empty_response
         | Some virtual_hid_keyboard_initialize \<Rightarrow>
             (if sizeof_parameters \<noteq> length buffer - offset then empty_response
              else after_manager peer
                (initialize_keyboard (parameters_of_image (take sizeof_parameters (drop offset buffer))) thr peer m)
                status)
         | Some virtual_hid_keyboard_terminate \<Rightarrow> after_manager peer (terminate_keyboard thr peer m) status
         | Some virtual_hid_keyboard_reset \<Rightarrow> after_manager peer (manager_keyboard_reset thr peer m) status
         | Some virtual_hid_pointing_initialize \<Rightarrow> after_manager peer (initialize_pointing thr peer m) status
         | Some virtual_hid_pointing_terminate \<Rightarrow> after_manager peer (terminate_pointing thr peer m) status
         | Some virtual_hid_pointing_reset \<Rightarrow> after_manager peer (manager_pointing_reset thr peer m) status
         | Some post_keyboard_input_report \<Rightarrow> keyboard_report sizeof_keyboard_input
         | Some post_consumer_input_report \<Rightarrow> keyboard_report sizeof_keys_input
         | Some post_apple_vendor_keyboard_input_report \<Rightarrow> keyboard_report sizeof_keys_input
         | Some post_apple_vendor_top_case_input_report \<Rightarrow> keyboard_report sizeof_keys_input
         | Some post_generic_desktop_input_report \<Rightarrow> keyboard_report sizeof_keys_input
         | Some post_pointing_input_report \<Rightarrow>
             after_manager peer (post_pointing_report thr peer (Some buffer) offset
               method_virtual_hid_pointing_post_report sizeof_pointing_input m) empty_response)"

definition request_received ::
  "(peer_id \<Rightarrow> views) \<Rightarrow> bool \<Rightarrow> peer_id \<Rightarrow> nat \<Rightarrow> bytes \<Rightarrow> service_server \<Rightarrow>
   manager_error + server_effect list" where
  "request_received views thr peer request_id buffer s =
     (if buffer = [] then Inr (respond_empty peer request_id s)
      else
        (case read_data buffer 0 2 of
           None \<Rightarrow> Inr (respond_empty peer request_id s)
         | Some (v, offset1) \<Rightarrow>
             (case read_data buffer offset1 1 of
                None \<Rightarrow> Inr (respond_empty peer request_id s)
              | Some (r, offset2) \<Rightarrow>
                  if Client_protocol_version (le_word v) \<noteq> embedded_client_protocol_version
                  then Inr (respond_empty peer request_id s)
                  else dispatch_request views thr peer request_id buffer offset2
                         (request_of_value (hd r)) s)))"

section \<open>Peers and status\<close>

definition peer_connected ::
  "bool \<Rightarrow> peer_id \<Rightarrow> service_server \<Rightarrow> manager_error + service_server \<times> server_effect list" where
  "peer_connected thr peer s =
     (case create_client_entry thr peer (ss_manager s) of
        Inl err \<Rightarrow> Inl err
      | Inr (m, fs) \<Rightarrow>
          (case async_check_status_changed thr peer m of
             Inl err \<Rightarrow> Inl err
           | Inr gs \<Rightarrow> Inr (s\<lparr>ss_manager := m\<rparr>, map (On_entry peer) (fs @ gs))))"

definition peer_closed ::
  "bool \<Rightarrow> peer_id \<Rightarrow> service_server \<Rightarrow> manager_error + service_server \<times> server_effect list" where
  "peer_closed thr peer s =
     (case erase_client_entry thr peer (ss_manager s) of
        Inl err \<Rightarrow> Inl err
      | Inr (m, fs) \<Rightarrow> Inr (s\<lparr>ss_manager := m\<rparr>, map (On_entry peer) fs))"

definition async_deliver_status :: "peer_id \<Rightarrow> bytes \<Rightarrow> service_server \<Rightarrow> server_effect list" where
  "async_deliver_status peer response s =
     (if \<not> ss_server s then [] else [Server_status_request peer response])"

section \<open>Creating the server\<close>

text \<open>
  \<open>mkdir\<close> and \<open>chmod\<close> say whether \<^verbatim>\<open>create_directories\<close> and \<^verbatim>\<open>permissions\<close> succeed on the root-only
  directory.
\<close>

definition create_rootonly_directory :: "bool \<Rightarrow> bool \<Rightarrow> bool" where
  "create_rootonly_directory mkdir chmod = (if \<not> mkdir then False else if \<not> chmod then False else True)"

definition prepare_socket_directories :: "bool \<Rightarrow> bool \<Rightarrow> bool" where
  "prepare_socket_directories mkdir chmod = create_rootonly_directory mkdir chmod"

definition start_create_server_retry_timer :: "service_server \<Rightarrow> service_server \<times> server_effect list" where
  "start_create_server_retry_timer s = (s\<lparr>ss_retry_timer := True\<rparr>, [Retry_timer_start 1000])"

definition create_server :: "bool \<Rightarrow> bool \<Rightarrow> service_server \<Rightarrow> service_server \<times> server_effect list" where
  "create_server mkdir chmod s =
     (let s1 = s\<lparr>ss_retry_timer := False\<rparr>
      in if \<not> prepare_socket_directories mkdir chmod then
           (let (s2, f) = start_create_server_retry_timer s1 in (s2, Retry_timer_stop # f))
         else
           (s1\<lparr>ss_server := True\<rparr>,
            [Retry_timer_stop,
             Server_create get_server_socket_file_path unix_domain_stream_max_message_size 1000 3000] @
            (if ss_server s1 then [Server_destroy] else []) @ [Server_start]))"

definition bind_failed :: "bool \<Rightarrow> bool \<Rightarrow> service_server \<Rightarrow> server_effect list" where
  "bind_failed mkdir chmod s =
     (if \<not> prepare_socket_directories mkdir chmod
      then (if ss_server s then [Server_stop] else []) @ [Enqueue_teardown]
      else [])"

text \<open>The closure that \<^verbatim>\<open>bind_failed\<close> enqueues.\<close>

definition teardown_server :: "service_server \<Rightarrow> service_server \<times> server_effect list" where
  "teardown_server s =
     (let s1 = s\<lparr>ss_server := False\<rparr>; (s2, f) = start_create_server_retry_timer s1
      in (s2, (if ss_server s then [Server_destroy] else []) @ f))"

definition service_server_new :: "bool \<Rightarrow> bool \<Rightarrow> service_server \<times> server_effect list" where
  "service_server_new mkdir chmod =
     create_server mkdir chmod \<lparr>ss_server = False, ss_retry_timer = False, ss_manager = Map.empty\<rparr>"

section \<open>Lemmas\<close>

lemma manager_ops_in_thread:
  "enqueue_on_entry func task True peer m = Inr (case m peer of None \<Rightarrow> [] | Some e \<Rightarrow> [Enqueue_entry task 0])"
  by (simp add: enqueue_on_entry_def in_dispatcher_thread_def)

lemmas manager_op_defs = initialize_keyboard_def terminate_keyboard_def initialize_pointing_def
  terminate_pointing_def manager_keyboard_reset_def manager_pointing_reset_def post_keyboard_report_def
  post_pointing_report_def manager_post_report_def manager_make_response_def in_dispatcher_thread_def
  manager_ops_in_thread

text \<open>The responses among the effects.\<close>

definition responses :: "server_effect list \<Rightarrow> (peer_id \<times> nat) list" where
  "responses fs = concat (map (\<lambda>f. case f of Server_respond p i b \<Rightarrow> [(p, i)] | _ \<Rightarrow> []) fs)"

lemma responses_simps [simp]:
  "responses [] = []" "responses (Server_respond p i b # fs) = (p, i) # responses fs"
  "responses (fs @ gs) = responses fs @ responses gs" "responses (map (On_entry p) es) = []"
  by (auto simp: responses_def)

text \<open>A result that answers the request, once.\<close>

definition answers :: "peer_id \<Rightarrow> nat \<Rightarrow> manager_error + server_effect list \<Rightarrow> bool" where
  "answers peer request_id x \<longleftrightarrow> (\<exists>fs. x = Inr fs \<and> responses fs = [(peer, request_id)])"

lemma answers_empty: "ss_server s \<Longrightarrow> answers p i (Inr (respond_empty p i s))"
  by (simp add: answers_def respond_empty_def)

lemma answers_status: "ss_server s \<Longrightarrow> answers p i (respond_status views True p i s)"
  by (simp add: answers_def respond_status_def manager_make_response_def in_dispatcher_thread_def)

lemma answers_after: "\<exists>es. call = Inr es \<Longrightarrow> answers p i rest \<Longrightarrow> answers p i (after_manager p call rest)"
  by (auto simp: answers_def after_manager_def)

lemma manager_calls_return:
  "\<exists>es. initialize_keyboard q True p m = Inr es" "\<exists>es. terminate_keyboard True p m = Inr es"
  "\<exists>es. initialize_pointing True p m = Inr es" "\<exists>es. terminate_pointing True p m = Inr es"
  "\<exists>es. manager_keyboard_reset True p m = Inr es" "\<exists>es. manager_pointing_reset True p m = Inr es"
  "\<exists>es. post_keyboard_report True p b off k n m = Inr es" "\<exists>es. post_pointing_report True p b off k n m = Inr es"
  by (simp_all add: manager_op_defs)

lemma dispatch_none:
  "dispatch_request views thr p i buffer offset None s = Inr (respond_empty p i s)"
  by (simp add: dispatch_request_def)

lemma dispatch_answers:
  assumes "ss_server s"
  shows "answers p i (dispatch_request views True p i buffer offset r s)"
proof (cases r)
  case (Some q)
  with assms show ?thesis
    by (cases q) (simp_all add: dispatch_request_def Let_def answers_empty answers_status answers_after
        manager_calls_return)
qed (simp add: dispatch_request_def answers_empty assms)

text \<open>A buffer of the client library reaches the switch with its request and its payload.\<close>

lemma request_received_client_buffer:
  "request_received views thr peer request_id (make_request_buffer r @ payload) s =
   dispatch_request views thr peer request_id (make_request_buffer r @ payload) 3 (Some r) s"
proof -
  let ?b = "7 # 0 # request_value r # payload"
  have "le_bytes (Suc (Suc 0)) (7 :: u16) = [7, 0]" by code_simp
  then have v: "le_bytes 2 (client_protocol_version_get embedded_client_protocol_version) = [7, 0]"
    by (simp only: numeral_2_eq_2 embedded_client_protocol_version_def client_protocol_version.sel)
  then have w: "Client_protocol_version (le_word [7, 0]) = embedded_client_protocol_version"
    by (metis u16_codec.dec_enc client_protocol_version.collapse)
  have b: "make_request_buffer r @ payload = ?b"
    by (simp add: make_request_buffer_def v)
  have 1: "read_data ?b 0 2 = Some ([7, 0], 2)" and 2: "read_data ?b 2 (Suc 0) = Some ([request_value r], 3)"
    by (simp_all add: read_data_def)
  show ?thesis unfolding b request_received_def 1 by (simp add: 2 w del: le_word.simps)
qed

lemma request_received_answers:
  assumes "ss_server s"
  shows "answers p i (request_received views True p i buffer s)"
  using assms dispatch_answers
  by (auto simp: request_received_def answers_empty split: option.split)

section \<open>Runs of the server object\<close>

record server_system =
  sv_server :: service_server
  sv_teardowns :: nat
    \<comment> \<open>enqueued teardown closures that did not run yet\<close>

text \<open>Peers come and go, binding fails, the retry timer fires and queued closures run, in any order.\<close>

inductive server_step :: "server_system \<Rightarrow> server_system \<Rightarrow> bool" where
  server_step_connected: "peer_connected True peer (sv_server s) = Inr (v', fs) \<Longrightarrow>
     server_step s (s\<lparr>sv_server := v'\<rparr>)"
| server_step_closed: "peer_closed True peer (sv_server s) = Inr (v', fs) \<Longrightarrow>
     server_step s (s\<lparr>sv_server := v'\<rparr>)"
| server_step_bind_failed: "bind_failed mkdir chmod (sv_server s) = fs \<Longrightarrow>
     server_step s (s\<lparr>sv_teardowns := sv_teardowns s + length (filter (\<lambda>f. f = Enqueue_teardown) fs)\<rparr>)"
| server_step_teardown: "sv_teardowns s = Suc n \<Longrightarrow> teardown_server (sv_server s) = (v', fs) \<Longrightarrow>
     server_step s \<lparr>sv_server = v', sv_teardowns = n\<rparr>"
| server_step_retry: "ss_retry_timer (sv_server s) \<Longrightarrow> create_server mkdir chmod (sv_server s) = (v', fs) \<Longrightarrow>
     server_step s (s\<lparr>sv_server := v'\<rparr>)"

definition server_start :: "server_system \<Rightarrow> bool" where
  "server_start s \<longleftrightarrow> (\<exists>mkdir chmod. s = \<lparr>sv_server = fst (service_server_new mkdir chmod), sv_teardowns = 0\<rparr>)"

abbreviation server_reachable :: "server_system \<Rightarrow> bool" where
  "server_reachable \<equiv> reaches server_start server_step"

lemma peer_slots_frame:
  "peer_connected True peer v = Inr (v', fs) \<Longrightarrow> ss_server v' = ss_server v \<and> ss_retry_timer v' = ss_retry_timer v"
  "peer_closed True peer v = Inr (v', fs) \<Longrightarrow> ss_server v' = ss_server v \<and> ss_retry_timer v' = ss_retry_timer v"
  by (auto simp: peer_connected_def peer_closed_def split: sum.splits)

interpretation server_retries: step_invariant server_step server_start
  "\<lambda>s. ss_server (sv_server s) \<or> ss_retry_timer (sv_server s) \<or> 0 < sv_teardowns s"
proof unfold_locales
  show "ss_server (sv_server t) \<or> ss_retry_timer (sv_server t) \<or> 0 < sv_teardowns t"
    if "server_step s t" "ss_server (sv_server s) \<or> ss_retry_timer (sv_server s) \<or> 0 < sv_teardowns s" for s t
    using that
    by (cases rule: server_step.cases)
      (auto simp: teardown_server_def create_server_def start_create_server_retry_timer_def Let_def
        split: if_splits dest: peer_slots_frame)
qed (auto simp: server_start_def service_server_new_def create_server_def start_create_server_retry_timer_def Let_def)

section \<open>Properties\<close>

text \<open>
  C24. Every request is answered exactly once, to the peer and with the id it came with, whatever its bytes
  are: a too short, malformed, unknown or wrong-version request and every valid one.
\<close>

theorem request_answered_once:
  assumes "ss_server s"
  shows "\<exists>fs. request_received views True peer request_id buffer s = Inr fs \<and>
    responses fs = [(peer, request_id)]"
  using request_received_answers[OF assms] unfolding answers_def .

theorem request_answered_once_witness:
  "\<exists>fs. request_received (\<lambda>p r. undefined) True 3 9 [7] \<lparr>ss_server = True, ss_retry_timer = False, ss_manager = Map.empty\<rparr>
      = Inr fs \<and> responses fs = [(3, 9)]"
  using request_answered_once[of "\<lparr>ss_server = True, ss_retry_timer = False, ss_manager = Map.empty\<rparr>"
      "\<lambda>p r. undefined" 3 9 "[7]"] by simp

text \<open>
  A request that is too short, has another protocol version or an unknown code has no effect but its
  empty answer.
\<close>

theorem malformed_request_ignored:
  assumes "length buffer < 3 \<or> Client_protocol_version (le_word (take 2 buffer)) \<noteq> embedded_client_protocol_version \<or>
     request_of_value (buffer ! 2) = None"
  shows "request_received views thr peer request_id buffer s = Inr (respond_empty peer request_id s)"
proof (cases "length buffer < 3")
  case True
  then show ?thesis by (auto simp: request_received_def read_data_def split: option.split)
next
  case False
  then obtain a b c rest where buffer: "buffer = a # b # c # rest"
    by (cases buffer; cases "tl buffer"; cases "tl (tl buffer)") auto
  have "read_data buffer 0 2 = Some ([a, b], 2)" "read_data buffer 2 (Suc 0) = Some ([c], 3)"
    by (simp_all add: read_data_def buffer)
  with False assms show ?thesis
    by (auto simp: request_received_def dispatch_none buffer simp del: le_word.simps)
qed

theorem malformed_request_ignored_witness:
  "request_received views True 3 9 [6, 0, 2] \<lparr>ss_server = True, ss_retry_timer = False, ss_manager = Map.empty\<rparr> =
   Inr [Server_respond 3 9 []]"
proof -
  have "Client_protocol_version (le_word (take 2 [6, 0, 2])) \<noteq> embedded_client_protocol_version"
    by (simp add: embedded_client_protocol_version_def)
  from malformed_request_ignored[OF disjI2[OF disjI1[OF this]], of views True 3 9
      "\<lparr>ss_server = True, ss_retry_timer = False, ss_manager = Map.empty\<rparr>"]
  show ?thesis by (simp add: respond_empty_def)
qed

text \<open>
  The answer to an initialize, terminate or reset request shows the state before it: the manager only
  enqueues the work, so the response is the status the entry had when the request came in. The
  peer learns of the effect from a later status notification.
\<close>

theorem answer_precedes_effect:
  assumes "ss_server s" and "ss_manager s peer = Some e"
    and "r \<in> {virtual_hid_keyboard_terminate, virtual_hid_pointing_initialize, virtual_hid_pointing_terminate}"
  shows "request_received views True peer request_id (make_request_buffer r) s =
    Inr [On_entry peer (Enqueue_entry
           (if r = virtual_hid_keyboard_terminate then Entry_terminate_keyboard
            else if r = virtual_hid_pointing_initialize then Entry_initialize_pointing
            else Entry_terminate_pointing) 0),
         Server_respond peer request_id (make_response (views peer) e)]"
  using assms request_received_client_buffer[of views True peer request_id r "[]" s]
  by (auto simp: dispatch_request_def Let_def manager_op_defs after_manager_def respond_status_def)

definition server_demo :: service_server where
  "server_demo = \<lparr>ss_server = True, ss_retry_timer = False, ss_manager = [3 \<mapsto> fst client_entry_new]\<rparr>"

theorem answer_precedes_effect_witness:
  "request_received (\<lambda>p r. \<lparr>iv_driver_activated = True, iv_driver_connected = True,
      iv_driver_version_mismatched = False, iv_keyboard_ready = None, iv_pointing_ready = None\<rparr>) True 3 9
      (make_request_buffer virtual_hid_pointing_initialize) server_demo =
   Inr [On_entry 3 (Enqueue_entry Entry_initialize_pointing 0),
        Server_respond 3 9 [1, 1, 2, 1, 3, 0, 4, 0, 5, 0]]"
proof -
  have "ss_server server_demo" "ss_manager server_demo 3 = Some (fst client_entry_new)"
    by (simp_all add: server_demo_def)
  from answer_precedes_effect[OF this, of virtual_hid_pointing_initialize] show ?thesis
    by (simp add: make_response_def append_response_def device_ready_def client_entry_new_def)
qed

text \<open>
  C25. The daemon does not end up without a server: in every reachable state the stream server exists, or the
  retry timer runs, or a teardown that will start it is queued; and a retry with a working
  directory brings the server up and stops the timer.
\<close>

theorem server_or_retry:
  assumes "server_reachable s"
  shows "(ss_server (sv_server s) \<or> ss_retry_timer (sv_server s) \<or> 0 < sv_teardowns s) \<and>
    ss_server (fst (create_server True True (sv_server s))) \<and>
    \<not> ss_retry_timer (fst (create_server True True (sv_server s)))"
  using server_retries.reaches_inv[OF assms]
  by (simp add: create_server_def prepare_socket_directories_def create_rootonly_directory_def Let_def)

theorem server_or_retry_witness:
  "ss_retry_timer (fst (service_server_new False True)) \<and>
   ss_server (fst (create_server True True (fst (service_server_new False True))))"
  using server_or_retry[OF reaches_init, of "\<lparr>sv_server = fst (service_server_new False True), sv_teardowns = 0\<rparr>"]
  by (auto simp: server_start_def) (simp add: service_server_new_def create_server_def prepare_socket_directories_def
      create_rootonly_directory_def start_create_server_retry_timer_def)

end
