(* ===== verification/Stream_Server.thy ===== *)
theory Stream_Server
  imports Request_Manager Retry_Protocol
begin

text \<open>
  The server end of the stream, \<^verbatim>\<open>pqrs/unix_domain_stream/server.hpp\<close>: binding with retries, accepting, the
  exposure of verified peers, requests, and the health check of the socket path. As in \<^verbatim>\<open>Stream_Client\<close>, closures
  run on the dispatcher thread (\<open>sr_task\<close>) and on the thread of the io context (\<open>sr_io\<close>), each in the order they
  were enqueued. Acceptors and the sockets of health checks are numbered; a peer is known by its id.
\<close>

section \<open>State and closures\<close>

record stream_server =
  sr_options :: peer_options
  sr_bind_retry_interval :: int
  sr_health_check_interval :: int
  sr_health_check_timeout :: int
  sr_stopped :: bool
  sr_bind_retry_task :: debounced_task
  sr_requests :: request_manager
  sr_acceptor :: "nat option"
  sr_peers :: "u64 list"
  sr_exposed_peer_ids :: "u64 list"
  sr_health_check_peer :: "nat option"
  sr_health_check_in_progress :: bool
  sr_next_peer_id :: u64
  sr_next :: nat
    \<comment> \<open>the number of the next acceptor or health check\<close>

definition stream_server_new :: "peer_options \<Rightarrow> int \<Rightarrow> int \<Rightarrow> int \<Rightarrow> stream_server" where
  "stream_server_new opts bind_retry_interval health_interval health_timeout =
     \<lparr>sr_options = opts, sr_bind_retry_interval = bind_retry_interval, sr_health_check_interval = health_interval,
      sr_health_check_timeout = health_timeout, sr_stopped = True, sr_bind_retry_task = debounced_task_new,
      sr_requests = request_manager_new, sr_acceptor = None, sr_peers = [], sr_exposed_peer_ids = [],
      sr_health_check_peer = None, sr_health_check_in_progress = False, sr_next_peer_id = 0, sr_next = 0\<rparr>"

text \<open>Retry interval, health check interval and timeout unless given, in milliseconds.\<close>

definition default_server_intervals :: "int \<times> int \<times> int" where
  "default_server_intervals = (1000, 3000, 1000)"

datatype sr_io =
    Sio_stop
  | Sio_bind
  | Sio_send u64 bytes
  | Sio_respond u64 u64 bytes
  | Sio_request u64 bytes int nat
  | Sio_close_peer u64
  | Sio_response_received u64 u64 bytes
  | Sio_peer_error u64 asio_error
  | Sio_peer_closed u64
  | Sio_health_check
  | Sio_health_response nat
  | Sio_health_error nat asio_error
  | Sio_health_closed nat

datatype sr_task =
    Sr_start
  | Sr_stop
  | Sr_bound
  | Sr_bind_failed asio_error
  | Sr_closed
  | Sr_ready u64 peer_credentials
  | Sr_received u64 bytes
  | Sr_request_received u64 u64 bytes
  | Sr_peer_error u64 asio_error
  | Sr_peer_closed u64
  | Sr_callback callback_call
  | Sr_health_check
  | Sr_peer_signal u64 peer_credentials peer_signal
  | Sr_health_signal nat peer_signal
  | Sr_debounced "unit debounced_closure"

datatype sr_signal =
    Ss_bound
  | Ss_bind_failed asio_error
  | Ss_closed
  | Ss_peer_connected u64 peer_credentials
  | Ss_peer_closed u64
  | Ss_peer_error_occurred u64 asio_error
  | Ss_received u64 bytes
  | Ss_request_received u64 u64 bytes
  | Ss_callback callback_call

datatype sr_effect =
    Sr_post sr_io
  | Sr_enqueue sr_task
  | Sr_enqueue_at sr_task int
  | Remove_socket_path
  | Close_acceptor nat
  | Async_accept nat
  | Close_accepted
  | Create_peer u64 peer_credentials
  | Start_peer u64
  | Close_peer u64
  | Send_peer u64 bytes
  | Sr_request_timer u64 int
  | Health_timer_start int
  | Health_timer_stop
  | Health_deadline nat int
  | Health_deadline_cancel nat
  | Health_connect nat
  | Health_socket_close nat
  | Health_peer_start nat bytes
  | Health_peer_close nat
  | Sr_emit sr_signal

section \<open>Operations of the io thread\<close>

definition close_acceptor :: "stream_server \<Rightarrow> stream_server \<times> sr_effect list" where
  "close_acceptor s =
     (case sr_acceptor s of
        None \<Rightarrow> (s, [Remove_socket_path])
      | Some a \<Rightarrow> (s\<lparr>sr_acceptor := None\<rparr>, [Close_acceptor a, Remove_socket_path]))"

definition handle_bind_failed :: "asio_error \<Rightarrow> stream_server \<Rightarrow> stream_server \<times> sr_effect list" where
  "handle_bind_failed err s = and_then (close_acceptor s) (\<lambda>s. (s, [Sr_enqueue (Sr_bind_failed err)]))"

definition sr_accept :: "stream_server \<Rightarrow> stream_server \<times> sr_effect list" where
  "sr_accept s =
     (s, if sr_stopped s then [] else (case sr_acceptor s of None \<Rightarrow> [] | Some a \<Rightarrow> [Async_accept a]))"

text \<open>\<^verbatim>\<open>bind\<close> in the io context, with the results of opening, binding and listening.\<close>

definition io_bind ::
  "asio_error option \<Rightarrow> asio_error option \<Rightarrow> asio_error option \<Rightarrow> stream_server \<Rightarrow> stream_server \<times> sr_effect list" where
  "io_bind open_error bind_error listen_error s =
     (if sr_stopped s \<or> sr_acceptor s \<noteq> None then (s, [])
      else
        (let s1 = s\<lparr>sr_acceptor := Some (sr_next s), sr_next := sr_next s + 1\<rparr>
         in and_then (s1, [Remove_socket_path])
              (\<lambda>s. case open_error of Some e \<Rightarrow> handle_bind_failed e s
                 | None \<Rightarrow>
                     (case bind_error of Some e \<Rightarrow> handle_bind_failed e s
                      | None \<Rightarrow>
                          (case listen_error of Some e \<Rightarrow> handle_bind_failed e s
                           | None \<Rightarrow> and_then (s, [Sr_enqueue Sr_bound]) sr_accept)))))"

text \<open>
  An accepted socket becomes a peer with the next id. The map of peers keeps an entry that has the id.
\<close>

definition handle_accepted_socket :: "peer_credentials \<Rightarrow> stream_server \<Rightarrow> stream_server \<times> sr_effect list" where
  "handle_accepted_socket credentials s =
     (if sr_stopped s then (s, [Close_accepted])
      else
        (let i = sr_next_peer_id s + 1;
             s1 = s\<lparr>sr_next_peer_id := i, sr_peers := List.insert i (sr_peers s)\<rparr>
         in and_then (s1, [Create_peer i credentials, Start_peer i]) sr_accept))"

text \<open>The end of an accept: an error, or a socket with the credentials of the process at its other end.\<close>

definition accept_completed ::
  "asio_error option \<Rightarrow> peer_credentials \<Rightarrow> stream_server \<Rightarrow> stream_server \<times> sr_effect list" where
  "accept_completed err credentials s =
     (if sr_stopped s then (s, [Close_accepted])
      else
        (case err of
           Some e \<Rightarrow>
             if e \<noteq> Operation_aborted then and_then (close_acceptor s) (\<lambda>s. (s, [Sr_enqueue Sr_closed])) else (s, [])
         | None \<Rightarrow> handle_accepted_socket credentials s))"

definition close_server_peer :: "u64 \<Rightarrow> stream_server \<Rightarrow> stream_server \<times> sr_effect list" where
  "close_server_peer i s =
     (if i \<in> set (sr_peers s)
      then (let (rm, calls) = rm_complete_peer (unat i) Operation_aborted (sr_requests s)
            in (s\<lparr>sr_requests := rm, sr_peers := removeAll i (sr_peers s)\<rparr>,
                map (\<lambda>c. Sr_enqueue (Sr_callback c)) calls @ [Close_peer i]))
      else (s, []))"

definition close_all_peers :: "stream_server \<Rightarrow> stream_server \<times> sr_effect list" where
  "close_all_peers s =
     (let (rm, calls) = rm_complete_all Operation_aborted (sr_requests s)
      in (s\<lparr>sr_requests := rm, sr_peers := []\<rparr>,
          map (\<lambda>c. Sr_enqueue (Sr_callback c)) calls @ map Close_peer (sr_peers s)))"

definition close_health_check_peer :: "stream_server \<Rightarrow> stream_server \<times> sr_effect list" where
  "close_health_check_peer s =
     (case sr_health_check_peer s of
        None \<Rightarrow> (s, [])
      | Some n \<Rightarrow> (s\<lparr>sr_health_check_peer := None\<rparr>, [Health_peer_close n]))"

definition sr_send_request :: "u64 \<Rightarrow> bytes \<Rightarrow> int \<Rightarrow> nat \<Rightarrow> stream_server \<Rightarrow> stream_server \<times> sr_effect list" where
  "sr_send_request p data timeout callback s =
     (let (i, rm) = rm_add (Some (unat p)) callback (sr_requests s)
      in (s\<lparr>sr_requests := rm\<rparr>, [Sr_request_timer i timeout, Send_peer p (make_request_frame i data)]))"

definition sr_request_timeout :: "u64 \<Rightarrow> u64 \<Rightarrow> stream_server \<Rightarrow> stream_server \<times> sr_effect list" where
  "sr_request_timeout p i s =
     (let (rm, calls, timeout_callback) = rm_on_timeout i (Some 0) (sr_requests s);
          s1 = s\<lparr>sr_requests := rm\<rparr>;
          f1 = map (\<lambda>c. Sr_enqueue (Sr_callback c)) calls
      in and_then (s1, f1)
           (\<lambda>s. if timeout_callback \<noteq> None \<and> po_invalidate_connection_on_request_error (sr_options s)
                then close_server_peer p s else (s, [])))"

subsection \<open>The health check\<close>

definition health_check_failed :: "stream_server \<Rightarrow> stream_server \<times> sr_effect list" where
  "health_check_failed s =
     (if \<not> sr_health_check_in_progress s then (s, [])
      else
        and_then
          (and_then (close_health_check_peer (s\<lparr>sr_health_check_in_progress := False\<rparr>)) close_acceptor)
          (\<lambda>s. (s, [Sr_enqueue Sr_closed])))"

definition io_health_check :: "stream_server \<Rightarrow> stream_server \<times> sr_effect list" where
  "io_health_check s =
     (if sr_stopped s \<or> sr_acceptor s = None \<or> sr_health_check_in_progress s then (s, [])
      else (s\<lparr>sr_health_check_in_progress := True, sr_next := sr_next s + 1\<rparr>,
            [Health_deadline (sr_next s) (sr_health_check_timeout s), Health_connect (sr_next s)]))"

definition health_deadline_expired :: "nat \<Rightarrow> stream_server \<Rightarrow> stream_server \<times> sr_effect list" where
  "health_deadline_expired n s = and_then (s, [Health_socket_close n]) health_check_failed"

definition health_connected :: "nat \<Rightarrow> asio_error option \<Rightarrow> stream_server \<Rightarrow> stream_server \<times> sr_effect list" where
  "health_connected n err s =
     (case err of
        Some e \<Rightarrow> and_then (s, [Health_deadline_cancel n]) health_check_failed
      | None \<Rightarrow> (s\<lparr>sr_health_check_peer := Some n\<rparr>, [Health_peer_start n make_health_check_frame]))"

subsection \<open>Closures\<close>

definition io_stop :: "stream_server \<Rightarrow> stream_server \<times> sr_effect list" where
  "io_stop s =
     and_then (and_then (and_then (close_acceptor s) close_all_peers) close_health_check_peer)
       (\<lambda>s. (s\<lparr>sr_health_check_in_progress := False\<rparr>, []))"

definition run_sr_io ::
  "asio_error option \<times> asio_error option \<times> asio_error option \<Rightarrow> sr_io \<Rightarrow> stream_server \<Rightarrow> stream_server \<times> sr_effect list" where
  "run_sr_io errors c s =
     (case c of
        Sio_stop \<Rightarrow> io_stop s
      | Sio_bind \<Rightarrow> (case errors of (e1, e2, e3) \<Rightarrow> io_bind e1 e2 e3 s)
      | Sio_send p data \<Rightarrow> (s, if p \<in> set (sr_peers s) then [Send_peer p (make_user_data_frame data)] else [])
      | Sio_respond p i data \<Rightarrow> (s, if p \<in> set (sr_peers s) then [Send_peer p (make_response_frame i data)] else [])
      | Sio_request p data timeout callback \<Rightarrow>
          (if p \<in> set (sr_peers s) then sr_send_request p data timeout callback s
           else (s, [Sr_enqueue (Sr_callback (Callback callback (Some Not_connected) None))]))
      | Sio_close_peer p \<Rightarrow> close_server_peer p s
      | Sio_response_received p i buffer \<Rightarrow>
          (if p \<in> set (sr_peers s)
           then (let (rm, calls) = rm_complete_for (unat p) i None (Some buffer) (sr_requests s)
                 in (s\<lparr>sr_requests := rm\<rparr>, map (\<lambda>c. Sr_enqueue (Sr_callback c)) calls))
           else (s, []))
      | Sio_peer_error p err \<Rightarrow>
          (let (rm, calls) = rm_complete_peer (unat p) err (sr_requests s)
           in (s\<lparr>sr_requests := rm\<rparr>, map (\<lambda>c. Sr_enqueue (Sr_callback c)) calls))
      | Sio_peer_closed p \<Rightarrow>
          (let (rm, calls) = rm_complete_peer (unat p) Connection_reset (sr_requests s)
           in (s\<lparr>sr_requests := rm, sr_peers := removeAll p (sr_peers s)\<rparr>,
               map (\<lambda>c. Sr_enqueue (Sr_callback c)) calls))
      | Sio_health_check \<Rightarrow> io_health_check s
      | Sio_health_response n \<Rightarrow>
          and_then (and_then (s, [Health_deadline_cancel n]) close_health_check_peer)
            (\<lambda>s. (s\<lparr>sr_health_check_in_progress := False\<rparr>, []))
      | Sio_health_error n err \<Rightarrow> and_then (s, [Health_deadline_cancel n]) health_check_failed
      | Sio_health_closed n \<Rightarrow>
          and_then (s, [Health_deadline_cancel n])
            (\<lambda>s. if sr_health_check_in_progress s then health_check_failed s else (s, [])))"

section \<open>Operations of the dispatcher thread\<close>

definition sr_stop :: "stream_server \<Rightarrow> stream_server \<times> sr_effect list" where
  "sr_stop s =
     (s\<lparr>sr_stopped := True, sr_exposed_peer_ids := []\<rparr>,
      [Sr_enqueue (Sr_debounced Db_cancel), Health_timer_stop, Sr_post Sio_stop])"

definition schedule_bind_retry :: "int \<Rightarrow> stream_server \<Rightarrow> stream_server \<times> sr_effect list" where
  "schedule_bind_retry now s =
     (s, Health_timer_stop #
         (if sr_stopped s then []
          else [Sr_enqueue (Sr_debounced (fst (debounce_after () (normalize_scheduling_interval (sr_bind_retry_interval s)) now)))]))"

definition start_health_check_timer :: "stream_server \<Rightarrow> stream_server \<times> sr_effect list" where
  "start_health_check_timer s =
     (s, if sr_stopped s then []
         else [Health_timer_start (normalize_scheduling_interval (sr_health_check_interval s))])"

definition run_bind_retry_task ::
  "bool \<Rightarrow> unit debounced_closure \<Rightarrow> stream_server \<Rightarrow> stream_server \<times> sr_effect list" where
  "run_bind_retry_task accepted c s =
     (let (b, cs, called) = run_debounced accepted c (sr_bind_retry_task s)
      in (s\<lparr>sr_bind_retry_task := b\<rparr>,
          map (\<lambda>(c, w). Sr_enqueue_at (Sr_debounced c) w) cs @
          (if called \<noteq> [] \<and> \<not> sr_stopped s then [Sr_post Sio_bind] else [])))"

text \<open>The handlers of a peer's signals, which run on the dispatcher thread.\<close>

definition on_peer_signal :: "u64 \<Rightarrow> peer_credentials \<Rightarrow> peer_signal \<Rightarrow> sr_effect list" where
  "on_peer_signal i credentials sig =
     (case sig of
        Peer_ready \<Rightarrow> [Sr_enqueue (Sr_ready i credentials)]
      | Peer_received buffer \<Rightarrow> [Sr_enqueue (Sr_received i buffer)]
      | Peer_request_received r buffer \<Rightarrow> [Sr_enqueue (Sr_request_received i r buffer)]
      | Peer_response_received r buffer \<Rightarrow> [Sr_post (Sio_response_received i r buffer)]
      | Peer_health_check_response_received \<Rightarrow> []
      | Peer_error_occurred err \<Rightarrow> [Sr_post (Sio_peer_error i err), Sr_enqueue (Sr_peer_error i err)]
      | Peer_closed \<Rightarrow> [Sr_post (Sio_peer_closed i), Sr_enqueue (Sr_peer_closed i)])"

text \<open>The same for the peer of a health check.\<close>

definition on_health_signal :: "nat \<Rightarrow> peer_signal \<Rightarrow> sr_effect list" where
  "on_health_signal n sig =
     (case sig of
        Peer_health_check_response_received \<Rightarrow> [Sr_post (Sio_health_response n)]
      | Peer_error_occurred err \<Rightarrow> [Sr_post (Sio_health_error n err)]
      | Peer_closed \<Rightarrow> [Sr_post (Sio_health_closed n)]
      | _ \<Rightarrow> [])"

definition run_sr_task ::
  "(peer_credentials \<Rightarrow> bool) \<Rightarrow> int \<Rightarrow> bool \<Rightarrow> sr_task \<Rightarrow> stream_server \<Rightarrow> stream_server \<times> sr_effect list" where
  "run_sr_task verify_peer now accepted task s =
     (case task of
        Sr_start \<Rightarrow> (s\<lparr>sr_stopped := False\<rparr>, [Sr_post Sio_bind])
      | Sr_stop \<Rightarrow> sr_stop s
      | Sr_bound \<Rightarrow> and_then (s, [Sr_emit Ss_bound]) start_health_check_timer
      | Sr_bind_failed err \<Rightarrow> and_then (s, [Sr_emit (Ss_bind_failed err)]) (schedule_bind_retry now)
      | Sr_closed \<Rightarrow> and_then (s, [Sr_emit Ss_closed]) (schedule_bind_retry now)
      | Sr_ready i credentials \<Rightarrow>
          (if verify_peer credentials
           then (s\<lparr>sr_exposed_peer_ids := List.insert i (sr_exposed_peer_ids s)\<rparr>, [Sr_emit (Ss_peer_connected i credentials)])
           else (s, [Sr_post (Sio_close_peer i)]))
      | Sr_received i buffer \<Rightarrow>
          (s, if i \<in> set (sr_exposed_peer_ids s) then [Sr_emit (Ss_received i buffer)] else [])
      | Sr_request_received i r buffer \<Rightarrow>
          (s, if i \<in> set (sr_exposed_peer_ids s) then [Sr_emit (Ss_request_received i r buffer)] else [])
      | Sr_peer_error i err \<Rightarrow>
          (s, if i \<in> set (sr_exposed_peer_ids s) then [Sr_emit (Ss_peer_error_occurred i err)] else [])
      | Sr_peer_closed i \<Rightarrow>
          (if i \<in> set (sr_exposed_peer_ids s)
           then (s\<lparr>sr_exposed_peer_ids := removeAll i (sr_exposed_peer_ids s)\<rparr>, [Sr_emit (Ss_peer_closed i)])
           else (s, []))
      | Sr_callback c \<Rightarrow> (s, [Sr_emit (Ss_callback c)])
      | Sr_health_check \<Rightarrow> (s, [Sr_post Sio_health_check])
      | Sr_peer_signal i credentials sig \<Rightarrow> (s, on_peer_signal i credentials sig)
      | Sr_health_signal n sig \<Rightarrow> (s, on_health_signal n sig)
      | Sr_debounced c \<Rightarrow> run_bind_retry_task accepted c s)"

end
