(* ===== verification/Stream_Server_Runs.thy ===== *)
theory Stream_Server_Runs
  imports Stream_Server
begin

text \<open>
  Runs of the stream server with its peers: the closures of the two threads in their order, accepts, the peers of
  \<^verbatim>\<open>Stream_Protocol\<close> with the signals they send through the dispatcher, and their destruction. The binding of
  the socket refines the machine of \<^verbatim>\<open>Retry_Protocol\<close>; the signals of the server follow a session per peer.
\<close>

section \<open>The system\<close>

text \<open>
  The state of a run: the server, the closures of the io thread, the closures of the dispatcher (those of the server
  and of its peers share the queue), the closures that run later, the acceptors with an accept under way, the peers
  made so far with the credentials of their sockets, their number, and the effects so far. The server is attached
  to a running dispatcher, so its enqueues are accepted.
\<close>

record sr_system =
  sy_server :: stream_server
  sy_io :: "sr_io list"
  sy_tasks :: "sr_task list"
  sy_delayed :: "sr_task list"
  sy_accepts :: "nat list"
  sy_sockets :: "u64 \<rightharpoonup> peer \<times> peer_credentials"
  sy_accepted :: nat
  sy_trace :: "sr_effect list"

primrec sr_posts :: "sr_effect list \<Rightarrow> sr_io list" where
  "sr_posts [] = []"
| "sr_posts (f # fs) = (case f of Sr_post c \<Rightarrow> [c] | _ \<Rightarrow> []) @ sr_posts fs"

primrec sr_enqueues :: "sr_effect list \<Rightarrow> sr_task list" where
  "sr_enqueues [] = []"
| "sr_enqueues (f # fs) = (case f of Sr_enqueue c \<Rightarrow> [c] | _ \<Rightarrow> []) @ sr_enqueues fs"

primrec sr_delays :: "sr_effect list \<Rightarrow> sr_task list" where
  "sr_delays [] = []"
| "sr_delays (f # fs) = (case f of Sr_enqueue_at c w \<Rightarrow> [c] | _ \<Rightarrow> []) @ sr_delays fs"

primrec sr_accepts :: "sr_effect list \<Rightarrow> nat list" where
  "sr_accepts [] = []"
| "sr_accepts (f # fs) = (case f of Async_accept a \<Rightarrow> [a] | _ \<Rightarrow> []) @ sr_accepts fs"

primrec sr_creates :: "sr_effect list \<Rightarrow> (u64 \<times> peer_credentials) list" where
  "sr_creates [] = []"
| "sr_creates (f # fs) = (case f of Create_peer i cred \<Rightarrow> [(i, cred)] | _ \<Rightarrow> []) @ sr_creates fs"

definition sr_apply :: "stream_server \<times> sr_effect list \<Rightarrow> sr_system \<Rightarrow> sr_system" where
  "sr_apply r y =
     y\<lparr>sy_server := fst r, sy_io := sy_io y @ sr_posts (snd r), sy_tasks := sy_tasks y @ sr_enqueues (snd r),
       sy_delayed := sy_delayed y @ sr_delays (snd r), sy_accepts := sy_accepts y @ sr_accepts (snd r),
       sy_sockets := sy_sockets y ++ map_of (map (\<lambda>(i, cred). (i, peer_new (sr_options (fst r)), cred)) (sr_creates (snd r))),
       sy_accepted := sy_accepted y + length (sr_creates (snd r)), sy_trace := sy_trace y @ snd r\<rparr>"

text \<open>A peer enqueues its signals to the dispatcher.\<close>

primrec signal_tasks :: "u64 \<Rightarrow> peer_credentials \<Rightarrow> peer_effect list \<Rightarrow> sr_task list" where
  "signal_tasks i cred [] = []"
| "signal_tasks i cred (f # fs) = (case f of Signal sig \<Rightarrow> [Sr_peer_signal i cred sig] | _ \<Rightarrow> []) @ signal_tasks i cred fs"

definition signal_of :: "u64 \<Rightarrow> sr_task \<Rightarrow> bool" where
  "signal_of i t \<longleftrightarrow> (case t of Sr_peer_signal j cred sig \<Rightarrow> i = j | _ \<Rightarrow> False)"

definition server_call_posts :: "sr_io set" where
  "server_call_posts = {Sio_send p b |p b. True} \<union> {Sio_respond p i b |p i b. True} \<union>
     {Sio_request p b w c |p b w c. True} \<union> {Sio_close_peer p |p. True}"

text \<open>
  The steps: calls of the application, the next closure of either thread, a closure whose time has come, the end of an
  accept (with the error of a cancelled operation only for an acceptor that was closed), an event at a
  peer, the destruction of a peer that is closed and released (which removes its closures from the
  dispatcher), the timer of the health check, events of a health check and the expiry of a request timer.
\<close>

inductive sr_step :: "(peer_credentials \<Rightarrow> bool) \<Rightarrow> sr_system \<Rightarrow> sr_system \<Rightarrow> bool" for verify where
  sy_call: "task \<in> {Sr_start, Sr_stop} \<Longrightarrow> sr_step verify y (y\<lparr>sy_tasks := sy_tasks y @ [task]\<rparr>)"
| sy_post: "c \<in> server_call_posts \<Longrightarrow> sr_step verify y (y\<lparr>sy_io := sy_io y @ [c]\<rparr>)"
| sy_io: "sy_io y = c # cs \<Longrightarrow> sr_step verify y (sr_apply (run_sr_io errors c (sy_server y)) (y\<lparr>sy_io := cs\<rparr>))"
| sy_task: "sy_tasks y = c # cs \<Longrightarrow>
    sr_step verify y (sr_apply (run_sr_task verify now True c (sy_server y)) (y\<lparr>sy_tasks := cs\<rparr>))"
| sy_delayed: "sy_delayed y = d1 @ c # d2 \<Longrightarrow>
    sr_step verify y (sr_apply (run_sr_task verify now True c (sy_server y)) (y\<lparr>sy_delayed := d1 @ d2\<rparr>))"
| sy_accept: "sy_accepts y = k1 @ a # k2 \<Longrightarrow> err = Some Operation_aborted \<Longrightarrow> sr_acceptor (sy_server y) \<noteq> Some a \<Longrightarrow>
    sr_step verify y (sr_apply (accept_completed err cred (sy_server y)) (y\<lparr>sy_accepts := k1 @ k2\<rparr>))"
| sy_accepted: "sy_accepts y = k1 @ a # k2 \<Longrightarrow> err \<noteq> Some Operation_aborted \<Longrightarrow>
    sr_step verify y (sr_apply (accept_completed err cred (sy_server y)) (y\<lparr>sy_accepts := k1 @ k2\<rparr>))"
| sy_peer: "sy_sockets y i = Some (p, cred) \<Longrightarrow> run_event ev p = (p', fs) \<Longrightarrow>
    sr_step verify y (y\<lparr>sy_sockets := (sy_sockets y)(i \<mapsto> (p', cred)), sy_tasks := sy_tasks y @ signal_tasks i cred fs\<rparr>)"
| sy_destroy: "sy_sockets y i = Some (p, cred) \<Longrightarrow> pr_closed_on_executor p \<Longrightarrow> i \<notin> set (sr_peers (sy_server y)) \<Longrightarrow>
    sr_step verify y (y\<lparr>sy_tasks := filter (\<lambda>t. \<not> signal_of i t) (sy_tasks y)\<rparr>)"
| sy_timer: "sr_step verify y (sr_apply (run_sr_task verify now True Sr_health_check (sy_server y)) y)"
| sy_health_signal: "sr_step verify y (y\<lparr>sy_tasks := sy_tasks y @ [Sr_health_signal n sig]\<rparr>)"
| sy_health_deadline: "sr_step verify y (sr_apply (health_deadline_expired n (sy_server y)) y)"
| sy_health_connected: "sr_step verify y (sr_apply (health_connected n err (sy_server y)) y)"
| sy_timeout: "sr_step verify y (sr_apply (sr_request_timeout p i (sy_server y)) y)"

definition sr_initial :: "sr_system \<Rightarrow> bool" where
  "sr_initial y \<longleftrightarrow> (\<exists>opts retry health timeout. y = \<lparr>sy_server = stream_server_new opts retry health timeout, sy_io = [],
     sy_tasks = [], sy_delayed = [], sy_accepts = [], sy_sockets = Map.empty, sy_accepted = 0, sy_trace = []\<rparr>)"

lemma sr_effect_append [simp]:
  "sr_posts (xs @ ys) = sr_posts xs @ sr_posts ys" "sr_enqueues (xs @ ys) = sr_enqueues xs @ sr_enqueues ys"
  "sr_delays (xs @ ys) = sr_delays xs @ sr_delays ys" "sr_accepts (xs @ ys) = sr_accepts xs @ sr_accepts ys"
  "sr_creates (xs @ ys) = sr_creates xs @ sr_creates ys"
  by (induction xs) simp_all

lemma sr_effect_callbacks [simp]:
  "sr_posts (map (\<lambda>c. Sr_enqueue (Sr_callback c)) cs) = []" "sr_delays (map (\<lambda>c. Sr_enqueue (Sr_callback c)) cs) = []"
  "sr_accepts (map (\<lambda>c. Sr_enqueue (Sr_callback c)) cs) = []" "sr_creates (map (\<lambda>c. Sr_enqueue (Sr_callback c)) cs) = []"
  "sr_enqueues (map (\<lambda>c. Sr_enqueue (Sr_callback c)) cs) = map Sr_callback cs"
  by (induction cs) simp_all

lemma sr_effect_delays [simp]:
  "sr_posts (map (\<lambda>(c, w). Sr_enqueue_at (Sr_debounced c) w) cs) = []"
  "sr_enqueues (map (\<lambda>(c, w). Sr_enqueue_at (Sr_debounced c) w) cs) = []"
  "sr_accepts (map (\<lambda>(c, w). Sr_enqueue_at (Sr_debounced c) w) cs) = []"
  "sr_creates (map (\<lambda>(c, w). Sr_enqueue_at (Sr_debounced c) w) cs) = []"
  "sr_delays (map (\<lambda>(c, w). Sr_enqueue_at (Sr_debounced c) w) cs) = map (\<lambda>(c, w). Sr_debounced c) cs"
  by (induction cs) auto

lemma sr_effect_closes [simp]:
  "sr_posts (map Close_peer is) = []" "sr_enqueues (map Close_peer is) = []" "sr_delays (map Close_peer is) = []"
  "sr_accepts (map Close_peer is) = []" "sr_creates (map Close_peer is) = []"
  by (induction "is") simp_all

section \<open>Concrete runs\<close>

definition sr_example :: sr_system where
  "sr_example = \<lparr>sy_server = stream_server_new default_options 1000 3000 1000, sy_io = [], sy_tasks = [], sy_delayed = [],
     sy_accepts = [], sy_sockets = Map.empty, sy_accepted = 0, sy_trace = []\<rparr>"

definition any_credentials :: peer_credentials where
  "any_credentials = \<lparr>pc_pid = None, pc_uid = None, pc_gid = None\<rparr>"

text \<open>Runs by moves, each a step if it is possible.\<close>

datatype server_move =
    Move_call sr_task
  | Move_request u64 bytes int nat
  | Move_timeout u64 u64
  | Move_task
  | Move_io
  | Move_accept peer_credentials
  | Move_event u64 peer_event
  | Move_destroy u64
  | Move_timer
  | Move_health_deadline nat
  | Move_delayed
  | Move_bind_error asio_error

definition sr_move :: "(peer_credentials \<Rightarrow> bool) \<Rightarrow> server_move \<Rightarrow> sr_system \<Rightarrow> sr_system" where
  "sr_move verify m y =
     (case m of
        Move_call t \<Rightarrow> if t = Sr_start \<or> t = Sr_stop then y\<lparr>sy_tasks := sy_tasks y @ [t]\<rparr> else y
      | Move_request i data timeout callback \<Rightarrow> y\<lparr>sy_io := sy_io y @ [Sio_request i data timeout callback]\<rparr>
      | Move_timeout i r \<Rightarrow> sr_apply (sr_request_timeout i r (sy_server y)) y
      | Move_task \<Rightarrow>
          (case sy_tasks y of [] \<Rightarrow> y
           | c # cs \<Rightarrow> sr_apply (run_sr_task verify 0 True c (sy_server y)) (y\<lparr>sy_tasks := cs\<rparr>))
      | Move_io \<Rightarrow>
          (case sy_io y of [] \<Rightarrow> y
           | c # cs \<Rightarrow> sr_apply (run_sr_io (None, None, None) c (sy_server y)) (y\<lparr>sy_io := cs\<rparr>))
      | Move_accept cred \<Rightarrow>
          (case sy_accepts y of [] \<Rightarrow> y
           | a # as \<Rightarrow> sr_apply (accept_completed None cred (sy_server y)) (y\<lparr>sy_accepts := as\<rparr>))
      | Move_event i ev \<Rightarrow>
          (case sy_sockets y i of None \<Rightarrow> y
           | Some (p, cred) \<Rightarrow>
               (let (p', fs) = run_event ev p
                in y\<lparr>sy_sockets := (sy_sockets y)(i \<mapsto> (p', cred)), sy_tasks := sy_tasks y @ signal_tasks i cred fs\<rparr>))
      | Move_destroy i \<Rightarrow>
          (case sy_sockets y i of None \<Rightarrow> y
           | Some (p, cred) \<Rightarrow>
               if pr_closed_on_executor p \<and> i \<notin> set (sr_peers (sy_server y))
               then y\<lparr>sy_tasks := filter (\<lambda>t. \<not> signal_of i t) (sy_tasks y)\<rparr> else y)
      | Move_timer \<Rightarrow> sr_apply (run_sr_task verify 0 True Sr_health_check (sy_server y)) y
      | Move_health_deadline n \<Rightarrow> sr_apply (health_deadline_expired n (sy_server y)) y
      | Move_delayed \<Rightarrow>
          (case sy_delayed y of [] \<Rightarrow> y
           | c # cs \<Rightarrow> sr_apply (run_sr_task verify 0 True c (sy_server y)) (y\<lparr>sy_delayed := cs\<rparr>))
      | Move_bind_error e \<Rightarrow>
          (case sy_io y of [] \<Rightarrow> y
           | c # cs \<Rightarrow> sr_apply (run_sr_io (None, Some e, None) c (sy_server y)) (y\<lparr>sy_io := cs\<rparr>)))"

lemma sr_move_step: "sr_move verify m y = y \<or> sr_step verify y (sr_move verify m y)"
proof (cases m)
  case (Move_accept cred)
  then show ?thesis
    using sy_accepted[of y "[]" _ _ None verify cred] by (simp add: sr_move_def split: list.splits)
next
  case Move_delayed
  then show ?thesis using sy_delayed[of y "[]" _ _ verify 0] by (simp add: sr_move_def split: list.splits)
qed (auto simp: sr_move_def server_call_posts_def split: list.splits option.splits prod.splits intro: sr_step.intros)

lemma sr_moves_reachable: "rtranclp (sr_step verify) y (fold (sr_move verify) ms y)"
proof (induction ms arbitrary: y)
  case (Cons m ms)
  then show ?case using sr_move_step[of verify m y] by (metis converse_rtranclp_into_rtranclp fold_simps(2))
qed simp

lemmas sr_evals = sr_move_def sr_apply_def run_sr_task_def run_sr_io_def io_bind_def and_then_def sr_accept_def accept_completed_def
  handle_accepted_socket_def start_health_check_timer_def stream_server_new_def sr_example_def close_server_peer_def
  on_peer_signal_def signal_of_def peer_new_def default_options_def on_header_def peer_close_def close_socket_def on_timer_def
  ensure_ready_def rm_complete_peer_def request_manager_new_def sr_request_timeout_def sr_send_request_def rm_add_def rm_on_timeout_def rm_complete_def

text \<open>A server starts, binds its socket and accepts a connection.\<close>

definition connecting_moves :: "server_move list" where
  "connecting_moves = [Move_call Sr_start, Move_task, Move_io, Move_task, Move_accept any_credentials]"

lemma sr_example_initial: "sr_initial sr_example"
  by (auto simp: sr_initial_def sr_example_def)

section \<open>The server keeps binding\<close>

text \<open>What the retry machine sees of a run.\<close>

primrec retry_ios :: "sr_io list \<Rightarrow> retry_io list" where
  "retry_ios [] = []"
| "retry_ios (c # cs) = (case c of Sio_stop \<Rightarrow> [R_stop] | Sio_bind \<Rightarrow> [R_go] | _ \<Rightarrow> []) @ retry_ios cs"

primrec retry_tasks :: "sr_task list \<Rightarrow> retry_task list" where
  "retry_tasks [] = []"
| "retry_tasks (t # ts) =
     (case t of Sr_bind_failed e \<Rightarrow> [R_reschedule] | Sr_closed \<Rightarrow> [R_reschedule] | Sr_debounced c \<Rightarrow> [R_debounced c] | _ \<Rightarrow> []) @
     retry_tasks ts"

definition acceptor_slot :: "nat option \<Rightarrow> nat list \<Rightarrow> slot" where
  "acceptor_slot acc as = (case acc of None \<Rightarrow> Free | Some a \<Rightarrow> if a \<in> set as then Live else Dropped)"

definition sr_retry :: "sr_system \<Rightarrow> retry_state" where
  "sr_retry y =
     \<lparr>rt_stopped = sr_stopped (sy_server y), rt_slot = acceptor_slot (sr_acceptor (sy_server y)) (sy_accepts y),
      rt_io = retry_ios (sy_io y), rt_tasks = retry_tasks (sy_tasks y),
      rt_delayed = fire_generations (queued_debounces (retry_tasks (sy_delayed y))),
      rt_generation = db_generation (sr_bind_retry_task (sy_server y))\<rparr>"

definition only_fires :: "sr_system \<Rightarrow> bool" where
  "only_fires y \<longleftrightarrow> (\<forall>d\<in>set (sy_delayed y). \<exists>g. d = Sr_debounced (Db_fire () g))"

lemma retry_ios_append [simp]: "retry_ios (xs @ ys) = retry_ios xs @ retry_ios ys"
  by (induction xs) simp_all

lemma retry_tasks_append [simp]: "retry_tasks (xs @ ys) = retry_tasks xs @ retry_tasks ys"
  by (induction xs) simp_all

lemma retry_tasks_callbacks [simp]: "retry_tasks (map Sr_callback cs) = []"
  by (induction cs) simp_all

lemma retry_tasks_signals [simp]: "retry_tasks (signal_tasks i cred fs) = []"
  by (induction fs) (simp_all split: peer_effect.splits)

lemma retry_tasks_destroy [simp]: "retry_tasks (filter (\<lambda>t. \<not> signal_of i t) ts) = retry_tasks ts"
  by (induction ts) (simp_all add: signal_of_def split: sr_task.splits)

lemma retry_tasks_debounced [simp]: "retry_tasks (map (\<lambda>(c, w). Sr_debounced c) cs) = map (R_debounced \<circ> fst) cs"
  by (induction cs) auto

lemma queued_debounces_map [simp]: "queued_debounces (map (R_debounced \<circ> fst) cs) = map fst cs"
  by (induction cs) auto

text \<open>An operation that leaves the acceptor, the retries and the two flags alone.\<close>

definition retry_quiet :: "stream_server \<Rightarrow> stream_server \<times> sr_effect list \<Rightarrow> bool" where
  "retry_quiet s r \<longleftrightarrow> sr_stopped (fst r) = sr_stopped s \<and> sr_acceptor (fst r) = sr_acceptor s \<and>
     sr_bind_retry_task (fst r) = sr_bind_retry_task s \<and> retry_ios (sr_posts (snd r)) = [] \<and>
     retry_tasks (sr_enqueues (snd r)) = [] \<and> sr_delays (snd r) = [] \<and> sr_accepts (snd r) = []"

lemma sr_retry_quiet:
  assumes "retry_quiet (sy_server y) r" "sy_server x = sy_server y" "retry_ios (sy_io x) = retry_ios (sy_io y)"
    "retry_tasks (sy_tasks x) = retry_tasks (sy_tasks y)" "sy_delayed x = sy_delayed y" "sy_accepts x = sy_accepts y"
  shows "sr_retry (sr_apply r x) = sr_retry y"
  using assms by (simp add: retry_quiet_def sr_retry_def sr_apply_def)

lemmas sr_io_defs = run_sr_io_def and_then_def close_server_peer_def close_all_peers_def close_health_check_peer_def
  sr_send_request_def io_health_check_def health_deadline_expired_def health_connected_def sr_request_timeout_def

lemma quiet_close_server_peer: "retry_quiet s (close_server_peer i s)"
  by (auto simp: retry_quiet_def close_server_peer_def split: prod.splits)

lemma quiet_io:
  assumes "c \<noteq> Sio_stop" "c \<noteq> Sio_bind" "\<And>n e. c \<noteq> Sio_health_error n e" "\<And>n. c \<noteq> Sio_health_closed n"
  shows "retry_quiet s (run_sr_io errors c s)"
  using assms quiet_close_server_peer[of s]
  by (cases c) (auto simp: retry_quiet_def sr_io_defs split: prod.splits option.splits)

lemma quiet_timeout: "retry_quiet s (sr_request_timeout p i s)"
  by (auto simp: sr_request_timeout_def and_then_def retry_quiet_def close_server_peer_def Let_def split: prod.splits)

text \<open>A failed health check frees the slot and schedules a retry.\<close>

definition retry_failing :: "stream_server \<Rightarrow> stream_server \<times> sr_effect list \<Rightarrow> bool" where
  "retry_failing s r \<longleftrightarrow> sr_stopped (fst r) = sr_stopped s \<and> sr_acceptor (fst r) = None \<and>
     sr_bind_retry_task (fst r) = sr_bind_retry_task s \<and> retry_ios (sr_posts (snd r)) = [] \<and>
     retry_tasks (sr_enqueues (snd r)) = [R_reschedule] \<and> sr_delays (snd r) = [] \<and> sr_accepts (snd r) = []"

lemma sr_retry_failing:
  assumes "retry_failing (sy_server y) r" "sy_server x = sy_server y" "retry_ios (sy_io x) = retry_ios (sy_io y)"
    "retry_tasks (sy_tasks x) = retry_tasks (sy_tasks y)" "sy_delayed x = sy_delayed y"
  shows "retry_step (sr_retry y) (sr_retry (sr_apply r x))"
  using assms rt_failed[of "sr_retry y"] by (simp add: retry_failing_def sr_retry_def sr_apply_def acceptor_slot_def)

lemma sr_retry_cases:
  assumes "retry_quiet (sy_server y) r \<or> retry_failing (sy_server y) r"
    "sy_server x = sy_server y" "retry_ios (sy_io x) = retry_ios (sy_io y)"
    "retry_tasks (sy_tasks x) = retry_tasks (sy_tasks y)" "sy_delayed x = sy_delayed y" "sy_accepts x = sy_accepts y"
  shows "sr_retry (sr_apply r x) = sr_retry y \<or> retry_step (sr_retry y) (sr_retry (sr_apply r x))"
  using assms sr_retry_quiet sr_retry_failing by metis

lemma health_check_failed_cases: "retry_quiet s (health_check_failed s) \<or> retry_failing s (health_check_failed s)"
  by (auto simp: retry_quiet_def retry_failing_def health_check_failed_def and_then_def close_health_check_peer_def
      close_acceptor_def split: option.splits)

lemma quiet_prefix:
  assumes "sr_posts f = []" "sr_enqueues f = []" "sr_delays f = []" "sr_accepts f = []"
  shows "retry_quiet s (and_then (s, f) g) = retry_quiet s (g s)" "retry_failing s (and_then (s, f) g) = retry_failing s (g s)"
  using assms by (simp_all add: and_then_def retry_quiet_def retry_failing_def split: prod.splits)

lemma health_cases:
  "retry_quiet s (run_sr_io errors (Sio_health_error n e) s) \<or> retry_failing s (run_sr_io errors (Sio_health_error n e) s)"
  "retry_quiet s (run_sr_io errors (Sio_health_closed n) s) \<or> retry_failing s (run_sr_io errors (Sio_health_closed n) s)"
  "retry_quiet s (health_deadline_expired n s) \<or> retry_failing s (health_deadline_expired n s)"
  "retry_quiet s (health_connected n err s) \<or> retry_failing s (health_connected n err s)"
  using health_check_failed_cases[of s]
  by (auto simp: run_sr_io_def health_deadline_expired_def health_connected_def quiet_prefix retry_quiet_def[of s "(s, [])"]
      retry_quiet_def[of s "(s\<lparr>sr_health_check_peer := Some n\<rparr>, [Health_peer_start n make_health_check_frame])"]
      split: option.splits)

lemma retry_run_stop:
  assumes "sy_io y = Sio_stop # cs"
  shows "retry_step (sr_retry y) (sr_retry (sr_apply (run_sr_io errors Sio_stop (sy_server y)) (y\<lparr>sy_io := cs\<rparr>)))"
  using assms rt_run_stop[of "sr_retry y" "retry_ios cs"]
  by (auto simp: sr_retry_def sr_apply_def acceptor_slot_def run_sr_io_def io_stop_def and_then_def close_acceptor_def
      close_all_peers_def close_health_check_peer_def split: option.splits prod.splits)

lemma retry_run_bind:
  assumes "sy_io y = Sio_bind # cs"
  shows "retry_step (sr_retry y) (sr_retry (sr_apply (run_sr_io errors Sio_bind (sy_server y)) (y\<lparr>sy_io := cs\<rparr>)))"
proof (cases "sr_stopped (sy_server y) \<or> sr_acceptor (sy_server y) \<noteq> None")
  case True
  then show ?thesis
    using assms rt_go_blocked[of "sr_retry y" "retry_ios cs"]
    by (cases errors) (auto simp: sr_retry_def sr_apply_def acceptor_slot_def run_sr_io_def io_bind_def)
next
  case False
  obtain e1 e2 e3 where e: "errors = (e1, e2, e3)" by (cases errors)
  note defs = sr_retry_def sr_apply_def acceptor_slot_def run_sr_io_def io_bind_def and_then_def handle_bind_failed_def
    close_acceptor_def sr_accept_def Let_def
  show ?thesis
  proof (cases "e1 = None \<and> e2 = None \<and> e3 = None")
    case True
    then show ?thesis
      using assms False rt_go[of "sr_retry y" "retry_ios cs"] by (simp add: e defs)
  next
    case failed: False
    then show ?thesis
      using assms False rt_go_failed[of "sr_retry y" "retry_ios cs"] by (auto simp: e defs split: option.splits)
  qed
qed

lemma retry_io_step:
  assumes "sy_io y = c # cs"
  shows "sr_retry (sr_apply (run_sr_io errors c (sy_server y)) (y\<lparr>sy_io := cs\<rparr>)) = sr_retry y \<or>
    retry_step (sr_retry y) (sr_retry (sr_apply (run_sr_io errors c (sy_server y)) (y\<lparr>sy_io := cs\<rparr>)))"
proof (cases "c = Sio_stop \<or> c = Sio_bind")
  case True
  then show ?thesis using assms retry_run_stop retry_run_bind by metis
next
  case False
  have "retry_quiet (sy_server y) (run_sr_io errors c (sy_server y)) \<or> retry_failing (sy_server y) (run_sr_io errors c (sy_server y))"
    using False quiet_io[of c "sy_server y" errors] health_cases(1,2)[of "sy_server y" errors] by (cases c) auto
  moreover have "retry_ios cs = retry_ios (sy_io y)" using False assms by (auto split: sr_io.splits)
  ultimately show ?thesis by (intro sr_retry_cases) simp_all
qed

lemma retry_task_step:
  assumes "sy_tasks y = c # cs"
  shows "sr_retry (sr_apply (run_sr_task verify now True c (sy_server y)) (y\<lparr>sy_tasks := cs\<rparr>)) = sr_retry y \<or>
    retry_step (sr_retry y) (sr_retry (sr_apply (run_sr_task verify now True c (sy_server y)) (y\<lparr>sy_tasks := cs\<rparr>)))"
proof (cases "\<exists>d. c = Sr_debounced d")
  case True
  then obtain d where d: "c = Sr_debounced d" by blast
  obtain b ds called where r: "run_debounced True d (sr_bind_retry_task (sy_server y)) = (b, ds, called)" by (metis prod_cases3)
  then have "run_debounced True d \<lparr>db_generation = db_generation (sr_bind_retry_task (sy_server y))\<rparr> = (b, ds, called)"
    by (cases "sr_bind_retry_task (sy_server y)") simp
  then show ?thesis
    using assms rt_debounced[of "sr_retry y" d "retry_tasks cs" b ds called] r
    by (cases "sr_stopped (sy_server y)"; cases "called = []")
      (simp_all add: d sr_retry_def sr_apply_def run_sr_task_def run_bind_retry_task_def)
next
  case False
  show ?thesis
  proof (cases "c = Sr_start \<or> c = Sr_stop \<or> c = Sr_closed \<or> (\<exists>e. c = Sr_bind_failed e)")
    case True
    then show ?thesis
      using assms rt_start[of "sr_retry y"] rt_stop[of "sr_retry y"] rt_reschedule[of "sr_retry y" "retry_tasks cs"]
      by (auto simp: sr_retry_def sr_apply_def run_sr_task_def sr_stop_def and_then_def schedule_bind_retry_def debounce_after_def debounce_at_def)
  next
    case quiet: False
    have "retry_quiet (sy_server y) (run_sr_task verify now True c (sy_server y))"
      using False quiet
      by (cases c) (auto simp: retry_quiet_def run_sr_task_def and_then_def start_health_check_timer_def on_peer_signal_def
          on_health_signal_def split: peer_signal.splits)
    moreover have "retry_tasks cs = retry_tasks (sy_tasks y)" using False quiet assms by (auto split: sr_task.splits)
    ultimately show ?thesis by (intro sr_retry_cases) simp_all
  qed
qed

lemma retry_delayed_step:
  assumes "sy_delayed y = d1 @ Sr_debounced (Db_fire () g) # d2"
  shows "retry_step (sr_retry y)
    (sr_retry (sr_apply (run_sr_task verify now True (Sr_debounced (Db_fire () g)) (sy_server y)) (y\<lparr>sy_delayed := d1 @ d2\<rparr>)))"
  using assms
    rt_fire[of "sr_retry y" "fire_generations (queued_debounces (retry_tasks d1))" g
      "fire_generations (queued_debounces (retry_tasks d2))"]
  by (cases "sr_stopped (sy_server y)"; cases "g = db_generation (sr_bind_retry_task (sy_server y))")
    (simp_all add: sr_retry_def sr_apply_def run_sr_task_def run_bind_retry_task_def run_debounced_def)

lemma retry_aborted_step:
  assumes "sy_accepts y = k1 @ a # k2" "sr_acceptor (sy_server y) \<noteq> Some a"
  shows "sr_retry (sr_apply (accept_completed (Some Operation_aborted) cred (sy_server y)) (y\<lparr>sy_accepts := k1 @ k2\<rparr>)) = sr_retry y"
  using assms by (auto simp: sr_retry_def sr_apply_def accept_completed_def acceptor_slot_def split: option.splits)

lemma retry_accepted_step:
  assumes "sy_accepts y = k1 @ a # k2" "err \<noteq> Some Operation_aborted"
  shows "sr_retry (sr_apply (accept_completed err cred (sy_server y)) (y\<lparr>sy_accepts := k1 @ k2\<rparr>)) = sr_retry y \<or>
    retry_step (sr_retry y) (sr_retry (sr_apply (accept_completed err cred (sy_server y)) (y\<lparr>sy_accepts := k1 @ k2\<rparr>)))"
proof (cases "sr_stopped (sy_server y)")
  case True
  then show ?thesis
    using assms rt_given_up[of "sr_retry y" Dropped]
    by (auto simp: sr_retry_def sr_apply_def accept_completed_def acceptor_slot_def split: option.splits)
next
  case running: False
  show ?thesis
  proof (cases err)
    case (Some e)
    then show ?thesis
      using running assms rt_failed[of "sr_retry y"]
      by (auto simp: sr_retry_def sr_apply_def accept_completed_def acceptor_slot_def and_then_def close_acceptor_def
          split: option.splits)
  next
    case None
    then show ?thesis
      using running assms rt_revived[of "sr_retry y"]
      by (auto simp: sr_retry_def sr_apply_def accept_completed_def handle_accepted_socket_def acceptor_slot_def and_then_def
          sr_accept_def Let_def split: option.splits)
  qed
qed

lemma task_delays:
  "\<forall>d\<in>set (sr_delays (snd (run_sr_task verify now True c s))). \<exists>g. d = Sr_debounced (Db_fire () g)"
  by (cases c) (auto simp: run_sr_task_def run_bind_retry_task_def run_debounced_def debounce_in_dispatcher_def sr_stop_def
      and_then_def start_health_check_timer_def schedule_bind_retry_def on_peer_signal_def on_health_signal_def Let_def
      split: debounced_closure.splits peer_signal.splits)

lemma quiet_delays: "retry_quiet s r \<or> retry_failing s r \<Longrightarrow> sr_delays (snd r) = []"
  by (auto simp: retry_quiet_def retry_failing_def)

lemma io_delays: "sr_delays (snd (run_sr_io errors c s)) = []"
proof (cases "c = Sio_stop \<or> c = Sio_bind")
  case True
  then show ?thesis
    by (cases errors) (auto simp: run_sr_io_def io_stop_def io_bind_def and_then_def close_acceptor_def close_all_peers_def
        close_health_check_peer_def handle_bind_failed_def sr_accept_def Let_def split: option.splits prod.splits)
next
  case False
  then have "retry_quiet s (run_sr_io errors c s) \<or> retry_failing s (run_sr_io errors c s)"
    using quiet_io[of c s errors] health_cases(1,2)[of s errors] by (cases c) auto
  then show ?thesis by (rule quiet_delays)
qed

lemma accept_delays: "sr_delays (snd (accept_completed err cred s)) = []"
  by (auto simp: accept_completed_def handle_accepted_socket_def and_then_def sr_accept_def close_acceptor_def Let_def
      split: option.splits)

lemma only_fires_step: "sr_step verify y z \<Longrightarrow> only_fires y \<Longrightarrow> only_fires z"
proof (induction rule: sr_step.induct)
  case (sy_io y c cs errors)
  then show ?case using io_delays[of errors c "sy_server y"] by (simp add: only_fires_def sr_apply_def)
next
  case (sy_task y c cs now)
  then show ?case using task_delays[of verify now c "sy_server y"] by (auto simp: only_fires_def sr_apply_def)
next
  case (sy_delayed y d1 c d2 now)
  then show ?case using task_delays[of verify now c "sy_server y"] by (auto simp: only_fires_def sr_apply_def)
next
  case (sy_timer y now)
  then show ?case by (simp add: only_fires_def sr_apply_def run_sr_task_def)
next
  case (sy_health_deadline y n)
  then show ?case using quiet_delays[OF health_cases(3)] by (simp add: only_fires_def sr_apply_def)
next
  case (sy_health_connected y n err)
  then show ?case using quiet_delays[OF health_cases(4)] by (simp add: only_fires_def sr_apply_def)
next
  case (sy_timeout y p i)
  then show ?case using quiet_delays[OF disjI1[OF quiet_timeout]] by (simp add: only_fires_def sr_apply_def)
qed (simp_all add: only_fires_def sr_apply_def accept_delays)

lemma sr_retry_step: "sr_step verify y z \<Longrightarrow> only_fires y \<Longrightarrow> sr_retry z = sr_retry y \<or> retry_step (sr_retry y) (sr_retry z)"
proof (induction rule: sr_step.induct)
  case (sy_delayed y d1 c d2 now)
  then obtain g where "c = Sr_debounced (Db_fire () g)" by (auto simp: only_fires_def)
  with sy_delayed show ?case using retry_delayed_step by blast
next
  case (sy_accept y k1 a k2 err cred)
  then show ?case using retry_aborted_step by simp
next
  case (sy_timer y now)
  then show ?case by (simp add: sr_retry_def sr_apply_def run_sr_task_def)
next
  case (sy_health_deadline y n)
  then show ?case using sr_retry_cases[OF health_cases(3)] by simp
next
  case (sy_health_connected y n err)
  then show ?case using sr_retry_cases[OF health_cases(4)] by simp
next
  case (sy_timeout y p i)
  then show ?case using sr_retry_cases[OF disjI1[OF quiet_timeout]] by simp
next
  case (sy_io y c cs errors)
  then show ?case by (simp only: retry_io_step)
next
  case (sy_task y c cs now)
  then show ?case by (simp only: retry_task_step)
next
  case (sy_accepted y k1 a k2 err cred)
  then show ?case using retry_accepted_step by blast
qed (auto simp: sr_retry_def server_call_posts_def)

lemma sr_initial_retry: "sr_initial y \<Longrightarrow> only_fires y \<and> retry_initial (sr_retry y)"
  by (auto simp: sr_initial_def only_fires_def retry_initial_def sr_retry_def stream_server_new_def acceptor_slot_def)

text \<open>The stream server implements the retry machine.\<close>

interpretation sr_binding: refinement "sr_step verify" sr_initial only_fires retry_step retry_initial retry_inv sr_retry
  for verify
  by unfold_locales (auto dest: sr_initial_retry only_fires_step sr_retry_step)

text \<open>
  A started server is listening and accepting, or a closure or timer that leads to the next attempt to bind is
  pending and not cancelled.
\<close>

primrec bind_closures :: "sr_task list \<Rightarrow> unit debounced_closure list" where
  "bind_closures [] = []"
| "bind_closures (t # ts) = (case t of Sr_debounced c \<Rightarrow> [c] | _ \<Rightarrow> []) @ bind_closures ts"

definition bind_retry_pending :: "sr_system \<Rightarrow> bool" where
  "bind_retry_pending y \<longleftrightarrow>
     (if bind_closures (sy_tasks y) = []
      then Sr_debounced (Db_fire () (db_generation (sr_bind_retry_task (sy_server y)))) \<in> set (sy_delayed y)
      else \<exists>w. last (bind_closures (sy_tasks y)) = Db_debounce () w)"

definition sr_active :: "sr_system \<Rightarrow> bool" where
  "sr_active y \<longleftrightarrow> (\<exists>a. sr_acceptor (sy_server y) = Some a \<and> a \<in> set (sy_accepts y)) \<or> Sio_bind \<in> set (sy_io y) \<or>
     Sr_closed \<in> set (sy_tasks y) \<or> (\<exists>e. Sr_bind_failed e \<in> set (sy_tasks y)) \<or> bind_retry_pending y"

lemma bind_closures_retry: "queued_debounces (retry_tasks ts) = bind_closures ts"
  by (induction ts) (auto split: sr_task.splits)

lemma fires_retry: "g \<in> set (fire_generations (bind_closures ts)) \<Longrightarrow> Sr_debounced (Db_fire () g) \<in> set ts"
  by (induction ts) (auto split: sr_task.splits debounced_closure.splits)

lemma retry_ios_set [simp]: "R_go \<in> set (retry_ios cs) \<longleftrightarrow> Sio_bind \<in> set cs" "R_stop \<in> set (retry_ios cs) \<longleftrightarrow> Sio_stop \<in> set cs"
  "R_again \<notin> set (retry_ios cs)"
  by (induction cs) (auto split: sr_io.splits)

lemma retry_tasks_set: "R_reschedule \<in> set (retry_tasks ts) \<longleftrightarrow> Sr_closed \<in> set ts \<or> (\<exists>e. Sr_bind_failed e \<in> set ts)"
  by (induction ts) (auto split: sr_task.splits)

lemma keeps_trying_active: "keeps_trying (sr_retry y) \<Longrightarrow> sr_active y"
  using fires_retry[of _ "sy_delayed y"]
  by (auto simp: keeps_trying_def sr_retry_def sr_active_def retry_scheduled_def bind_closures_retry retry_tasks_set
      bind_retry_pending_def acceptor_slot_def split: option.splits if_splits)

text \<open>
  C11. A started server never gets stuck: under every interleaving of starts, stops, failed binds and accepts, failed
  health checks, peer events and delayed closures, a server that is not stopped is listening with an accept under way,
  or a closure or timer that leads to the next attempt to bind is pending and not cancelled. A stopped server, once
  its stop has run, has no acceptor.
\<close>

theorem stream_server_keeps_binding:
  assumes "sr_initial y" and "rtranclp (sr_step verify) y z"
  shows "(\<not> sr_stopped (sy_server z) \<longrightarrow> sr_active z) \<and>
    (sr_stopped (sy_server z) \<and> Sio_stop \<notin> set (sy_io z) \<longrightarrow> sr_acceptor (sy_server z) = None)"
proof -
  have "retry_inv (sr_retry z)" using sr_binding.abs_reachable assms by blast
  then have "(\<not> sr_stopped (sy_server z) \<longrightarrow> keeps_trying (sr_retry z)) \<and>
      (sr_stopped (sy_server z) \<longrightarrow> Sio_stop \<in> set (sy_io z) \<or> rt_slot (sr_retry z) = Free)"
    by (simp add: retry_inv_def sr_retry_def)
  then show ?thesis
    using keeps_trying_active by (auto simp: sr_retry_def acceptor_slot_def split: option.splits if_splits)
qed

definition sr_started :: sr_system where
  "sr_started = fold (sr_move (\<lambda>_. True)) [Move_call Sr_start, Move_task] sr_example"

theorem stream_server_keeps_binding_witness: "sr_active sr_started"
proof -
  have "rtranclp (sr_step (\<lambda>_. True)) sr_example sr_started" unfolding sr_started_def by (rule sr_moves_reachable)
  moreover have "\<not> sr_stopped (sy_server sr_started)" by (simp add: sr_started_def sr_evals)
  ultimately show ?thesis using stream_server_keeps_binding[OF sr_example_initial] by blast
qed

text \<open>
  The stream server refines the retry machine: each run of the server, seen through the acceptor, the closures that
  bind or stop and the debounced retries, is a run of the abstract machine.
\<close>

theorem stream_server_refines_retry:
  assumes "sr_initial y" and "rtranclp (sr_step verify) y z"
  shows "retry_initial (sr_retry y) \<and> rtranclp retry_step (sr_retry y) (sr_retry z)"
  using assms sr_binding.abs_run sr_binding.abs_initial sr_binding.initial by blast

theorem stream_server_refines_retry_witness: "rtranclp retry_step (sr_retry sr_example) (sr_retry sr_started)"
proof -
  have "rtranclp (sr_step (\<lambda>_. True)) sr_example sr_started" unfolding sr_started_def by (rule sr_moves_reachable)
  then show ?thesis using stream_server_refines_retry[OF sr_example_initial] by blast
qed

end
