(* ===== verification/Stream_Sessions.thy ===== *)
theory Stream_Sessions
  imports Stream_Server_Runs
begin

text \<open>
  What the application sees of a peer through the stream server of \<^verbatim>\<open>Stream_Server_Runs\<close>: one session per peer, opened by
  \<^verbatim>\<open>peer_connected\<close> once the peer is ready and verified, with everything else inside it; and the cases in which
  the session is never closed.
\<close>

section \<open>Sessions\<close>

text \<open>
  The session of a peer: not announced yet, open, or over. A stop ends the open sessions (it clears the exposed ids)
  but leaves a peer that is not announced yet alone: the closure that announces it does not test whether the server
  is stopped.
\<close>

datatype session = Unknown | Exposed | Gone

definition session_step :: "(peer_credentials \<Rightarrow> bool) \<Rightarrow> u64 \<Rightarrow> sr_effect \<Rightarrow> session \<Rightarrow> session option" where
  "session_step verify i f st =
     (case f of
        Sr_emit (Ss_peer_connected j cred) \<Rightarrow>
          if j \<noteq> i then Some st else if st = Unknown \<and> verify cred then Some Exposed else None
      | Sr_emit (Ss_received j b) \<Rightarrow> if j = i \<and> st \<noteq> Exposed then None else Some st
      | Sr_emit (Ss_request_received j r b) \<Rightarrow> if j = i \<and> st \<noteq> Exposed then None else Some st
      | Sr_emit (Ss_peer_error_occurred j e) \<Rightarrow> if j = i \<and> st \<noteq> Exposed then None else Some st
      | Sr_emit (Ss_peer_closed j) \<Rightarrow> if j \<noteq> i then Some st else if st = Exposed then Some Gone else None
      | Sr_post Sio_stop \<Rightarrow> Some (if st = Exposed then Gone else st)
      | _ \<Rightarrow> Some st)"

text \<open>The session of a peer after some effects; \<open>None\<close> if they break the order.\<close>

primrec session_run :: "(peer_credentials \<Rightarrow> bool) \<Rightarrow> u64 \<Rightarrow> sr_effect list \<Rightarrow> session \<Rightarrow> session option" where
  "session_run verify i [] st = Some st"
| "session_run verify i (f # fs) st = Option.bind (session_step verify i f st) (session_run verify i fs)"

lemma session_run_append:
  "session_run verify i (xs @ ys) st = Option.bind (session_run verify i xs st) (session_run verify i ys)"
  by (induction xs arbitrary: st) (auto split: bind_split)

text \<open>The signals about a peer that the application receives.\<close>

definition signals_peer :: "u64 \<Rightarrow> sr_effect \<Rightarrow> bool" where
  "signals_peer i f \<longleftrightarrow>
     (case f of
        Sr_emit (Ss_peer_connected j cred) \<Rightarrow> j = i
      | Sr_emit (Ss_received j b) \<Rightarrow> j = i
      | Sr_emit (Ss_request_received j r b) \<Rightarrow> j = i
      | Sr_emit (Ss_peer_error_occurred j e) \<Rightarrow> j = i
      | Sr_emit (Ss_peer_closed j) \<Rightarrow> j = i
      | _ \<Rightarrow> False)"

lemmas session_splits = sr_effect.splits sr_signal.splits sr_io.splits if_splits

lemma session_gone: "session_run verify i fs Gone = Some st \<Longrightarrow> f \<in> set fs \<Longrightarrow> \<not> signals_peer i f"
  by (induction fs) (auto simp: session_step_def signals_peer_def split: session_splits)

lemma session_step_known: "session_step verify i f st = Some st' \<Longrightarrow> st \<noteq> Unknown \<Longrightarrow> st' \<noteq> Unknown"
  by (auto simp: session_step_def split: session_splits)

lemma session_run_known: "session_run verify i fs st = Some st' \<Longrightarrow> st \<noteq> Unknown \<Longrightarrow> st' \<noteq> Unknown"
proof (induction fs arbitrary: st)
  case (Cons f fs)
  then show ?case using session_step_known[of verify i f st] by (cases "session_step verify i f st") auto
qed simp

lemma session_connected:
  "session_run verify i fs st = Some st' \<Longrightarrow> Sr_emit (Ss_peer_connected i cred) \<in> set fs \<Longrightarrow> st' \<noteq> Unknown"
proof (induction fs arbitrary: st)
  case (Cons f fs)
  then show ?case
    by (auto simp: session_step_def dest: session_run_known split: if_splits bind_splits)
qed simp

text \<open>What ends a session: its \<^verbatim>\<open>peer_closed\<close>, or a stop once the peer is announced.\<close>

definition ends_session :: "u64 \<Rightarrow> sr_effect list \<Rightarrow> sr_effect \<Rightarrow> bool" where
  "ends_session i fs f \<longleftrightarrow> f = Sr_emit (Ss_peer_closed i) \<or>
     f = Sr_post Sio_stop \<and> (\<exists>cred. Sr_emit (Ss_peer_connected i cred) \<in> set fs)"

lemma session_ended:
  assumes "session_run verify i (fs @ f # gs) Unknown = Some st" "ends_session i fs f" "g \<in> set gs"
  shows "\<not> signals_peer i g"
proof -
  from assms(1) obtain st1 st2 where run: "session_run verify i fs Unknown = Some st1"
    "session_step verify i f st1 = Some st2" "session_run verify i gs st2 = Some st"
    by (auto simp: session_run_append bind_eq_Some_conv)
  have "st2 = Gone"
  proof (cases "f = Sr_emit (Ss_peer_closed i)")
    case True
    then show ?thesis using run(2) by (auto simp: session_step_def split: if_splits)
  next
    case False
    then obtain cred where "f = Sr_post Sio_stop" "Sr_emit (Ss_peer_connected i cred) \<in> set fs"
      using assms(2) by (auto simp: ends_session_def)
    then show ?thesis using run(2) session_connected[OF run(1)] by (cases st1) (auto simp: session_step_def)
  qed
  then show ?thesis using session_gone run(3) assms(3) by metis
qed

text \<open>The pending announcements that a peer is ready.\<close>

definition announces_ready :: "u64 \<Rightarrow> sr_task \<Rightarrow> bool" where
  "announces_ready i t \<longleftrightarrow>
     (case t of Sr_ready j cred \<Rightarrow> j = i | Sr_peer_signal j cred sig \<Rightarrow> j = i \<and> sig = Peer_ready | _ \<Rightarrow> False)"

definition pending_readies :: "u64 \<Rightarrow> sr_task list \<Rightarrow> nat" where
  "pending_readies i ts = length (filter (announces_ready i) ts)"

definition socket_ready :: "sr_system \<Rightarrow> u64 \<Rightarrow> bool" where
  "socket_ready y i \<longleftrightarrow> (case sy_sockets y i of None \<Rightarrow> False | Some (p, cred) \<Rightarrow> pr_ready p)"

definition session_ok :: "(peer_credentials \<Rightarrow> bool) \<Rightarrow> sr_system \<Rightarrow> u64 \<Rightarrow> bool" where
  "session_ok verify y i \<longleftrightarrow> (\<exists>st. session_run verify i (sy_trace y) Unknown = Some st \<and>
     (st = Exposed \<longleftrightarrow> i \<in> set (sr_exposed_peer_ids (sy_server y))) \<and>
     pending_readies i (sy_tasks y) + (if st = Unknown then 0 else 1) \<le> (if socket_ready y i then 1 else 0))"

text \<open>Closures and signals carry the credentials of the peer's socket.\<close>

definition task_known :: "sr_system \<Rightarrow> sr_task \<Rightarrow> bool" where
  "task_known y t \<longleftrightarrow>
     (case t of Sr_ready i cred \<Rightarrow> \<exists>p. sy_sockets y i = Some (p, cred)
      | Sr_peer_signal i cred sig \<Rightarrow> \<exists>p. sy_sockets y i = Some (p, cred) | _ \<Rightarrow> True)"

definition effect_known :: "sr_system \<Rightarrow> sr_effect \<Rightarrow> bool" where
  "effect_known y f \<longleftrightarrow>
     (case f of Sr_emit (Ss_peer_connected i cred) \<Rightarrow> \<exists>p. sy_sockets y i = Some (p, cred) | _ \<Rightarrow> True)"

definition sessions_inv :: "(peer_credentials \<Rightarrow> bool) \<Rightarrow> sr_system \<Rightarrow> bool" where
  "sessions_inv verify y \<longleftrightarrow> (sy_accepted y < 2 ^ 64 \<longrightarrow>
     sr_next_peer_id (sy_server y) = of_nat (sy_accepted y) \<and>
     (\<forall>i. sy_sockets y i \<noteq> None \<longrightarrow> unat i \<le> sy_accepted y) \<and> (\<forall>i. session_ok verify y i) \<and>
     (\<forall>t\<in>set (sy_tasks y). task_known y t) \<and> (\<forall>f\<in>set (sy_trace y). effect_known y f))"

lemma pending_readies_simps [simp]:
  "pending_readies i [] = 0" "pending_readies i (t # ts) = (if announces_ready i t then 1 else 0) + pending_readies i ts"
  "pending_readies i (ts @ us) = pending_readies i ts + pending_readies i us"
  by (simp_all add: pending_readies_def)

lemma pending_readies_filter: "pending_readies i (filter P ts) \<le> pending_readies i ts"
  by (induction ts) auto

lemma pending_readies_signals:
  "pending_readies i (signal_tasks j cred fs) = (if i = j then readies fs else 0)"
  by (induction fs) (auto simp: announces_ready_def split: peer_effect.splits)

text \<open>Effects that do not concern sessions.\<close>

definition session_neutral :: "sr_effect \<Rightarrow> bool" where
  "session_neutral f \<longleftrightarrow>
     (case f of Sr_emit s \<Rightarrow> s \<in> {Ss_bound, Ss_closed} \<or> (\<exists>e. s = Ss_bind_failed e) \<or> (\<exists>c. s = Ss_callback c)
      | Sr_post c \<Rightarrow> c \<noteq> Sio_stop
      | Sr_enqueue t \<Rightarrow> (\<forall>i. \<not> announces_ready i t) \<and> (\<forall>i cred sig. t \<noteq> Sr_peer_signal i cred sig)
      | Create_peer i cred \<Rightarrow> False
      | _ \<Rightarrow> True)"

lemma session_run_neutral: "list_all session_neutral fs \<Longrightarrow> session_run verify i fs st = Some st"
  by (induction fs) (auto simp: session_neutral_def session_step_def split: sr_effect.splits sr_signal.splits sr_io.splits)

lemma neutral_effects:
  assumes "list_all session_neutral fs"
  shows "sr_creates fs = []" "pending_readies i (sr_enqueues fs) = 0" "t \<in> set (sr_enqueues fs) \<Longrightarrow> task_known y t"
    "f \<in> set fs \<Longrightarrow> effect_known y f"
  using assms
  by (induction fs)
    (auto simp: session_neutral_def task_known_def effect_known_def announces_ready_def
      split: sr_effect.splits sr_task.splits sr_signal.splits)

definition session_quiet :: "stream_server \<Rightarrow> stream_server \<times> sr_effect list \<Rightarrow> bool" where
  "session_quiet s r \<longleftrightarrow> sr_exposed_peer_ids (fst r) = sr_exposed_peer_ids s \<and> sr_next_peer_id (fst r) = sr_next_peer_id s \<and>
     list_all session_neutral (snd r)"

lemma known_mono:
  assumes "\<And>i p cred. sy_sockets y i = Some (p, cred) \<Longrightarrow> \<exists>p'. sy_sockets z i = Some (p', cred)"
  shows "task_known y t \<Longrightarrow> task_known z t" "effect_known y f \<Longrightarrow> effect_known z f"
  using assms unfolding task_known_def effect_known_def
  by (fastforce split: sr_task.splits sr_effect.splits sr_signal.splits)+

lemma known_tasks [simp]:
  "task_known (y\<lparr>sy_tasks := ts\<rparr>) t = task_known y t" "effect_known (y\<lparr>sy_tasks := ts\<rparr>) f = effect_known y f"
  by (auto simp: task_known_def effect_known_def split: sr_task.splits sr_effect.splits sr_signal.splits)

text \<open>An operation that makes no peer, with what it does to the session of each peer.\<close>

definition session_after ::
  "(peer_credentials \<Rightarrow> bool) \<Rightarrow> sr_task list \<Rightarrow> sr_task list \<Rightarrow> stream_server \<times> sr_effect list \<Rightarrow> u64 \<Rightarrow> session \<Rightarrow> bool" where
  "session_after verify ts us r i st \<longleftrightarrow> (\<exists>st'. session_run verify i (snd r) st = Some st' \<and>
     (st' = Exposed \<longleftrightarrow> i \<in> set (sr_exposed_peer_ids (fst r))) \<and>
     pending_readies i (us @ sr_enqueues (snd r)) + (if st' = Unknown then 0 else 1) \<le>
     pending_readies i ts + (if st = Unknown then 0 else 1))"

lemma sessions_apply:
  assumes inv: "sessions_inv verify y"
    and r: "sr_creates (snd r) = []" "sr_next_peer_id (fst r) = sr_next_peer_id (sy_server y)"
    and x: "set (sy_tasks x) \<subseteq> set (sy_tasks y)" "sy_sockets x = sy_sockets y" "sy_accepted x = sy_accepted y" "sy_trace x = sy_trace y"
    and after: "\<And>i st. st = Exposed \<longleftrightarrow> i \<in> set (sr_exposed_peer_ids (sy_server y)) \<Longrightarrow>
      pending_readies i (sy_tasks y) + (if st = Unknown then 0 else 1) \<le> 1 \<Longrightarrow>
      session_after verify (sy_tasks y) (sy_tasks x) r i st"
    and known: "\<forall>t\<in>set (sy_tasks y). task_known y t \<Longrightarrow> \<forall>t\<in>set (sr_enqueues (snd r)). task_known y t"
      "\<forall>t\<in>set (sy_tasks y). task_known y t \<Longrightarrow> \<forall>f\<in>set (snd r). effect_known y f"
  shows "sessions_inv verify (sr_apply r x)"
proof -
  have soc: "sy_sockets (sr_apply r x) = sy_sockets y" "sy_accepted (sr_apply r x) = sy_accepted y"
    using r(1) x by (simp_all add: sr_apply_def)
  have ok: "session_ok verify (sr_apply r x) i" if i: "session_ok verify y i" for i
  proof -
    obtain st where st: "session_run verify i (sy_trace y) Unknown = Some st"
      "st = Exposed \<longleftrightarrow> i \<in> set (sr_exposed_peer_ids (sy_server y))"
      "pending_readies i (sy_tasks y) + (if st = Unknown then 0 else 1) \<le> (if socket_ready y i then 1 else 0)"
      using i unfolding session_ok_def by blast
    moreover have "(if socket_ready y i then 1 else 0) \<le> (1 :: nat)" by simp
    ultimately obtain st' where st': "session_run verify i (snd r) st = Some st'"
      "st' = Exposed \<longleftrightarrow> i \<in> set (sr_exposed_peer_ids (fst r))"
      "pending_readies i (sy_tasks x @ sr_enqueues (snd r)) + (if st' = Unknown then 0 else 1) \<le>
       pending_readies i (sy_tasks y) + (if st = Unknown then 0 else 1)"
      using after[of st i] unfolding session_after_def by (meson le_trans)
    moreover have "socket_ready (sr_apply r x) i = socket_ready y i" by (simp add: socket_ready_def soc)
    ultimately show ?thesis
      using st x(4) unfolding session_ok_def by (auto simp: sr_apply_def session_run_append)
  qed
  have mono: "task_known (sr_apply r x) t" if "task_known y t" for t
    by (rule known_mono(1)[OF _ that]) (simp add: soc)
  have eff: "effect_known (sr_apply r x) f" if "effect_known y f" for f
    by (rule known_mono(2)[OF _ that]) (simp add: soc)
  have "task_known (sr_apply r x) t" if "t \<in> set (sy_tasks (sr_apply r x))" "\<forall>t\<in>set (sy_tasks y). task_known y t" for t
    using that x(1) mono known(1) by (auto simp: sr_apply_def)
  moreover have "effect_known (sr_apply r x) f"
    if "f \<in> set (sy_trace (sr_apply r x))" "\<forall>f\<in>set (sy_trace y). effect_known y f" "\<forall>t\<in>set (sy_tasks y). task_known y t" for f
    using that x(4) eff known(2) by (auto simp: sr_apply_def)
  moreover have "sr_next_peer_id (sy_server (sr_apply r x)) = sr_next_peer_id (sy_server y)"
    using r by (simp add: sr_apply_def)
  ultimately show ?thesis using inv ok by (auto simp: sessions_inv_def soc)
qed

lemma sessions_quiet:
  assumes "sessions_inv verify y" and r: "session_quiet (sy_server y) r"
    and "set (sy_tasks x) \<subseteq> set (sy_tasks y)" "\<And>i. pending_readies i (sy_tasks x) \<le> pending_readies i (sy_tasks y)"
      "sy_sockets x = sy_sockets y" "sy_accepted x = sy_accepted y" "sy_trace x = sy_trace y"
  shows "sessions_inv verify (sr_apply r x)"
proof -
  have n: "list_all session_neutral (snd r)" using r by (simp add: session_quiet_def)
  show ?thesis
    using assms neutral_effects[OF n] session_run_neutral[OF n]
    by (intro sessions_apply[OF assms(1)]) (auto simp: session_quiet_def session_after_def)
qed

section \<open>The operations\<close>

lemma neutral_callbacks [simp]: "list_all session_neutral (map (\<lambda>c. Sr_enqueue (Sr_callback c)) cs)"
  by (induction cs) (simp_all add: session_neutral_def announces_ready_def)

lemma neutral_delays [simp]: "list_all session_neutral (map (\<lambda>(c, w). Sr_enqueue_at (Sr_debounced c) w) cs)"
  by (induction cs) (auto simp: session_neutral_def)

lemma neutral_closes [simp]: "list_all session_neutral (map Close_peer is)"
  by (induction "is") (simp_all add: session_neutral_def)

lemma session_quiet_then:
  assumes "session_quiet s r" "\<And>s'. session_quiet s' (g s')"
  shows "session_quiet s (and_then r g)"
  using assms(1) assms(2)[of "fst r"] by (auto simp: session_quiet_def and_then_def split: prod.splits)

lemma session_quiet_pair [simp]:
  "session_quiet s (s', fs) \<longleftrightarrow> sr_exposed_peer_ids s' = sr_exposed_peer_ids s \<and> sr_next_peer_id s' = sr_next_peer_id s \<and>
     list_all session_neutral fs"
  by (simp add: session_quiet_def)

lemmas neutral_defs = session_neutral_def announces_ready_def

lemma quiet_close_acceptor: "session_quiet s (close_acceptor s)"
  by (simp add: neutral_defs close_acceptor_def split: option.splits)

lemma quiet_bind_failed: "session_quiet s (handle_bind_failed e s)"
  unfolding handle_bind_failed_def by (intro session_quiet_then quiet_close_acceptor) (simp add: neutral_defs)

lemma quiet_accept: "session_quiet s (sr_accept s)"
  by (simp add: neutral_defs sr_accept_def split: option.splits)

lemma quiet_bind: "session_quiet s (io_bind e1 e2 e3 s)"
proof -
  have "session_quiet s (and_then (s\<lparr>sr_acceptor := a, sr_next := n\<rparr>, [Remove_socket_path])
      (\<lambda>s. case e1 of Some e \<Rightarrow> handle_bind_failed e s
         | None \<Rightarrow> (case e2 of Some e \<Rightarrow> handle_bind_failed e s
             | None \<Rightarrow> (case e3 of Some e \<Rightarrow> handle_bind_failed e s
                 | None \<Rightarrow> and_then (s, [Sr_enqueue Sr_bound]) sr_accept))))" for a n
    by (intro session_quiet_then)
      (auto intro!: session_quiet_then quiet_bind_failed quiet_accept simp: neutral_defs split: option.splits)
  then show ?thesis by (simp add: io_bind_def)
qed

lemma quiet_close_peer: "session_quiet s (close_server_peer i s)"
  by (auto simp: close_server_peer_def session_neutral_def[of "Close_peer i"] split: prod.splits)

lemma quiet_health_failed: "session_quiet s (health_check_failed s)"
proof -
  have "session_quiet s (close_health_check_peer (s\<lparr>sr_health_check_in_progress := False\<rparr>))"
    by (simp add: neutral_defs close_health_check_peer_def split: option.splits)
  then show ?thesis
    unfolding health_check_failed_def
    by (auto intro!: session_quiet_then quiet_close_acceptor simp: neutral_defs)
qed

lemma quiet_health: "session_quiet s (health_deadline_expired n s)" "session_quiet s (health_connected n err s)"
  unfolding health_deadline_expired_def health_connected_def
  by (auto intro!: session_quiet_then quiet_health_failed simp: neutral_defs split: option.splits)

lemma session_quiet_timeout: "session_quiet s (sr_request_timeout p i s)"
  unfolding sr_request_timeout_def Let_def
  by (auto intro!: session_quiet_then quiet_close_peer split: prod.splits)

lemma session_quiet_io: "session_quiet s (run_sr_io errors c s)"
proof (cases c)
  case Sio_stop
  have "session_quiet s (close_all_peers s)" "session_quiet s (close_health_check_peer s)" for s
    by (auto simp: close_all_peers_def close_health_check_peer_def session_neutral_def[of "Health_peer_close _"]
        split: prod.splits option.splits)
  then show ?thesis
    unfolding Sio_stop run_sr_io_def io_stop_def
    by (auto intro!: session_quiet_then quiet_close_acceptor simp: neutral_defs)
next
  case Sio_bind
  then show ?thesis using quiet_bind by (cases errors) (simp add: run_sr_io_def)
next
  case (Sio_health_response n)
  have "session_quiet s (close_health_check_peer s)" for s
    by (simp add: neutral_defs close_health_check_peer_def split: option.splits)
  then show ?thesis
    unfolding Sio_health_response run_sr_io_def
    by (auto intro!: session_quiet_then simp: neutral_defs)
next
  case (Sio_health_error n e)
  then show ?thesis
    by (auto intro!: session_quiet_then quiet_health_failed simp: run_sr_io_def neutral_defs)
next
  case (Sio_health_closed n)
  then show ?thesis
    by (auto intro!: session_quiet_then quiet_health_failed simp: run_sr_io_def) (simp_all add: neutral_defs)
qed (auto simp: run_sr_io_def sr_send_request_def io_health_check_def quiet_close_peer session_neutral_def
    announces_ready_def split: prod.splits)

text \<open>The closures of the dispatcher that concern a session.\<close>

lemma sessions_task:
  assumes inv: "sessions_inv verify y" and q: "sy_tasks y = c # cs"
  shows "sessions_inv verify (sr_apply (run_sr_task verify now True c (sy_server y)) (y\<lparr>sy_tasks := cs\<rparr>))"
proof (cases "session_quiet (sy_server y) (run_sr_task verify now True c (sy_server y))")
  case True
  then show ?thesis by (intro sessions_quiet[OF inv]) (auto simp: q)
next
  case False
  have "session_quiet s (run_bind_retry_task b d s)" for s b d
    by (auto simp: run_bind_retry_task_def neutral_defs split: prod.splits)
  then have "c = Sr_stop \<or> (\<exists>i cred. c = Sr_ready i cred) \<or> (\<exists>i b. c = Sr_received i b) \<or> (\<exists>i r b. c = Sr_request_received i r b) \<or>
      (\<exists>i e. c = Sr_peer_error i e) \<or> (\<exists>i. c = Sr_peer_closed i) \<or> (\<exists>i cred. c = Sr_peer_signal i cred Peer_ready)"
    using False
    by (cases c) (auto simp: run_sr_task_def and_then_def start_health_check_timer_def schedule_bind_retry_def on_peer_signal_def
        on_health_signal_def neutral_defs debounce_after_def debounce_at_def split: peer_signal.splits if_splits)
  then show ?thesis
  proof (elim disjE exE)
    assume c: "c = Sr_stop"
    show ?thesis unfolding c
      by (intro sessions_apply[OF inv])
        (auto simp: c q run_sr_task_def sr_stop_def session_after_def session_step_def announces_ready_def
          task_known_def effect_known_def)
  next
    fix i cred assume c: "c = Sr_ready i cred"
    show ?thesis
      using False unfolding c
      by (intro sessions_apply[OF inv])
        (auto simp: c q run_sr_task_def session_after_def session_step_def announces_ready_def task_known_def effect_known_def neutral_defs
          split: if_splits)
  next
    fix i cred assume c: "c = Sr_peer_signal i cred Peer_ready"
    show ?thesis unfolding c
      by (intro sessions_apply[OF inv])
        (auto simp: c q run_sr_task_def on_peer_signal_def session_after_def session_step_def announces_ready_def task_known_def effect_known_def)
  next
    fix i assume c: "c = Sr_peer_closed i"
    show ?thesis unfolding c
      by (intro sessions_apply[OF inv])
        (auto simp: c q run_sr_task_def session_after_def session_step_def announces_ready_def effect_known_def)
  qed (intro sessions_apply[OF inv]; auto simp: q run_sr_task_def session_after_def session_step_def announces_ready_def effect_known_def)+
qed

lemma sessions_accept:
  assumes inv: "sessions_inv verify y"
  shows "sessions_inv verify (sr_apply (accept_completed err cred (sy_server y)) (y\<lparr>sy_accepts := k\<rparr>))"
proof (cases "err = None \<and> \<not> sr_stopped (sy_server y)")
  case False
  then have "session_quiet (sy_server y) (accept_completed err cred (sy_server y))"
    by (auto intro!: session_quiet_then quiet_close_acceptor simp: accept_completed_def neutral_defs split: option.splits)
  then show ?thesis by (intro sessions_quiet[OF inv]) auto
next
  case True
  define i where "i = sr_next_peer_id (sy_server y) + 1"
  define z where "z = sr_apply (accept_completed err cred (sy_server y)) (y\<lparr>sy_accepts := k\<rparr>)"
  define fs where "fs = snd (sr_accept (sy_server y))"
  have fs: "list_all session_neutral fs" "sy_trace z = sy_trace y @ Create_peer i cred # Start_peer i # fs"
    "sy_tasks z = sy_tasks y"
    using True
    by (auto simp: fs_def z_def accept_completed_def handle_accepted_socket_def and_then_def sr_accept_def sr_apply_def i_def Let_def
        neutral_defs split: option.splits)
  have f: "sy_sockets z = (sy_sockets y)(i \<mapsto> (peer_new (sr_options (sy_server y)), cred))" "sy_accepted z = sy_accepted y + 1"
    "sr_next_peer_id (sy_server z) = i" "sr_exposed_peer_ids (sy_server z) = sr_exposed_peer_ids (sy_server y)"
    using True
    by (auto simp: z_def accept_completed_def handle_accepted_socket_def and_then_def sr_accept_def sr_apply_def i_def Let_def
        split: option.splits)
  have "sessions_inv verify z"
  proof (cases "sy_accepted z < 2 ^ 64")
    case True
    then have bound: "sy_accepted y < 2 ^ 64" using f(2) by simp
    have i: "i = of_nat (sy_accepted y + 1)" using inv bound by (simp add: sessions_inv_def i_def)
    then have ui: "unat i = sy_accepted y + 1" using True f(2) by (simp only: i) (rule unat_of_nat_less, simp)
    then have fresh: "sy_sockets y i = None" using inv bound
      by (metis Suc_eq_plus1 Suc_n_not_le_n sessions_inv_def)
    have "session_step verify j (Create_peer i cred) st = Some st" "session_step verify j (Start_peer i) st = Some st" for j st
      by (simp_all add: session_step_def)
    then have run: "session_run verify j (sy_trace z) Unknown = session_run verify j (sy_trace y) Unknown" for j
      using session_run_neutral[OF fs(1)] by (cases "session_run verify j (sy_trace y) Unknown") (simp_all add: fs(2) session_run_append)
    have ready: "socket_ready z j = socket_ready y j" for j
      using fresh by (simp add: socket_ready_def f peer_new_def)
    have keep: "sy_sockets y j = Some (p, c) \<Longrightarrow> \<exists>p'. sy_sockets z j = Some (p', c)" for j p c using fresh f(1) by auto
    have le: "unat j \<le> sy_accepted z" if "sy_sockets z j \<noteq> None" for j
      using that f inv bound ui by (cases "j = i") (auto simp: sessions_inv_def, meson le_Suc_eq option.discI)
    show ?thesis
      using inv bound run ready le i f fs known_mono[OF keep] neutral_effects(4)[OF fs(1)]
      by (auto simp: sessions_inv_def session_ok_def effect_known_def)
  qed (simp add: sessions_inv_def)
  then show ?thesis by (simp add: z_def)
qed

lemma sessions_peer:
  assumes inv: "sessions_inv verify y" and soc: "sy_sockets y i = Some (p, cred)" and ev: "run_event ev p = (p', fs)"
  shows "sessions_inv verify (y\<lparr>sy_sockets := (sy_sockets y)(i \<mapsto> (p', cred)), sy_tasks := sy_tasks y @ signal_tasks i cred fs\<rparr>)"
    (is "sessions_inv verify ?z")
proof -
  have r: "pr_ready p \<longrightarrow> pr_ready p'" "readies fs = (if pr_ready p' \<and> \<not> pr_ready p then 1 else 0)"
    using sound_event[of p ev] by (simp_all add: sound_op_def ev)
  have ok: "session_ok verify ?z j" if "session_ok verify y j" for j
    using that r soc by (fastforce simp: session_ok_def pending_readies_signals socket_ready_def split: if_splits)
  have mono: "task_known y t \<Longrightarrow> task_known ?z t" "effect_known y f \<Longrightarrow> effect_known ?z f" for t f
    using soc by (auto elim!: known_mono[rotated])
  have "t \<in> set (signal_tasks i cred fs) \<Longrightarrow> \<exists>sig. t = Sr_peer_signal i cred sig" for t
    by (induction fs) (auto split: peer_effect.splits)
  then have "t \<in> set (signal_tasks i cred fs) \<Longrightarrow> task_known ?z t" for t by (force simp: task_known_def)
  with inv ok mono soc show ?thesis by (auto simp: sessions_inv_def)
qed

lemma sessions_destroy:
  assumes "sessions_inv verify y"
  shows "sessions_inv verify (y\<lparr>sy_tasks := filter P (sy_tasks y)\<rparr>)"
proof -
  have "session_ok verify (y\<lparr>sy_tasks := filter P (sy_tasks y)\<rparr>) i" if i: "session_ok verify y i" for i
  proof -
    obtain st where "session_run verify i (sy_trace y) Unknown = Some st"
      "st = Exposed \<longleftrightarrow> i \<in> set (sr_exposed_peer_ids (sy_server y))"
      "pending_readies i (sy_tasks y) + (if st = Unknown then 0 else 1) \<le> (if socket_ready y i then 1 else 0)"
      using i unfolding session_ok_def by blast
    then show ?thesis
      using pending_readies_filter[of i P "sy_tasks y"]
      unfolding session_ok_def socket_ready_def by (intro exI[of _ st]) (simp add: le_trans split: if_splits)
  qed
  with assms show ?thesis by (auto simp: sessions_inv_def)
qed

lemma sessions_enqueue:
  assumes "sessions_inv verify y" "\<And>i. \<not> announces_ready i t" "task_known y t"
  shows "sessions_inv verify (y\<lparr>sy_tasks := sy_tasks y @ [t]\<rparr>)"
  using assms by (simp add: sessions_inv_def session_ok_def socket_ready_def)

section \<open>The session of a peer\<close>

definition sessions_sound :: "(peer_credentials \<Rightarrow> bool) \<Rightarrow> sr_system \<Rightarrow> bool" where
  "sessions_sound verify y \<longleftrightarrow> only_fires y \<and> sessions_inv verify y"

lemma sessions_step: "sr_step verify y z \<Longrightarrow> only_fires y \<Longrightarrow> sessions_inv verify y \<Longrightarrow> sessions_inv verify z"
proof (induction rule: sr_step.induct)
  case (sy_call task y)
  then show ?case by (intro sessions_enqueue) (auto simp: announces_ready_def task_known_def)
next
  case (sy_post c y)
  then have "session_quiet (sy_server y) (sy_server y, [])" by simp
  from sessions_quiet[OF sy_post(3) this, of "y\<lparr>sy_io := sy_io y @ [c]\<rparr>"] show ?case by (simp add: sr_apply_def)
next
  case (sy_delayed y d1 c d2 now)
  then obtain g where c: "c = Sr_debounced (Db_fire () g)" by (auto simp: only_fires_def)
  have "session_quiet s (run_bind_retry_task b d s)" for s b d
    by (auto simp: run_bind_retry_task_def neutral_defs split: prod.splits)
  then show ?case using sy_delayed(3) by (intro sessions_quiet) (auto simp: c run_sr_task_def)
next
  case (sy_timer y now)
  then show ?case by (intro sessions_quiet) (auto simp: run_sr_task_def neutral_defs)
next
  case (sy_health_signal y n sig)
  then show ?case by (intro sessions_enqueue) (auto simp: announces_ready_def task_known_def)
next
  case (sy_io y c cs errors)
  then show ?case using session_quiet_io by (intro sessions_quiet) auto
next
  case (sy_health_deadline y n)
  then show ?case using quiet_health by (intro sessions_quiet) auto
next
  case (sy_health_connected y n err)
  then show ?case using quiet_health by (intro sessions_quiet) auto
next
  case (sy_timeout y p i)
  then show ?case using session_quiet_timeout by (intro sessions_quiet) auto
qed (simp_all add: sessions_task sessions_accept sessions_peer sessions_destroy)

lemma sessions_sound_step: "sr_step verify y z \<Longrightarrow> sessions_sound verify y \<Longrightarrow> sessions_sound verify z"
  unfolding sessions_sound_def using only_fires_step sessions_step by blast

lemma sessions_sound_initial: "sr_initial y \<Longrightarrow> sessions_sound verify y"
  unfolding sessions_sound_def
proof
  assume y: "sr_initial y"
  then show "only_fires y" using sr_initial_retry by blast
  have "session_ok verify y i" for i
    using y unfolding session_ok_def by (intro exI[of _ Unknown]) (auto simp: sr_initial_def stream_server_new_def)
  then show "sessions_inv verify y" using y by (auto simp: sessions_inv_def sr_initial_def stream_server_new_def)
qed

interpretation sr_sessions: step_invariant "sr_step verify" sr_initial "sessions_sound verify" for verify
  by unfold_locales (fact sessions_sound_initial sessions_sound_step)+

text \<open>
  C8. The application sees each peer as one session: whatever the peers send and however the closures of the two threads,
  stops, timeouts and destructions interleave, the signals of a peer are \<^verbatim>\<open>peer_connected\<close> at most once, only
  if the verification accepts the credentials of that peer's socket, then messages, requests and errors, then
  \<^verbatim>\<open>peer_closed\<close> at most once; the exposed ids are exactly the open sessions. Nothing about the peer follows its
  \<^verbatim>\<open>peer_closed\<close>, nor a stop after it was announced, which ends the session without a \<^verbatim>\<open>peer_closed\<close>. A peer that
  was not announced yet when the server stopped may still be announced, and is then a session like the others. Ids are
  unique as long as fewer than \<^verbatim>\<open>2 ^ 64\<close> connections were accepted.
\<close>

theorem stream_server_sessions:
  assumes "sr_initial y" and "rtranclp (sr_step verify) y z" and "sy_accepted z < 2 ^ 64"
  shows "(\<exists>st. session_run verify i (sy_trace z) Unknown = Some st \<and>
      (st = Exposed \<longleftrightarrow> i \<in> set (sr_exposed_peer_ids (sy_server z)))) \<and>
    (\<forall>cred. Sr_emit (Ss_peer_connected i cred) \<in> set (sy_trace z) \<longrightarrow> (\<exists>p. sy_sockets z i = Some (p, cred))) \<and>
    (\<forall>fs f gs. sy_trace z = fs @ f # gs \<longrightarrow> ends_session i fs f \<longrightarrow> (\<forall>g\<in>set gs. \<not> signals_peer i g))"
proof -
  have "sessions_inv verify z" using sr_sessions.reachable[OF assms(1,2)] by (simp add: sessions_sound_def)
  then have ok: "session_ok verify z i" and "\<forall>f\<in>set (sy_trace z). effect_known z f"
    using assms(3) by (simp_all add: sessions_inv_def)
  moreover from ok have "\<not> signals_peer i g" if "sy_trace z = fs @ f # gs" "ends_session i fs f" "g \<in> set gs" for fs f gs g
    using session_ended[OF _ that(2,3)] that(1) by (auto simp: session_ok_def)
  ultimately show ?thesis by (fastforce simp: session_ok_def effect_known_def)
qed

section \<open>A peer announced by a stopped server\<close>

text \<open>The server stops when the closure that announces peer 1 is already enqueued behind the stop.\<close>

definition late_announced :: sr_system where
  "late_announced = fold (sr_move (\<lambda>_. True))
     (connecting_moves @ [Move_event 1 (Ev_timer Ready_deadline False), Move_call Sr_stop, Move_task, Move_task, Move_task]) sr_example"

lemma announced_after_stop:
  "rtranclp (sr_step (\<lambda>_. True)) sr_example late_announced \<and> sr_stopped (sy_server late_announced) \<and>
   1 \<in> set (sr_exposed_peer_ids (sy_server late_announced)) \<and>
   (\<exists>fs gs. sy_trace late_announced = fs @ Sr_post Sio_stop # gs \<and> Sr_emit (Ss_peer_connected 1 any_credentials) \<in> set gs)"
proof -
  have "sr_stopped (sy_server late_announced)" "1 \<in> set (sr_exposed_peer_ids (sy_server late_announced))"
    "Sr_post Sio_stop \<in> set (sy_trace late_announced)"
    by (simp_all add: late_announced_def connecting_moves_def sr_evals sr_stop_def)
  moreover have "Sr_emit (Ss_peer_connected 1 any_credentials) \<in> set (tl (dropWhile (\<lambda>f. f \<noteq> Sr_post Sio_stop) (sy_trace late_announced)))"
    by (simp add: late_announced_def connecting_moves_def sr_evals sr_stop_def)
  moreover have "sy_trace late_announced = takeWhile (\<lambda>f. f \<noteq> Sr_post Sio_stop) (sy_trace late_announced) @
      Sr_post Sio_stop # tl (dropWhile (\<lambda>f. f \<noteq> Sr_post Sio_stop) (sy_trace late_announced))"
    by (simp add: late_announced_def connecting_moves_def sr_evals sr_stop_def)
  ultimately show ?thesis
    unfolding late_announced_def using sr_moves_reachable by blast
qed

section \<open>Sessions that stay open\<close>

text \<open>A peer that closes just before it is announced.\<close>

definition closed_before_ready :: sr_system where
  "closed_before_ready = fold (sr_move (\<lambda>_. True))
     (connecting_moves @ [Move_event 1 (Ev_header (Some Eof) []), Move_event 1 (Ev_timer Ready_deadline False),
      Move_task, Move_task, Move_task, Move_task, Move_io]) sr_example"

text \<open>A peer that does not answer a request of the application in time.\<close>

definition closed_by_timeout :: sr_system where
  "closed_by_timeout = fold (sr_move (\<lambda>_. True))
     (connecting_moves @ [Move_event 1 (Ev_timer Ready_deadline False), Move_task, Move_task, Move_request 1 [] 5000 7,
      Move_io, Move_timeout 1 1, Move_event 1 Ev_close, Move_destroy 1, Move_task]) sr_example"

definition session_left_open :: "sr_system \<Rightarrow> u64 \<Rightarrow> bool" where
  "session_left_open z i \<longleftrightarrow> sy_io z = [] \<and> sy_tasks z = [] \<and> sy_delayed z = [] \<and> i \<in> set (sr_exposed_peer_ids (sy_server z)) \<and>
     sr_peers (sy_server z) = [] \<and> (\<exists>p cred. sy_sockets z i = Some (p, cred) \<and> \<not> pr_open p) \<and>
     (\<exists>cred. Sr_emit (Ss_peer_connected i cred) \<in> set (sy_trace z)) \<and> Sr_emit (Ss_peer_closed i) \<notin> set (sy_trace z)"

text \<open>
  C38. A session is not always closed: the server can announce a peer and never announce that it closed. If a peer
  closes when the timer that makes it ready has expired but its handler has not run, \<^verbatim>\<open>peer_connected\<close> follows
  the closing; and if an exposed peer does not answer a request in time (the daemon sends its status so), the server
  closes and releases it, and its destructor can remove the \<^verbatim>\<open>closed\<close> signal before the dispatcher runs it. In both runs nothing is pending any more, the connection
  is gone and the id stays exposed.
\<close>

theorem stream_sessions_left_open:
  "\<exists>y z. sr_initial sr_example \<and> rtranclp (sr_step (\<lambda>_. True)) sr_example y \<and> session_left_open y 1 \<and>
     rtranclp (sr_step (\<lambda>_. True)) sr_example z \<and> session_left_open z 1 \<and>
     y = closed_before_ready \<and> z = closed_by_timeout"
proof -
  have "session_left_open closed_before_ready 1"
    by (simp add: session_left_open_def closed_before_ready_def connecting_moves_def sr_evals)
  moreover have "session_left_open closed_by_timeout 1"
    by (simp add: session_left_open_def closed_by_timeout_def connecting_moves_def sr_evals)
  ultimately show ?thesis
    using sr_example_initial sr_moves_reachable unfolding closed_before_ready_def closed_by_timeout_def by blast
qed

text \<open>An announced peer.\<close>

definition announced :: sr_system where
  "announced = fold (sr_move (\<lambda>_. True))
     (connecting_moves @ [Move_event 1 (Ev_timer Ready_deadline False), Move_task, Move_task]) sr_example"

text \<open>The peer after a stop of the server, which closes it.\<close>

definition announced_stopped :: sr_system where
  "announced_stopped = fold (sr_move (\<lambda>_. True)) [Move_call Sr_stop, Move_task, Move_task, Move_io, Move_event 1 Ev_close] announced"

theorem stream_server_sessions_witness:
  "(\<exists>st. session_run (\<lambda>_. True) 1 (sy_trace announced) Unknown = Some st \<and> st = Exposed) \<and>
   (\<exists>p. sy_sockets announced 1 = Some (p, any_credentials)) \<and>
   (\<exists>fs gs. sy_trace announced_stopped = fs @ Sr_post Sio_stop # gs \<and> gs \<noteq> [] \<and> (\<forall>g\<in>set gs. \<not> signals_peer 1 g))"
proof -
  have run: "rtranclp (sr_step (\<lambda>_. True)) sr_example announced"
    unfolding announced_def by (rule sr_moves_reachable)
  then have stop: "rtranclp (sr_step (\<lambda>_. True)) sr_example announced_stopped"
    unfolding announced_stopped_def by (rule rtranclp_trans[OF _ sr_moves_reachable])
  have "sy_accepted announced < 2 ^ 64" "1 \<in> set (sr_exposed_peer_ids (sy_server announced))"
    "Sr_emit (Ss_peer_connected 1 any_credentials) \<in> set (sy_trace announced)"
    by (simp_all add: announced_def connecting_moves_def sr_evals)
  with run have open1: "(\<exists>st. session_run (\<lambda>_. True) 1 (sy_trace announced) Unknown = Some st \<and> st = Exposed) \<and>
    (\<exists>p. sy_sockets announced 1 = Some (p, any_credentials))"
    using stream_server_sessions[OF sr_example_initial, of "\<lambda>_. True" announced 1] by auto
  define fs gs where "fs = takeWhile (\<lambda>f. f \<noteq> Sr_post Sio_stop) (sy_trace announced_stopped)"
    and "gs = tl (dropWhile (\<lambda>f. f \<noteq> Sr_post Sio_stop) (sy_trace announced_stopped))"
  have "sy_trace announced_stopped = fs @ Sr_post Sio_stop # gs" "gs \<noteq> []" "sy_accepted announced_stopped < 2 ^ 64"
    "Sr_emit (Ss_peer_connected 1 any_credentials) \<in> set fs"
    by (simp_all add: fs_def gs_def announced_stopped_def announced_def connecting_moves_def sr_evals sr_stop_def io_stop_def
        close_all_peers_def close_health_check_peer_def close_acceptor_def run_bind_retry_task_def run_debounced_def
        debounced_task_new_def rm_complete_all_def)
  moreover from this have "ends_session 1 fs (Sr_post Sio_stop)" by (auto simp: ends_session_def)
  ultimately show ?thesis
    using open1 stream_server_sessions[OF sr_example_initial stop, of 1] by blast
qed

end
