(* ===== verification/Service_Stream.thy ===== *)
theory Service_Stream
  imports Service_Server Stream_Sessions Stream_Client
begin

text \<open>
  The daemon's server on top of the stream: how the slots of \<^verbatim>\<open>virtual_hid_device_service_server.hpp\<close> follow the signals of
  \<^verbatim>\<open>pqrs::unix_domain_stream::server\<close>, which peers have an entry in the clients manager, what a teardown of the
  stream server leaves behind, and the way of a request from a stream client to the daemon and back.
\<close>

section \<open>Entries and sessions\<close>

text \<open>The slots of \<^verbatim>\<open>peer_connected\<close> and \<^verbatim>\<open>peer_closed\<close>, run in the dispatcher thread on each effect of the stream server.\<close>

definition on_stream_effect :: "sr_effect \<Rightarrow> service_server \<Rightarrow> service_server" where
  "on_stream_effect f s =
     (case f of
        Sr_emit (Ss_peer_connected i cred) \<Rightarrow> (case peer_connected True (unat i) s of Inl e \<Rightarrow> s | Inr (s', fs) \<Rightarrow> s')
      | Sr_emit (Ss_peer_closed i) \<Rightarrow> (case peer_closed True (unat i) s of Inl e \<Rightarrow> s | Inr (s', fs) \<Rightarrow> s')
      | _ \<Rightarrow> s)"

definition serve :: "sr_effect list \<Rightarrow> service_server \<Rightarrow> service_server" where
  "serve tr s = fold on_stream_effect tr s"

definition connected_in :: "u64 \<Rightarrow> sr_effect list \<Rightarrow> bool" where
  "connected_in i tr \<longleftrightarrow> (\<exists>cred. Sr_emit (Ss_peer_connected i cred) \<in> set tr)"

definition closed_in :: "u64 \<Rightarrow> sr_effect list \<Rightarrow> bool" where
  "closed_in i tr \<longleftrightarrow> Sr_emit (Ss_peer_closed i) \<in> set tr"

lemma on_stream_effect_entry:
  "ss_manager (on_stream_effect f s) (unat i) \<noteq> None \<longleftrightarrow>
     (case f of
        Sr_emit (Ss_peer_connected j cred) \<Rightarrow> j = i \<or> ss_manager s (unat i) \<noteq> None
      | Sr_emit (Ss_peer_closed j) \<Rightarrow> j \<noteq> i \<and> ss_manager s (unat i) \<noteq> None
      | _ \<Rightarrow> ss_manager s (unat i) \<noteq> None)"
  by (auto simp: on_stream_effect_def peer_connected_def peer_closed_def create_client_entry_def erase_client_entry_def
      async_check_status_changed_def in_dispatcher_thread_def manager_ops_in_thread word_unat_eq_iff
      split: sr_effect.splits sr_signal.splits option.splits)

text \<open>The entry of a peer along its session.\<close>

lemma session_entry:
  assumes "session_run verify i tr Unknown = Some st" "ss_manager s (unat i) = None"
  shows "(st = Unknown \<longleftrightarrow> \<not> connected_in i tr) \<and> (closed_in i tr \<longrightarrow> st = Gone) \<and>
    (ss_manager (serve tr s) (unat i) \<noteq> None \<longleftrightarrow> connected_in i tr \<and> \<not> closed_in i tr) \<and>
    (Sr_post Sio_stop \<notin> set tr \<longrightarrow> (st = Gone \<longleftrightarrow> closed_in i tr))"
  using assms(1)
proof (induction tr arbitrary: st rule: rev_induct)
  case Nil
  then show ?case using assms(2) by (simp add: serve_def connected_in_def closed_in_def)
next
  case (snoc f tr)
  then obtain st' where st': "session_run verify i tr Unknown = Some st'" "session_step verify i f st' = Some st"
    by (auto simp: session_run_append bind_eq_Some_conv)
  have entry: "serve (tr @ [f]) s = on_stream_effect f (serve tr s)" by (simp add: serve_def)
  show ?case
    using snoc.IH[OF st'(1)] st'(2) unfolding entry on_stream_effect_entry session_step_def
    by (auto simp: connected_in_def closed_in_def split: sr_effect.splits sr_signal.splits sr_io.splits if_splits)
qed

text \<open>
  C9. The manager has an entry for exactly the peers whose \<^verbatim>\<open>peer_connected\<close> was signalled and whose \<^verbatim>\<open>peer_closed\<close> was
  not: after any run of the stream server, with the daemon's slots run on its signals in order. As long as the stream
  server was not stopped these are exactly the exposed peers.
\<close>

theorem entries_follow_sessions:
  assumes "sr_initial y" and "rtranclp (sr_step verify) y z" and "sy_accepted z < 2 ^ 64"
  shows "(ss_manager (serve (sy_trace z) (fst (service_server_new mkdir chmod))) (unat i) \<noteq> None \<longleftrightarrow>
      connected_in i (sy_trace z) \<and> \<not> closed_in i (sy_trace z)) \<and>
    (Sr_post Sio_stop \<notin> set (sy_trace z) \<longrightarrow>
      (ss_manager (serve (sy_trace z) (fst (service_server_new mkdir chmod))) (unat i) \<noteq> None \<longleftrightarrow>
       i \<in> set (sr_exposed_peer_ids (sy_server z))))"
proof -
  have "session_ok verify z i"
    using sr_sessions.reachable[OF assms(1,2)] assms(3) by (simp add: sessions_sound_def sessions_inv_def)
  then obtain st where st: "session_run verify i (sy_trace z) Unknown = Some st"
    "st = Exposed \<longleftrightarrow> i \<in> set (sr_exposed_peer_ids (sy_server z))" by (auto simp: session_ok_def)
  have "ss_manager (fst (service_server_new mkdir chmod)) (unat i) = None"
    by (simp add: service_server_new_def create_server_def start_create_server_retry_timer_def Let_def)
  from session_entry[OF st(1) this] st(2) show ?thesis by (cases st) auto
qed

theorem entries_follow_sessions_witness:
  "ss_manager (serve (sy_trace announced) (fst (service_server_new True True))) (unat (1 :: u64)) \<noteq> None"
proof -
  have "rtranclp (sr_step (\<lambda>_. True)) sr_example announced"
    unfolding announced_def by (rule sr_moves_reachable)
  moreover have "sy_accepted announced < 2 ^ 64" "connected_in 1 (sy_trace announced)" "\<not> closed_in 1 (sy_trace announced)"
    by (auto simp: announced_def connecting_moves_def sr_evals connected_in_def closed_in_def)
  ultimately show ?thesis
    using entries_follow_sessions[OF sr_example_initial, of "\<lambda>_. True" announced True True 1] by auto
qed

section \<open>After a teardown\<close>

text \<open>An entry is kept as long as its peer's closing is not signalled, whoever is announced under its number.\<close>

lemma on_stream_effect_keeps:
  "ss_manager s (unat i) = Some e \<Longrightarrow> f \<noteq> Sr_emit (Ss_peer_closed i) \<Longrightarrow>
   ss_manager (on_stream_effect f s) (unat i) = Some e"
  by (auto simp: on_stream_effect_def peer_connected_def peer_closed_def create_client_entry_def erase_client_entry_def
      async_check_status_changed_def in_dispatcher_thread_def manager_ops_in_thread word_unat_eq_iff
      split: sr_effect.splits sr_signal.splits option.splits)

lemma serve_keeps:
  "ss_manager s (unat i) = Some e \<Longrightarrow> \<not> closed_in i tr \<Longrightarrow> ss_manager (serve tr s) (unat i) = Some e"
  by (induction tr arbitrary: s) (auto simp: serve_def closed_in_def on_stream_effect_keeps)

lemma stopped_not_closed:
  assumes "sr_initial y" "rtranclp (sr_step verify) y z" "sy_accepted z < 2 ^ 64"
    and "sy_trace z = fs @ Sr_post Sio_stop # gs" "connected_in i fs"
  shows "\<not> closed_in i gs"
proof -
  have "session_ok verify z i"
    using sr_sessions.reachable[OF assms(1,2)] assms(3) by (simp add: sessions_sound_def sessions_inv_def)
  then obtain st where "session_run verify i (fs @ Sr_post Sio_stop # gs) Unknown = Some st"
    using assms(4) by (auto simp: session_ok_def)
  from session_ended[OF this] assms(5) show ?thesis
    by (force simp: ends_session_def connected_in_def closed_in_def signals_peer_def)
qed

lemma recreated_server:
  "ss_server (fst (create_server True True (fst (teardown_server s))))"
  "ss_manager (fst (create_server True True (fst (teardown_server s)))) = ss_manager s"
  by (simp_all add: teardown_server_def create_server_def start_create_server_retry_timer_def
      prepare_socket_directories_def create_rootonly_directory_def Let_def)

text \<open>
  C39. A teardown of the stream server leaves the entries of its peers behind, and a new peer inherits them. When
  binding fails and the socket directory cannot be prepared, the daemon stops the stream server and enqueues its destruction.
  In any run in which peer 1 was announced before the stop, nothing the stopped server signals however long it lives closes
  that peer for the daemon, since the stop has cleared the exposed ids: the entry \<open>e\<close> the peer has at the stop stays, also
  when the server is destroyed and a new one is created. The new stream server numbers its peers from 1 again; in every run of
  it in which a peer 1 is announced and not closed yet, this peer's entry is still \<open>e\<close>, with the devices
  its former owner enabled.
\<close>

theorem stale_entry_inherited:
  assumes "sr_initial y" and "rtranclp (sr_step verify) y z" and "sy_accepted z < 2 ^ 64"
    and "sy_trace z = fs @ Sr_post Sio_stop # gs" and "connected_in 1 fs" and "ss_manager s 1 = Some e"
    and "sr_initial y'" and "rtranclp (sr_step verify) y' z'" and "connected_in 1 (sy_trace z')" and "\<not> closed_in 1 (sy_trace z')"
  shows "bind_failed False chmod s = (if ss_server s then [Server_stop] else []) @ [Enqueue_teardown] \<and>
    ss_manager (serve gs s) 1 = Some e \<and>
    ss_server (fst (create_server True True (fst (teardown_server (serve gs s))))) \<and>
    ss_manager (serve (sy_trace z') (fst (create_server True True (fst (teardown_server (serve gs s)))))) 1 = Some e"
proof -
  have one: "unat (1 :: u64) = 1" by simp
  have kept: "ss_manager (serve gs s) 1 = Some e"
    using serve_keeps[of s 1 e gs] stopped_not_closed[OF assms(1-5)] assms(6) by (simp add: one)
  then have "ss_manager (serve (sy_trace z') (fst (create_server True True (fst (teardown_server (serve gs s)))))) 1 = Some e"
    using serve_keeps[of _ 1 e "sy_trace z'"] assms(10) by (simp add: one recreated_server)
  with kept show ?thesis
    by (simp add: recreated_server bind_failed_def prepare_socket_directories_def create_rootonly_directory_def)
qed

text \<open>
  A run that leads there: the health check of the socket path fails while peer 1 is connected, the server closes its acceptor
  and binds again, which fails. The daemon's slot calls \<^verbatim>\<open>async_stop\<close>, so the closure of the stop stands in the
  queue before the one that would schedule the next attempt. The stop runs, the io thread closes the peer, and all closures
  run that follow from it.
\<close>

definition bind_lost :: sr_system where
  "bind_lost = fold (sr_move (\<lambda>_. True))
     [Move_timer, Move_io, Move_health_deadline 1, Move_task, Move_task, Move_delayed, Move_bind_error (Asio_error 2),
      Move_call Sr_stop, Move_task, Move_task] announced"

definition bind_lost_closed :: sr_system where
  "bind_lost_closed = fold (sr_move (\<lambda>_. True))
     [Move_io, Move_event 1 Ev_close, Move_task, Move_task, Move_task, Move_task, Move_io] bind_lost"

lemmas bind_lost_evals = bind_lost_closed_def bind_lost_def announced_def connecting_moves_def sr_evals sr_stop_def io_stop_def
  io_health_check_def health_deadline_expired_def health_check_failed_def close_health_check_peer_def close_acceptor_def
  close_all_peers_def rm_complete_all_def schedule_bind_retry_def debounce_after_def debounce_at_def debounce_in_dispatcher_def
  run_bind_retry_task_def run_debounced_def debounced_task_new_def handle_bind_failed_def Let_def

theorem stale_entry_inherited_witness:
  "Sr_emit (Ss_bind_failed (Asio_error 2)) \<in> set (sy_trace bind_lost_closed) \<and>
   bind_failed False True \<lparr>ss_server = True, ss_retry_timer = False, ss_manager = [1 \<mapsto> es_entry entry_demo]\<rparr> =
     [Server_stop, Enqueue_teardown] \<and>
   vd_enabled (ce_device (es_entry entry_demo) Keyboard) \<and>
   (\<exists>fs gs s. sy_trace bind_lost_closed = fs @ Sr_post Sio_stop # gs \<and>
      s = serve gs \<lparr>ss_server = True, ss_retry_timer = False, ss_manager = [1 \<mapsto> es_entry entry_demo]\<rparr> \<and>
      ss_manager (serve (sy_trace announced) (fst (create_server True True (fst (teardown_server s))))) 1 =
        Some (es_entry entry_demo))"
proof -
  let ?s = "\<lparr>ss_server = True, ss_retry_timer = False, ss_manager = [1 \<mapsto> es_entry entry_demo]\<rparr>"
  define fs gs where "fs = takeWhile (\<lambda>f. f \<noteq> Sr_post Sio_stop) (sy_trace bind_lost_closed)"
    and "gs = tl (dropWhile (\<lambda>f. f \<noteq> Sr_post Sio_stop) (sy_trace bind_lost_closed))"
  have run: "rtranclp (sr_step (\<lambda>_. True)) sr_example bind_lost_closed" "rtranclp (sr_step (\<lambda>_. True)) sr_example announced"
    unfolding bind_lost_closed_def bind_lost_def announced_def by (blast intro: rtranclp_trans sr_moves_reachable)+
  have "sy_trace bind_lost_closed = fs @ Sr_post Sio_stop # gs" "connected_in 1 fs" "sy_accepted bind_lost_closed < 2 ^ 64"
    "Sr_emit (Ss_bind_failed (Asio_error 2)) \<in> set (sy_trace bind_lost_closed)"
    by (simp_all add: fs_def gs_def connected_in_def bind_lost_evals)
  moreover have "connected_in 1 (sy_trace announced)" "\<not> closed_in 1 (sy_trace announced)"
    by (auto simp: announced_def connecting_moves_def sr_evals connected_in_def closed_in_def)
  moreover have "vd_enabled (ce_device (es_entry entry_demo) Keyboard)" by (simp add: entry_eval)
  ultimately show ?thesis
    using stale_entry_inherited[OF sr_example_initial run(1) _ _ _ _ sr_example_initial run(2), of fs gs ?s "es_entry entry_demo" True]
    by auto
qed

section \<open>The way of a request\<close>

lemma receive_one:
  assumes "pr_open p" "length (payload_of m) \<le> po_max_message_size (pr_options p)" "po_max_message_size (pr_options p) + 9 < 2 ^ 32"
  shows "deliveries (snd (receive (frame_of m) p)) = signals_of m"
proof -
  obtain p' f where "receive (frame_of m @ []) p = and_then (p', f) (receive [])" "deliveries f = signals_of m"
    using receive_frame[OF assms, of "[]"] by blast
  moreover have "receive [] q = (q, [])" for q by (simp add: receive.simps)
  ultimately show ?thesis by (simp add: and_then_def)
qed

lemma responses_mem: "responses fs = [(p, i)] \<Longrightarrow> \<exists>b. Server_respond p i b \<in> set fs"
  by (induction fs) (auto simp: responses_def split: server_effect.splits)

text \<open>Every answer of the daemon is empty or a status.\<close>

lemma answer_length:
  assumes "request_received views True peer i buffer s = Inr fs" "Server_respond peer i b \<in> set fs"
  shows "length b \<le> 10"
proof -
  have status: "respond_status views True peer i s = Inr gs \<Longrightarrow> Server_respond peer i b \<in> set gs \<Longrightarrow> length b \<le> 10" for gs
    by (auto simp: respond_status_def manager_make_response_def in_dispatcher_thread_def make_response_def append_response_def
        Let_def split: if_splits option.splits)
  have empty: "Server_respond peer i b \<in> set (respond_empty peer i s) \<Longrightarrow> length b \<le> 10"
    by (auto simp: respond_empty_def split: if_splits)
  have after: "Server_respond peer i b \<in> set gs \<Longrightarrow> length b \<le> 10"
    if "after_manager peer call rest = Inr gs" "\<And>hs. rest = Inr hs \<Longrightarrow> Server_respond peer i b \<in> set hs \<Longrightarrow> length b \<le> 10" for call rest gs
    using that by (auto simp: after_manager_def split: sum.splits)
  have "dispatch_request views True peer i buffer off r s = Inr gs \<Longrightarrow> Server_respond peer i b \<in> set gs \<Longrightarrow> length b \<le> 10" for off r gs
    using status empty after
    by (cases r) (auto simp: dispatch_request_def Let_def split: request.splits if_splits)
  then show ?thesis
    using assms empty by (auto simp: request_received_def split: if_splits option.splits)
qed

text \<open>
  C7. A request makes its way to the daemon and back: for a connected stream client and a peer the daemon's server has
  exposed, the frame of a request makes the server's end of the connection deliver it under its id, the server
  signals it, the daemon answers it exactly once, the frame of the answer makes the client's end deliver it
  under the same id, and the client calls the callback of that request with the answer and no error.
\<close>

theorem request_round_trip:
  assumes client: "cl_peer c = Some p" "map_of (rm_pending (cl_requests c)) (rm_next_request_id (cl_requests c) + 1) = None"
    and server: "i \<in> set (sr_exposed_peer_ids sr)" "i \<in> set (sr_peers sr)" "ss_server s"
    and ends: "pr_open sp" "length data \<le> po_max_message_size (pr_options sp)" "po_max_message_size (pr_options sp) + 9 < 2 ^ 32"
      "pr_open cp" "10 \<le> po_max_message_size (pr_options cp)" "po_max_message_size (pr_options cp) + 9 < 2 ^ 32"
  shows "\<exists>r c' fs answer.
    run_cl_io (Io_request data w cb) c = (c', [Start_request_timer r w, Peer_send p (make_request_frame r data)]) \<and>
    deliveries (snd (receive (make_request_frame r data) sp)) = [Peer_request_received r data] \<and>
    run_sr_task verify now acc (Sr_peer_signal i cred (Peer_request_received r data)) sr =
      (sr, [Sr_enqueue (Sr_request_received i r data)]) \<and>
    run_sr_task verify now acc (Sr_request_received i r data) sr = (sr, [Sr_emit (Ss_request_received i r data)]) \<and>
    request_received views True (unat i) (unat r) data s = Inr fs \<and> responses fs = [(unat i, unat r)] \<and>
    Server_respond (unat i) (unat r) answer \<in> set fs \<and>
    run_sr_io errors (Sio_respond i r answer) sr = (sr, [Send_peer i (make_response_frame r answer)]) \<and>
    deliveries (snd (receive (make_response_frame r answer) cp)) = [Peer_response_received r answer] \<and>
    snd (run_cl_io (Io_response_received p r answer) c') = [Enqueue (Cl_callback (Callback cb None (Some answer)))]"
proof -
  define r where "r = rm_next_request_id (cl_requests c) + 1"
  define c' where "c' = c\<lparr>cl_requests := snd (rm_add None cb (cl_requests c))\<rparr>"
  have sent: "run_cl_io (Io_request data w cb) c = (c', [Start_request_timer r w, Peer_send p (make_request_frame r data)])"
    using client(1) by (simp add: run_cl_io_def send_request_def c'_def r_def rm_add_def Let_def)
  have "answers (unat i) (unat r) (request_received views True (unat i) (unat r) data s)"
    using request_received_answers[OF server(3)] .
  then obtain fs answer where fs: "request_received views True (unat i) (unat r) data s = Inr fs" "responses fs = [(unat i, unat r)]"
    "Server_respond (unat i) (unat r) answer \<in> set fs" unfolding answers_def using responses_mem by blast
  have "length answer \<le> 10" using answer_length[OF fs(1,3)] .
  then have returned: "deliveries (snd (receive (make_response_frame r answer) cp)) = [Peer_response_received r answer]"
    using receive_one[of cp "Msg_response r answer"] ends by simp
  have there: "deliveries (snd (receive (make_request_frame r data) sp)) = [Peer_request_received r data]"
    using receive_one[of sp "Msg_request r data"] ends by simp
  have "snd (run_cl_io (Io_response_received p r answer) c') = [Enqueue (Cl_callback (Callback cb None (Some answer)))]"
    using client by (simp add: run_cl_io_def c'_def rm_add_def rm_complete_def r_def Let_def map_add_def)
  with sent there fs returned server show ?thesis
    by (intro exI[of _ r] exI[of _ c'] exI[of _ fs] exI[of _ answer])
      (simp add: run_sr_task_def on_peer_signal_def run_sr_io_def)
qed

theorem request_round_trip_witness:
  "\<exists>r c' fs answer.
    run_cl_io (Io_request [7, 0, 3] 5000 4) ((stream_client_new default_options 1000)\<lparr>cl_peer := Some 0\<rparr>) =
      (c', [Start_request_timer r 5000, Peer_send 0 (make_request_frame r [7, 0, 3])]) \<and>
    request_received (\<lambda>p n. \<lparr>iv_driver_activated = True, iv_driver_connected = True, iv_driver_version_mismatched = False,
      iv_keyboard_ready = None, iv_pointing_ready = None\<rparr>) True (unat (1 :: u64)) (unat r) [7, 0, 3] \<lparr>ss_server = True, ss_retry_timer = False, ss_manager = Map.empty\<rparr> = Inr fs \<and>
    snd (run_cl_io (Io_response_received 0 r answer) c') = [Enqueue (Cl_callback (Callback 4 None (Some answer)))]"
proof -
  have "1 \<in> set (sr_exposed_peer_ids (sy_server announced))" "1 \<in> set (sr_peers (sy_server announced))"
    by (simp_all add: announced_def connecting_moves_def sr_evals)
  from request_round_trip[OF _ _ this, of "(stream_client_new default_options 1000)\<lparr>cl_peer := Some 0\<rparr>" 0
      "\<lparr>ss_server = True, ss_retry_timer = False, ss_manager = Map.empty\<rparr>" "peer_new default_options" "[7, 0, 3]"
      "peer_new default_options" 5000 4]
  show ?thesis
    by (simp add: stream_client_new_def request_manager_new_def peer_new_def default_options_def) blast
qed

end
