(* ===== verification/Daemon.thy ===== *)
theory Daemon
  imports Service_Server Dispatcher_Client Stream_Protocol
begin

text \<open>
  The daemon process: the logger (\<^verbatim>\<open>Daemon/include/logger.hpp\<close>), the start of the run loop thread
  (\<^verbatim>\<open>pqrs/cf/run_loop_thread.hpp\<close>), the destructors of the server and of all objects it owns, with
  their aborts, and \<^verbatim>\<open>Daemon/src/main.cpp\<close> with its start-up and its termination on a signal.
\<close>

section \<open>The logger\<close>

text \<open>
  A logger is known by its name and, for a rotating file, its path, size limit and number of files; the level and
  the flush level and the pattern are set by \<^verbatim>\<open>set_async_rotating_logger\<close>. The factories of spdlog are parameters; a factory that
  fails returns \<open>None\<close>.
\<close>

datatype log_level = Level_info | Level_debug

record log_object =
  lo_name :: string
  lo_file :: "(string \<times> nat \<times> nat) option"
  lo_level :: log_level
  lo_flush_on :: "log_level option"
  lo_pattern :: "string option"

record logger =
  lg_logger :: "log_object option"
  lg_stdout_logger :: "log_object option"

definition logger_new :: logger where
  "logger_new = \<lparr>lg_logger = None, lg_stdout_logger = None\<rparr>"

text \<open>The result is the logger or \<open>None\<close> where the not-null pointer would be null.\<close>

definition get_logger :: "(string \<Rightarrow> log_object option) \<Rightarrow> logger \<Rightarrow> log_object option \<times> logger" where
  "get_logger make_stdout_logger_mt l =
     (case lg_logger l of
        Some g \<Rightarrow> (Some g, l)
      | None \<Rightarrow>
          (let l1 = (if lg_stdout_logger l = None then l\<lparr>lg_stdout_logger := make_stdout_logger_mt ''client''\<rparr> else l)
           in (lg_stdout_logger l1, l1)))"

definition get_pattern :: string where
  "get_pattern = ''[%Y-%m-%d %H:%M:%S.%e] [%l] [%n] %v''"

definition set_async_rotating_logger ::
  "(string \<Rightarrow> string \<Rightarrow> nat \<Rightarrow> nat \<Rightarrow> nat \<Rightarrow> log_object option) \<Rightarrow> string \<Rightarrow> string \<Rightarrow> nat \<Rightarrow> logger \<Rightarrow> logger" where
  "set_async_rotating_logger make_async_rotating_logger_mt logger_name log_file_path log_directory_perms l =
     (case make_async_rotating_logger_mt logger_name log_file_path log_directory_perms (256 * 1024) 3 of
        None \<Rightarrow> l
      | Some g \<Rightarrow> l\<lparr>lg_logger := Some (g\<lparr>lo_level := Level_debug, lo_flush_on := Some Level_debug, lo_pattern := Some get_pattern\<rparr>)\<rparr>)"

text \<open>
  There is always a logger, and it stays the same: if the standard output can be logged to, \<^verbatim>\<open>get_logger\<close> returns a logger,
  every later call returns the same one, and only a successful \<^verbatim>\<open>set_async_rotating_logger\<close> replaces it, by the file
  logger at debug level.
\<close>

theorem logger_available:
  assumes "make_stdout ''client'' \<noteq> None" and "lg_stdout_logger l = None \<or> lg_stdout_logger l = make_stdout ''client''"
  shows "\<exists>g l'. get_logger make_stdout l = (Some g, l') \<and> get_logger make_stdout l' = (Some g, l') \<and>
    (\<forall>make name path perms.
       fst (get_logger make_stdout (set_async_rotating_logger make name path perms l')) =
       (case make name path perms (256 * 1024) 3 of
          None \<Rightarrow> Some g | Some h \<Rightarrow> Some (h\<lparr>lo_level := Level_debug, lo_flush_on := Some Level_debug, lo_pattern := Some get_pattern\<rparr>)))"
  using assms
  by (cases "lg_logger l") (auto simp: get_logger_def set_async_rotating_logger_def Let_def split: option.splits)

theorem logger_available_witness:
  "\<exists>g l'. get_logger (\<lambda>n. Some \<lparr>lo_name = n, lo_file = None, lo_level = Level_info, lo_flush_on = None, lo_pattern = None\<rparr>) logger_new = (Some g, l') \<and>
     lo_name g = ''client''"
proof -
  let ?m = "\<lambda>n. Some \<lparr>lo_name = n, lo_file = None, lo_level = Level_info, lo_flush_on = None, lo_pattern = None\<rparr>"
  from logger_available[of ?m logger_new] show ?thesis by (auto simp: get_logger_def logger_new_def Let_def)
qed

section \<open>Destructors\<close>

text \<open>
  The closure that the manager's destructor runs in the dispatcher thread destroys the entries in the order of
  the unordered map, \<open>peers\<close>; the one of the server stops the timer, destroys the stream server and then the manager.
\<close>

definition clients_manager_destroy :: "peer_id list \<Rightarrow> manager \<Rightarrow> server_effect list" where
  "clients_manager_destroy peers m =
     concat (map (\<lambda>p. case m p of None \<Rightarrow> [] | Some e \<Rightarrow> map (On_entry p) (client_entry_destroy e)) peers)"

definition service_server_destroy :: "peer_id list \<Rightarrow> service_server \<Rightarrow> server_effect list" where
  "service_server_destroy peers s =
     Retry_timer_stop # (if ss_server s then [Server_destroy] else []) @ clients_manager_destroy peers (ss_manager s)"

subsection \<open>Aborts\<close>

text \<open>
  The objects that are attached to the dispatcher. Nearly all destructors have one form: detach from the dispatcher with a closure
  that destroys the members; then the base class aborts if the object is still attached, as do the timers it has. A peer of the
  stream server detaches without a closure, and aborts if it was not closed on the io thread; the destructor of
  the stream server closes its peers before it releases them. The closures run in the dispatcher thread, so the detach of a
  member runs its closure at once.
\<close>

datatype daemon_object = Client_object u64 "daemon_object list" | Peer_object u64 peer

text \<open>The dispatcher afterwards; \<open>None\<close> is an abort.\<close>

fun destroy_object :: "daemon_object \<Rightarrow> unit dispatcher option \<Rightarrow> unit dispatcher option option"
  and destroy_objects :: "daemon_object list \<Rightarrow> unit dispatcher option \<Rightarrow> unit dispatcher option option" where
  "destroy_object (Client_object i members) od =
     (case destroy_objects members (detach_from_dispatcher i od) of
        None \<Rightarrow> None
      | Some od1 \<Rightarrow> (case dispatcher_client_destroy i od1 of None \<Rightarrow> None | Some _ \<Rightarrow> Some od1))"
| "destroy_object (Peer_object i p) od =
     (if \<not> pr_closed_on_executor (fst (peer_close p)) then None
      else
        (let od1 = detach_from_dispatcher i od
         in case dispatcher_client_destroy i od1 of None \<Rightarrow> None | Some _ \<Rightarrow> Some od1))"
| "destroy_objects [] od = Some od"
| "destroy_objects (x # xs) od = (case destroy_object x od of None \<Rightarrow> None | Some od1 \<Rightarrow> destroy_objects xs od1)"

text \<open>
  The objects of the daemon: their ids, the peers with an entry in the order of the unordered map, the io service clients that have
  a service monitor, and the peers of the stream server with what happened to each.
\<close>

datatype daemon_part =
    Part_server
  | Part_stream
  | Part_manager
  | Part_entry peer_id
  | Part_io_client peer_id nat
  | Part_monitor peer_id nat

record daemon_objects =
  do_id :: "daemon_part \<Rightarrow> u64"
  do_entries :: "peer_id list"
  do_monitored :: "peer_id \<Rightarrow> nat \<Rightarrow> bool"
  do_peers :: "(u64 \<times> peer_options \<times> peer_event list) list"

definition io_client_object :: "daemon_objects \<Rightarrow> peer_id \<Rightarrow> nat \<Rightarrow> daemon_object" where
  "io_client_object objs p r =
     Client_object (do_id objs (Part_io_client p r))
       (if do_monitored objs p r then [Client_object (do_id objs (Part_monitor p r)) []] else [])"

definition entry_object :: "daemon_objects \<Rightarrow> peer_id \<Rightarrow> client_entry \<Rightarrow> daemon_object" where
  "entry_object objs p e =
     Client_object (do_id objs (Part_entry p))
       (map (io_client_object objs p)
         ((case vd_client (ce_device e Pointing) of None \<Rightarrow> [] | Some r \<Rightarrow> [r]) @
          (case vd_client (ce_device e Keyboard) of None \<Rightarrow> [] | Some r \<Rightarrow> [r]) @ [ce_no_virtual_devices e]))"

text \<open>The members of the server object in the order in which they are destroyed.\<close>

definition server_members :: "daemon_objects \<Rightarrow> service_server \<Rightarrow> daemon_object list" where
  "server_members objs s =
     (if ss_server s
      then [Client_object (do_id objs Part_stream)
              (map (\<lambda>(i, opts, evs). Peer_object i (fst (peer_run evs (peer_new opts)))) (do_peers objs))]
      else []) @
     [Client_object (do_id objs Part_manager)
        (concat (map (\<lambda>p. case ss_manager s p of None \<Rightarrow> [] | Some e \<Rightarrow> [entry_object objs p e]) (do_entries objs)))]"

section \<open>The run loop thread\<close>

text \<open>
  The constructor waits until the run loop runs; \<open>started\<close> says whether it does within three seconds. If not, the process
  ends, in the way the policy says (\<^verbatim>\<open>EXIT_FAILURE\<close> is 1).
\<close>

datatype failure_policy = Policy_abort | Policy_exit

datatype run_loop_start = Run_loop_running | Run_loop_abort | Run_loop_exit int

definition run_loop_thread_new :: "failure_policy \<Rightarrow> bool \<Rightarrow> run_loop_start" where
  "run_loop_thread_new policy started =
     (if started then Run_loop_running else if policy = Policy_exit then Run_loop_exit 1 else Run_loop_abort)"

section \<open>The process\<close>

datatype unix_signal = SIGINT | SIGTERM | SIGUSR1 | SIGUSR2

datatype daemon_effect =
    In_server server_effect
  | Run_loop_terminated
  | Dispatcher_terminated
  | Exit int

record daemon =
  dm_ignored :: "unix_signal list"
  dm_umask :: nat
  dm_sudden_termination :: bool
  dm_dispatcher :: "unit shared_dispatcher"
  dm_run_loop :: bool
  dm_logger :: logger
  dm_server :: "service_server option"
  dm_sources :: "unix_signal list"
  dm_trace :: "daemon_effect list"

definition daemon_new :: daemon where
  "daemon_new = \<lparr>dm_ignored = [], dm_umask = 0, dm_sudden_termination = False, dm_dispatcher = shared_dispatcher_new,
     dm_run_loop = False, dm_logger = logger_new, dm_server = None, dm_sources = [], dm_trace = []\<rparr>"

text \<open>
  \<^verbatim>\<open>detach_from_dispatcher\<close> with a closure, off the dispatcher thread: the object is detached and the closure queued in
  front under the dispatcher's own id, and the caller waits for it. Without a dispatcher nothing runs. The first component
  says whether the closure ran.
\<close>

definition detach_and_run :: "u64 \<Rightarrow> unit dispatcher option \<Rightarrow> bool \<times> unit dispatcher option" where
  "detach_and_run object_id od =
     (case od of
        None \<Rightarrow> (False, None)
      | Some d \<Rightarrow>
          (let (detached, d1) = dispatcher_detach object_id d;
               (inline, queued, d2) = dispatcher_detach_function False () d1
           in if detached \<and> queued then (True, Some d1) else (False, Some d1)))"

text \<open>
  The start of the daemon. \<open>own\<close> is the object id of the dispatcher. The constructors attach the server, the manager and, when
  the server creates it at once, the stream server.
\<close>

definition construct_server :: "daemon_objects \<Rightarrow> bool \<Rightarrow> bool \<Rightarrow> daemon \<Rightarrow> daemon" where
  "construct_server objs mkdir chmod d =
     (let od = dispatcher_client_new (do_id objs Part_manager)
            (dispatcher_client_new (do_id objs Part_server) (get_shared_dispatcher (dm_dispatcher d)));
          (s, fs) = service_server_new mkdir chmod;
          od1 = (if ss_server s then dispatcher_client_new (do_id objs Part_stream) od else od)
      in d\<lparr>dm_dispatcher := (dm_dispatcher d)\<lparr>sd_dispatcher := od1\<rparr>, dm_server := Some s,
           dm_trace := dm_trace d @ map In_server fs\<rparr>)"

text \<open>\<open>None\<close> is an abort. A process that has left through \<^verbatim>\<open>_Exit\<close> runs nothing of the rest.\<close>

definition daemon_main ::
  "(string \<Rightarrow> string \<Rightarrow> nat \<Rightarrow> nat \<Rightarrow> nat \<Rightarrow> log_object option) \<Rightarrow> bool \<Rightarrow> u64 \<Rightarrow> daemon_objects \<Rightarrow> bool \<Rightarrow> bool \<Rightarrow> daemon option" where
  "daemon_main make_rotating started own objs mkdir chmod =
     (let d0 = daemon_new\<lparr>dm_ignored := [SIGINT, SIGTERM, SIGUSR1, SIGUSR2], dm_umask := 18, dm_sudden_termination := True\<rparr>;
          d1 = d0\<lparr>dm_dispatcher := initialize_shared_dispatcher own (dm_dispatcher d0)\<rparr>
      in case run_loop_thread_new Policy_exit started of
           Run_loop_abort \<Rightarrow> None
         | Run_loop_exit n \<Rightarrow> Some (d1\<lparr>dm_trace := dm_trace d1 @ [Exit n]\<rparr>)
         | Run_loop_running \<Rightarrow>
             (let d2 = d1\<lparr>dm_run_loop := True\<rparr>;
                  d3 = d2\<lparr>dm_logger := set_async_rotating_logger make_rotating ''virtual_hid_device_service''
                         ''/var/log/karabiner/virtual_hid_device_service.log'' 493 (dm_logger d2)\<rparr>;
                  d4 = construct_server objs mkdir chmod d3
              in Some (d4\<lparr>dm_sources := [SIGINT, SIGTERM]\<rparr>)))"

text \<open>
  The destruction of the server object: its detach closure, run by the dispatcher, stops the timer and destroys the members;
  where it does not run, the members are destroyed after it, in the same order. Then the base class aborts if the object
  is still attached. \<open>None\<close> is an abort.
\<close>

definition destroy_server :: "daemon_objects \<Rightarrow> daemon \<Rightarrow> daemon option" where
  "destroy_server objs d =
     (case dm_server d of
        None \<Rightarrow> Some d
      | Some s \<Rightarrow>
          (let (ran, od1) = detach_and_run (do_id objs Part_server) (get_shared_dispatcher (dm_dispatcher d));
               fs = (if ran then service_server_destroy (do_entries objs) s else tl (service_server_destroy (do_entries objs) s))
           in case destroy_objects (server_members objs s) od1 of
                None \<Rightarrow> None
              | Some od2 \<Rightarrow>
                  (case dispatcher_client_destroy (do_id objs Part_server) od2 of
                     None \<Rightarrow> None
                   | Some _ \<Rightarrow>
                       Some (d\<lparr>dm_dispatcher := (dm_dispatcher d)\<lparr>sd_dispatcher := od2\<rparr>, dm_server := None,
                               dm_trace := dm_trace d @ map In_server fs\<rparr>))))"

definition termination_handler :: "daemon_objects \<Rightarrow> daemon \<Rightarrow> daemon option" where
  "termination_handler objs d =
     (case destroy_server objs d of
        None \<Rightarrow> None
      | Some d1 \<Rightarrow>
          (let d2 = d1\<lparr>dm_run_loop := False, dm_trace := dm_trace d1 @ [Run_loop_terminated]\<rparr>
           in case terminate_shared_dispatcher False (dm_dispatcher d2) of
                None \<Rightarrow> None
              | Some sd \<Rightarrow> Some (d2\<lparr>dm_dispatcher := sd, dm_trace := dm_trace d2 @ [Dispatcher_terminated, Exit 0]\<rparr>)))"

text \<open>A signal: an ignored one does nothing, but the dispatch sources run the handler. After the exit there is no process.\<close>

definition exited :: "daemon \<Rightarrow> bool" where
  "exited d \<longleftrightarrow> (\<exists>n. Exit n \<in> set (dm_trace d))"

definition on_unix_signal :: "daemon_objects \<Rightarrow> unix_signal \<Rightarrow> daemon \<Rightarrow> daemon option" where
  "on_unix_signal objs sig d =
     (if \<not> exited d \<and> sig \<in> set (dm_sources d) then termination_handler objs d else Some d)"

text \<open>The handlers of a sequence of signals.\<close>

primrec daemon_run :: "daemon_objects \<Rightarrow> unix_signal list \<Rightarrow> daemon \<Rightarrow> daemon option" where
  "daemon_run objs [] d = Some d"
| "daemon_run objs (sig # sigs) d = Option.bind (on_unix_signal objs sig d) (daemon_run objs sigs)"

section \<open>No abort\<close>

text \<open>A peer that is not open was closed on the io thread.\<close>

lemma run_event_closed:
  "pr_open p \<or> pr_closed_on_executor p \<Longrightarrow>
   pr_open (fst (run_event ev p)) \<or> pr_closed_on_executor (fst (run_event ev p))"
  using sound_event[of p ev] by (simp add: sound_op_def case_prod_beta)

lemma peer_run_closed: "pr_open p \<or> pr_closed_on_executor p \<Longrightarrow>
   pr_open (fst (peer_run evs p)) \<or> pr_closed_on_executor (fst (peer_run evs p))"
proof (induction evs arbitrary: p)
  case (Cons ev evs)
  show ?case using Cons.IH[OF run_event_closed[OF Cons.prems, of ev]] by (simp add: and_then_def case_prod_beta)
qed simp

fun released_closed :: "daemon_object \<Rightarrow> bool" where
  "released_closed (Client_object i members) \<longleftrightarrow> list_all released_closed members"
| "released_closed (Peer_object i p) \<longleftrightarrow> pr_open p \<or> pr_closed_on_executor p"

abbreviation attached_ids :: "unit dispatcher option \<Rightarrow> u64 list" where
  "attached_ids od \<equiv> (case od of None \<Rightarrow> [] | Some d \<Rightarrow> di_object_ids d)"

lemma detach_ids: "attached_ids (detach_from_dispatcher i od) = remove1 i (attached_ids od)"
  by (auto simp: detach_from_dispatcher_def dispatcher_detach_def remove1_idem split: option.splits)

lemma client_destroyed: "i \<notin> set (attached_ids od) \<Longrightarrow> dispatcher_client_destroy i od = Some ()"
  by (auto simp: dispatcher_client_destroy_def dispatcher_client_attached_def split: option.splits)

text \<open>Destroying objects does not abort, and attaches nothing.\<close>

lemma destroy_no_abort:
  "distinct (attached_ids od) \<Longrightarrow> released_closed x \<Longrightarrow>
     \<exists>od'. destroy_object x od = Some od' \<and> distinct (attached_ids od') \<and> set (attached_ids od') \<subseteq> set (attached_ids od) \<and>
       (od = None \<longleftrightarrow> od' = None)"
  "distinct (attached_ids od) \<Longrightarrow> list_all released_closed xs \<Longrightarrow>
     \<exists>od'. destroy_objects xs od = Some od' \<and> distinct (attached_ids od') \<and> set (attached_ids od') \<subseteq> set (attached_ids od) \<and>
       (od = None \<longleftrightarrow> od' = None)"
proof (induction x od and xs od rule: destroy_object_destroy_objects.induct)
  case (1 i members od)
  let ?d = "detach_from_dispatcher i od"
  from 1 obtain od' where od': "destroy_objects members ?d = Some od'" "distinct (attached_ids od')"
    "set (attached_ids od') \<subseteq> set (attached_ids ?d)" "?d = None \<longleftrightarrow> od' = None"
    by (auto simp: detach_ids)
  moreover have "i \<notin> set (attached_ids ?d)" using 1(2) by (simp add: detach_ids)
  ultimately have "dispatcher_client_destroy i od' = Some ()" using client_destroyed by blast
  moreover have "set (attached_ids od') \<subseteq> set (attached_ids od)"
    using od'(3) set_remove1_subset[of i "attached_ids od"] unfolding detach_ids by (rule subset_trans)
  moreover have "od = None \<longleftrightarrow> od' = None" using od'(4) by (simp add: detach_from_dispatcher_def)
  ultimately show ?case using od'(1,2) by simp
next
  case (2 i p od)
  have "pr_closed_on_executor (fst (peer_close p))"
    using 2(2) by (auto simp: peer_close_def close_socket_def)
  moreover have "dispatcher_client_destroy i (detach_from_dispatcher i od) = Some ()"
    using 2(1) by (intro client_destroyed) (simp add: detach_ids)
  moreover have "distinct (attached_ids (detach_from_dispatcher i od))"
    "set (attached_ids (detach_from_dispatcher i od)) \<subseteq> set (attached_ids od)"
    using 2(1) set_remove1_subset[of i "attached_ids od"] unfolding detach_ids by simp_all
  moreover have "od = None \<longleftrightarrow> detach_from_dispatcher i od = None" by (simp add: detach_from_dispatcher_def)
  ultimately show ?case by (simp add: Let_def)
next
  case (4 x xs od)
  then obtain od1 where od1: "destroy_object x od = Some od1" "distinct (attached_ids od1)"
    "set (attached_ids od1) \<subseteq> set (attached_ids od)" "od = None \<longleftrightarrow> od1 = None" by auto
  moreover from 4(2)[OF od1(1,2)] 4(4) obtain od2 where "destroy_objects xs od1 = Some od2" "distinct (attached_ids od2)"
    "set (attached_ids od2) \<subseteq> set (attached_ids od1)" "od1 = None \<longleftrightarrow> od2 = None" by auto
  ultimately show ?case using subset_trans[of "set (attached_ids od2)" "set (attached_ids od1)" "set (attached_ids od)"] by simp
qed simp

lemma entry_released: "released_closed (io_client_object objs p r)" "released_closed (entry_object objs p e)"
  by (auto simp: entry_object_def io_client_object_def split: option.splits)

lemma server_members_released: "list_all released_closed (server_members objs s)"
proof -
  have "released_closed (Peer_object i (fst (peer_run evs (peer_new opts))))" for i evs opts
    using peer_run_closed[of "peer_new opts" evs] by (simp add: peer_new_def)
  then show ?thesis
    by (auto simp: server_members_def list_all_iff entry_released split: option.splits)
qed

section \<open>Termination\<close>

text \<open>A daemon whose server is attached to a running dispatcher.\<close>

definition daemon_running :: "u64 \<Rightarrow> daemon_objects \<Rightarrow> service_server \<Rightarrow> daemon \<Rightarrow> bool" where
  "daemon_running own objs s d \<longleftrightarrow>
     dm_server d = Some s \<and> dm_sources d = [SIGINT, SIGTERM] \<and> \<not> exited d \<and> own \<noteq> do_id objs Part_server \<and>
     (\<exists>di. sd_dispatcher (dm_dispatcher d) = Some di \<and> \<not> di_exit di \<and> di_object_id di = own \<and>
       distinct (di_object_ids di) \<and> {own, do_id objs Part_server} \<subseteq> set (di_object_ids di))"

lemma daemon_main_running:
  assumes "own \<noteq> do_id objs Part_server"
  shows "\<exists>d. daemon_main make_rotating True own objs mkdir chmod = Some d \<and>
    daemon_running own objs (fst (service_server_new mkdir chmod)) d"
  using assms
  by (auto simp: daemon_running_def daemon_main_def run_loop_thread_new_def construct_server_def daemon_new_def
      initialize_shared_dispatcher_def shared_dispatcher_new_def dispatcher_new_def dispatcher_attach_def
      get_shared_dispatcher_def dispatcher_client_new_def exited_def Let_def split: prod.splits)

lemma termination_handler_running:
  assumes "daemon_running own objs s d"
  shows "\<exists>d'. termination_handler objs d = Some d' \<and> dm_server d' = None \<and> \<not> dm_run_loop d' \<and>
    get_shared_dispatcher (dm_dispatcher d') = None \<and> dm_sources d' = dm_sources d \<and>
    dm_trace d' = dm_trace d @ map In_server (service_server_destroy (do_entries objs) s) @
      [Run_loop_terminated, Dispatcher_terminated, Exit 0]"
proof -
  let ?i = "do_id objs Part_server"
  obtain di where di: "sd_dispatcher (dm_dispatcher d) = Some di" "\<not> di_exit di" "di_object_id di = own"
    "distinct (di_object_ids di)" "{own, ?i} \<subseteq> set (di_object_ids di)"
    and s: "dm_server d = Some s" and ids: "own \<noteq> ?i"
    using assms by (auto simp: daemon_running_def)
  define d1 where "d1 = snd (dispatcher_detach ?i di)"
  have d1: "di_object_ids d1 = remove1 ?i (di_object_ids di)" "\<not> di_exit d1" "di_object_id d1 = own"
    using di by (auto simp: d1_def dispatcher_detach_def)
  have ran: "detach_and_run ?i (Some di) = (True, Some d1)"
    using di ids by (auto simp: detach_and_run_def dispatcher_detach_def dispatcher_detach_function_def dispatcher_enqueue_def d1_def)
  obtain od where od: "destroy_objects (server_members objs s) (Some d1) = Some od" "set (attached_ids od) \<subseteq> set (di_object_ids d1)"
    "od \<noteq> None"
    using destroy_no_abort(2)[of "Some d1" "server_members objs s"] server_members_released d1 di(4) by auto
  then have "dispatcher_client_destroy ?i od = Some ()"
    using d1(1) di(4) by (intro client_destroyed) auto
  with od di(1) s ran show ?thesis
    by (auto simp: termination_handler_def destroy_server_def get_shared_dispatcher_def terminate_shared_dispatcher_def
        dispatcher_terminate_def Let_def)
qed

lemma daemon_run_exited: "exited d \<Longrightarrow> daemon_run objs sigs d = Some d"
  by (induction sigs) (simp_all add: on_unix_signal_def)

text \<open>The entries' part of the destruction: every object of every entry, and nothing else.\<close>

lemma clients_manager_destroy_objects:
  assumes "set peers = dom m"
  shows "set (clients_manager_destroy peers m) = {On_entry p (Destroy_io_client r) |p e r. m p = Some e \<and> r \<in> entry_objects e}"
proof -
  have "set (client_entry_destroy e) = Destroy_io_client ` entry_objects e" for e
    by (auto simp: client_entry_destroy_def drop_client_def entry_objects_def split: option.splits)
  then have "set (clients_manager_destroy peers m) =
      (\<Union>p\<in>dom m. On_entry p ` Destroy_io_client ` entry_objects (the (m p)))"
    using assms by (auto simp: clients_manager_destroy_def split: option.splits)
  then show ?thesis by (force simp: dom_def)
qed

text \<open>
  C32. The daemon shuts down cleanly: while its server is attached to the dispatcher, as it is after the start, whatever
  signals arrive, it never aborts, in the destructor of the server or of any object it owns (the stream server and its
  peers, the manager, the entries, the io service clients and their monitors), and it exits, with status 0 and once, exactly
  if SIGINT or SIGTERM is among them. By then the retry timer was stopped first, then the stream server, if there is one, was
  destroyed, then every io service client of every entry of the manager and nothing else; only then the run loop and after it
  the dispatcher were terminated. The other handled signals change nothing. If the run loop cannot be started at the
  launch, the process has exited with status 1 before it made a server, and signals do nothing.
\<close>

theorem daemon_shuts_down:
  assumes "daemon_running own objs s d" and "set (do_entries objs) = dom (ss_manager s)"
  shows "(\<exists>d'. daemon_run objs sigs d = Some d' \<and>
    (if SIGINT \<in> set sigs \<or> SIGTERM \<in> set sigs
     then dm_server d' = None \<and> \<not> dm_run_loop d' \<and> get_shared_dispatcher (dm_dispatcher d') = None \<and>
       (\<exists>fs. dm_trace d' = dm_trace d @ [In_server Retry_timer_stop] @ (if ss_server s then [In_server Server_destroy] else []) @
            map In_server fs @ [Run_loop_terminated, Dispatcher_terminated, Exit 0] \<and>
          set fs = {On_entry p (Destroy_io_client r) |p e r. ss_manager s p = Some e \<and> r \<in> entry_objects e})
     else d' = d)) \<and>
    (\<exists>d0. daemon_main make_rotating False own objs mkdir chmod = Some d0 \<and> dm_trace d0 = [Exit 1] \<and> dm_server d0 = None \<and>
       daemon_run objs sigs d0 = Some d0)"
proof
  show "\<exists>d0. daemon_main make_rotating False own objs mkdir chmod = Some d0 \<and> dm_trace d0 = [Exit 1] \<and> dm_server d0 = None \<and>
       daemon_run objs sigs d0 = Some d0"
    by (auto simp: daemon_main_def run_loop_thread_new_def daemon_new_def Let_def intro!: daemon_run_exited)
      (simp add: exited_def)
next
  have run: "\<not> exited d" "dm_sources d = [SIGINT, SIGTERM]" using assms(1) by (simp_all add: daemon_running_def)
  show "\<exists>d'. daemon_run objs sigs d = Some d' \<and>
    (if SIGINT \<in> set sigs \<or> SIGTERM \<in> set sigs
     then dm_server d' = None \<and> \<not> dm_run_loop d' \<and> get_shared_dispatcher (dm_dispatcher d') = None \<and>
       (\<exists>fs. dm_trace d' = dm_trace d @ [In_server Retry_timer_stop] @ (if ss_server s then [In_server Server_destroy] else []) @
            map In_server fs @ [Run_loop_terminated, Dispatcher_terminated, Exit 0] \<and>
          set fs = {On_entry p (Destroy_io_client r) |p e r. ss_manager s p = Some e \<and> r \<in> entry_objects e})
     else d' = d)"
  proof (induction sigs)
    case (Cons sig sigs)
    show ?case
    proof (cases "sig = SIGINT \<or> sig = SIGTERM")
      case True
      obtain d' where d': "termination_handler objs d = Some d'" "dm_server d' = None" "\<not> dm_run_loop d'"
        "get_shared_dispatcher (dm_dispatcher d') = None"
        "dm_trace d' = dm_trace d @ map In_server (service_server_destroy (do_entries objs) s) @ [Run_loop_terminated, Dispatcher_terminated, Exit 0]"
        using termination_handler_running[OF assms(1)] by blast
      then have "exited d'" by (auto simp: exited_def)
      with True d'(1) run have "daemon_run objs (sig # sigs) d = Some d'"
        by (auto simp: on_unix_signal_def daemon_run_exited)
      moreover have "\<exists>fs. dm_trace d' = dm_trace d @ [In_server Retry_timer_stop] @ (if ss_server s then [In_server Server_destroy] else []) @
            map In_server fs @ [Run_loop_terminated, Dispatcher_terminated, Exit 0] \<and>
          set fs = {On_entry p (Destroy_io_client r) |p e r. ss_manager s p = Some e \<and> r \<in> entry_objects e}"
        using d'(5) clients_manager_destroy_objects[OF assms(2)]
        by (intro exI[of _ "clients_manager_destroy (do_entries objs) (ss_manager s)"]) (simp add: service_server_destroy_def)
      ultimately show ?thesis using True d'(2-4) by auto
    next
      case False
      with run have "on_unix_signal objs sig d = Some d" by (simp add: on_unix_signal_def)
      moreover have "(SIGINT \<in> set (sig # sigs) \<or> SIGTERM \<in> set (sig # sigs)) = (SIGINT \<in> set sigs \<or> SIGTERM \<in> set sigs)"
        using False by auto
      ultimately show ?thesis using Cons by (simp only: daemon_run.simps Option.bind.bind_lunit)
    qed
  qed simp
qed

text \<open>A daemon with one connected peer, whose entry has a keyboard client.\<close>

definition daemon_demo_objects :: daemon_objects where
  "daemon_demo_objects = \<lparr>do_id = (\<lambda>x. case x of Part_server \<Rightarrow> 2 | Part_manager \<Rightarrow> 3 | Part_stream \<Rightarrow> 4 | Part_entry p \<Rightarrow> 6
       | Part_io_client p r \<Rightarrow> of_nat (10 + r) | Part_monitor p r \<Rightarrow> of_nat (20 + r)),
     do_entries = [1], do_monitored = (\<lambda>p r. True), do_peers = [(5, default_options, [Ev_start])]\<rparr>"

definition daemon_demo :: daemon where
  "daemon_demo = daemon_new\<lparr>dm_run_loop := True, dm_sources := [SIGINT, SIGTERM],
     dm_dispatcher := \<lparr>sd_time_source = True, sd_dispatcher = Some ((dispatcher_new 1)\<lparr>di_object_ids := [1, 2, 3, 4, 5, 6, 10, 11, 20, 21]\<rparr>)\<rparr>,
     dm_server := Some \<lparr>ss_server = True, ss_retry_timer = False, ss_manager = [1 \<mapsto> es_entry entry_demo]\<rparr>\<rparr>"

theorem daemon_shuts_down_witness:
  "\<exists>d' fs. daemon_run daemon_demo_objects [SIGUSR1, SIGTERM, SIGTERM] daemon_demo = Some d' \<and>
     dm_trace d' = [In_server Retry_timer_stop, In_server Server_destroy] @ map In_server fs @
       [Run_loop_terminated, Dispatcher_terminated, Exit 0] \<and>
     On_entry 1 (Destroy_io_client 1) \<in> set fs"
proof -
  let ?s = "\<lparr>ss_server = True, ss_retry_timer = False, ss_manager = [1 \<mapsto> es_entry entry_demo]\<rparr>"
  have running: "daemon_running 1 daemon_demo_objects ?s daemon_demo"
    by (simp add: daemon_running_def daemon_demo_def daemon_demo_objects_def daemon_new_def dispatcher_new_def dispatcher_attach_def exited_def)
  have entries: "set (do_entries daemon_demo_objects) = dom (ss_manager ?s)" by (simp add: daemon_demo_objects_def)
  have "1 \<in> entry_objects (es_entry entry_demo)" by (simp add: entry_eval entry_objects_def)
  moreover have "dm_trace daemon_demo = []" by (simp add: daemon_demo_def daemon_new_def)
  moreover obtain d' fs where "daemon_run daemon_demo_objects [SIGUSR1, SIGTERM, SIGTERM] daemon_demo = Some d'"
    "dm_trace d' = dm_trace daemon_demo @ [In_server Retry_timer_stop] @ (if ss_server ?s then [In_server Server_destroy] else []) @
      map In_server fs @ [Run_loop_terminated, Dispatcher_terminated, Exit 0]"
    "set fs = {On_entry p (Destroy_io_client r) |p e r. ss_manager ?s p = Some e \<and> r \<in> entry_objects e}"
    using daemon_shuts_down[OF running entries, of "[SIGUSR1, SIGTERM, SIGTERM]" "\<lambda>_ _ _ _ _. None" True True]
    by (auto simp del: daemon_run.simps)
  ultimately show ?thesis by (intro exI[of _ d'] exI[of _ fs]) simp
qed

end
