(* ===== verification/Example_Client.thy ===== *)
theory Example_Client
  imports Service_Client Complex_Main
begin

text \<open>
  The example application, \<^verbatim>\<open>examples/virtual-hid-device-service-client/src/main.cpp\<close>: two clients of the library, the slots of
  their signals, three threads that post reports once their device is ready, and the termination on control-c. The slots run on the
  dispatcher thread one statement at a time, without the mutex that the threads and the main thread take; the critical sections of
  the threads are one step each.
  Coordinates are computed in real arithmetic; \<open>to_u8\<close> is the conversion of a floating-point value to \<^verbatim>\<open>uint8_t\<close>, which the
  language defines only for values whose integral part is representable.
\<close>

section \<open>State\<close>

text \<open>\<open>Ex_null_call\<close> is a call through a pointer that is null, which is undefined.\<close>

datatype example_effect =
    Ex_call nat client_call
  | Ex_null_call nat client_call
  | Ex_print string bool
  | Ex_message string
  | Ex_destroy nat
  | Ex_join
  | Ex_terminate_dispatcher

text \<open>
  Where the main thread is: waiting for control-c, in \<^verbatim>\<open>client1 = nullptr\<close> behind the reset of the pointer (the destructor runs),
  behind it, the same for \<^verbatim>\<open>client2\<close>, in the joins, and at the end. It holds \<^verbatim>\<open>client_mutex\<close> in the three states in between.
\<close>

datatype main_phase = Waiting_for_exit | Destroying1 | Destroyed1 | Destroying2 | Joining | Ended

text \<open>The statements of the slots.\<close>

datatype ex_thread = Keyboard_thread1 | Keyboard_thread2 | Pointing_thread1

datatype ex_stmt =
    St_message string
  | St_flag string bool
  | St_call nat client_call
  | St_print_ready ex_thread string bool
  | St_create_thread ex_thread

text \<open>
  The pointers \<^verbatim>\<open>client1\<close> and \<^verbatim>\<open>client2\<close> are set or null. The dispatcher thread runs at most one slot: \<open>ex_slot\<close> has its client and the
  statements left. A thread is \<open>None\<close> before it is created; a keyboard thread is \<open>Some True\<close> when it has finished, and the
  pointing thread has the number of its next iteration.
\<close>

record example =
  ex_client1 :: bool
  ex_client2 :: bool
  ex_main :: main_phase
  ex_slot :: "(nat \<times> ex_stmt list) option"
  ex_keyboard_thread1 :: "bool option"
  ex_keyboard_thread2 :: "bool option"
  ex_pointing_thread1 :: "nat option"
  ex_previous_values :: "string \<Rightarrow> bool option"
  ex_exit_flag :: bool
  ex_trace :: "example_effect list"

definition ex_emit :: "example_effect list \<Rightarrow> example \<Rightarrow> example" where
  "ex_emit fs s = s\<lparr>ex_trace := ex_trace s @ fs\<rparr>"

text \<open>The dispatcher is initialized, the clients are made and started.\<close>

definition example_start :: example where
  "example_start = \<lparr>ex_client1 = True, ex_client2 = True, ex_main = Waiting_for_exit, ex_slot = None,
     ex_keyboard_thread1 = None, ex_keyboard_thread2 = None, ex_pointing_thread1 = None, ex_previous_values = Map.empty,
     ex_exit_flag = False, ex_trace = [Ex_call 1 Call_start, Ex_call 2 Call_start]\<rparr>"

text \<open>Whether the pointer of a client is set, and whether its object can still run slots: until its destructor has detached it.\<close>

definition client_set :: "nat \<Rightarrow> example \<Rightarrow> bool" where
  "client_set k s = (if k = 1 then ex_client1 s else ex_client2 s)"

definition client_attached :: "nat \<Rightarrow> example \<Rightarrow> bool" where
  "client_attached k s \<longleftrightarrow>
     (if k = 1 then ex_main s \<in> {Waiting_for_exit, Destroying1}
      else k = 2 \<and> ex_main s \<in> {Waiting_for_exit, Destroying1, Destroyed1, Destroying2})"

definition mutex_free :: "example \<Rightarrow> bool" where
  "mutex_free s \<longleftrightarrow> ex_main s \<notin> {Destroying1, Destroyed1, Destroying2}"

text \<open>No slot of a client is running.\<close>

definition slot_idle :: "nat \<Rightarrow> example \<Rightarrow> bool" where
  "slot_idle k s \<longleftrightarrow> (case ex_slot s of None \<Rightarrow> True | Some (j, body) \<Rightarrow> j \<noteq> k)"

section \<open>Slots\<close>

definition us_parameters :: virtual_hid_keyboard_parameters where
  "us_parameters = default_parameters\<lparr>country_code := 33\<rparr>"

definition on_connected1 :: "ex_stmt list" where
  "on_connected1 = [St_message ''connected'', St_call 1 (Call_keyboard_initialize us_parameters False),
     St_call 1 (Call_pointing_initialize False)]"

definition on_connected2 :: "ex_stmt list" where
  "on_connected2 = [St_call 2 (Call_keyboard_initialize us_parameters False)]"

text \<open>The slots that only print: warnings, failed connections, the closing and errors.\<close>

definition on_reported :: "string \<Rightarrow> ex_stmt list" where
  "on_reported what = [St_message what]"

text \<open>The three slots that print a flag when it changes have one form; \<open>name\<close> is the flag.\<close>

definition on_driver_flag :: "string \<Rightarrow> bool \<Rightarrow> ex_stmt list" where
  "on_driver_flag name value = [St_flag name value]"

definition on_keyboard_ready1 :: "bool \<Rightarrow> ex_stmt list" where
  "on_keyboard_ready1 ready =
     St_print_ready Keyboard_thread1 ''virtual_hid_keyboard_ready'' ready # (if ready then [St_create_thread Keyboard_thread1] else [])"

definition on_pointing_ready1 :: "bool \<Rightarrow> ex_stmt list" where
  "on_pointing_ready1 ready =
     St_print_ready Pointing_thread1 ''virtual_hid_pointing_ready'' ready # (if ready then [St_create_thread Pointing_thread1] else [])"

definition on_keyboard_ready2 :: "bool \<Rightarrow> ex_stmt list" where
  "on_keyboard_ready2 ready = (if ready then [St_create_thread Keyboard_thread2] else [])"

definition example_slots :: "(nat \<times> ex_stmt list) set" where
  "example_slots = {(1, on_connected1), (2, on_connected2)} \<union> (\<lambda>w. (1, on_reported w)) ` UNIV \<union>
     (\<lambda>(n, v). (1, on_driver_flag n v)) ` UNIV \<union> (\<lambda>r. (1, on_keyboard_ready1 r)) ` UNIV \<union>
     (\<lambda>r. (1, on_pointing_ready1 r)) ` UNIV \<union> (\<lambda>r. (2, on_keyboard_ready2 r)) ` UNIV"

text \<open>A statement of a slot. A call reads the pointer when it is made.\<close>

definition thread_made :: "ex_thread \<Rightarrow> example \<Rightarrow> bool" where
  "thread_made t s =
     (case t of Keyboard_thread1 \<Rightarrow> ex_keyboard_thread1 s \<noteq> None | Keyboard_thread2 \<Rightarrow> ex_keyboard_thread2 s \<noteq> None
      | Pointing_thread1 \<Rightarrow> ex_pointing_thread1 s \<noteq> None)"

definition create_thread :: "ex_thread \<Rightarrow> example \<Rightarrow> example" where
  "create_thread t s =
     (if thread_made t s then s
      else (case t of Keyboard_thread1 \<Rightarrow> s\<lparr>ex_keyboard_thread1 := Some False\<rparr> | Keyboard_thread2 \<Rightarrow> s\<lparr>ex_keyboard_thread2 := Some False\<rparr>
            | Pointing_thread1 \<Rightarrow> s\<lparr>ex_pointing_thread1 := Some 0\<rparr>))"

definition run_stmt :: "ex_stmt \<Rightarrow> example \<Rightarrow> example" where
  "run_stmt st s =
     (case st of
        St_message what \<Rightarrow> ex_emit [Ex_message what] s
      | St_flag name v \<Rightarrow>
          (if ex_previous_values s name \<noteq> Some v
           then (ex_emit [Ex_print name v] s)\<lparr>ex_previous_values := (ex_previous_values s)(name \<mapsto> v)\<rparr>
           else s)
      | St_call k c \<Rightarrow> ex_emit [if client_set k s then Ex_call k c else Ex_null_call k c] s
      | St_print_ready t name ready \<Rightarrow> if thread_made t s then s else ex_emit [Ex_print name ready] s
      | St_create_thread t \<Rightarrow> create_thread t s)"

section \<open>Threads\<close>

definition shift_e_report :: hid_report where
  "shift_e_report = Report_keyboard_input (keyboard_input_init\<lparr>
     ki_modifiers := modifiers_insert left_shift (ki_modifiers keyboard_input_init),
     ki_keys := keys_insert 0x08 (ki_keys keyboard_input_init)\<rparr>)"

definition dpad_down_report :: hid_report where
  "dpad_down_report = Report_generic_desktop_input (generic_desktop_input_init\<lparr>
     kx_keys := keys_insert 0x91 (kx_keys generic_desktop_input_init)\<rparr>)"

definition g_report :: hid_report where
  "g_report = Report_keyboard_input (keyboard_input_init\<lparr>ki_keys := keys_insert 0x0a (ki_keys keyboard_input_init)\<rparr>)"

definition circle_report :: "(real \<Rightarrow> u8) \<Rightarrow> nat \<Rightarrow> hid_report" where
  "circle_report to_u8 i = Report_pointing_input (pointing_input_init\<lparr>
     pi_x := to_u8 (cos (0.1 * real i) * 20), pi_y := to_u8 (sin (0.1 * real i) * 20)\<rparr>)"

definition run_keyboard_thread1 :: "example \<Rightarrow> example" where
  "run_keyboard_thread1 s =
     (let s1 = (if ex_client1 s then ex_emit [Ex_call 1 (Call_post_report shift_e_report), Ex_call 1 (Call_post_report dpad_down_report)] s else s)
      in s1\<lparr>ex_keyboard_thread1 := Some True\<rparr>)"

definition run_keyboard_thread2 :: "example \<Rightarrow> example" where
  "run_keyboard_thread2 s =
     (let s1 = (if ex_client2 s then ex_emit [Ex_call 2 (Call_post_report g_report)] s else s)
      in s1\<lparr>ex_keyboard_thread2 := Some True\<rparr>)"

text \<open>One iteration of the loop of the pointing thread.\<close>

definition pointing_iterations :: nat where "pointing_iterations = 400"

definition run_pointing_thread1 :: "(real \<Rightarrow> u8) \<Rightarrow> nat \<Rightarrow> example \<Rightarrow> example" where
  "run_pointing_thread1 to_u8 i s =
     (let s1 = (if ex_client1 s then ex_emit [Ex_call 1 (Call_post_report (circle_report to_u8 i))] s else s)
      in s1\<lparr>ex_pointing_thread1 := Some (i + 1)\<rparr>)"

section \<open>Termination\<close>

definition on_sigint :: "example \<Rightarrow> example" where
  "on_sigint s = s\<lparr>ex_exit_flag := True\<rparr>"

text \<open>
  The assignment of a null pointer to \<^verbatim>\<open>client1\<close> resets the pointer and then runs the destructor, which detaches the client. It
  waits for its closure on the dispatcher thread, so it returns when no slot of the client is running.
\<close>

definition reset_client1 :: "example \<Rightarrow> example" where
  "reset_client1 s = s\<lparr>ex_client1 := False, ex_main := Destroying1\<rparr>"

definition destroy_client1 :: "example \<Rightarrow> example" where
  "destroy_client1 s = ex_emit [Ex_destroy 1] (s\<lparr>ex_main := Destroyed1\<rparr>)"

definition reset_client2 :: "example \<Rightarrow> example" where
  "reset_client2 s = s\<lparr>ex_client2 := False, ex_main := Destroying2\<rparr>"

definition destroy_client2 :: "example \<Rightarrow> example" where
  "destroy_client2 s = ex_emit [Ex_destroy 2] (s\<lparr>ex_main := Joining\<rparr>)"

definition threads_finished :: "example \<Rightarrow> bool" where
  "threads_finished s \<longleftrightarrow> ex_keyboard_thread1 s \<noteq> Some False \<and> ex_keyboard_thread2 s \<noteq> Some False \<and>
     (case ex_pointing_thread1 s of None \<Rightarrow> True | Some i \<Rightarrow> pointing_iterations \<le> i)"

text \<open>The joins return when the threads have finished; then the dispatcher is terminated.\<close>

definition join_threads :: "example \<Rightarrow> example" where
  "join_threads s = ex_emit [Ex_join, Ex_terminate_dispatcher] (s\<lparr>ex_main := Ended\<rparr>)"

text \<open>The dispatcher thread with the slots, the three threads, the signal and the main thread interleave.\<close>

inductive ex_step :: "(real \<Rightarrow> u8) \<Rightarrow> example \<Rightarrow> example \<Rightarrow> bool" for to_u8 where
  ex_slot_start: "ex_slot s = None \<Longrightarrow> (k, body) \<in> example_slots \<Longrightarrow> client_attached k s \<Longrightarrow>
     ex_step to_u8 s (s\<lparr>ex_slot := Some (k, body)\<rparr>)"
| ex_slot_stmt: "ex_slot s = Some (k, st # rest) \<Longrightarrow> ex_step to_u8 s ((run_stmt st s)\<lparr>ex_slot := Some (k, rest)\<rparr>)"
| ex_slot_end: "ex_slot s = Some (k, []) \<Longrightarrow> ex_step to_u8 s (s\<lparr>ex_slot := None\<rparr>)"
| ex_keyboard1: "ex_keyboard_thread1 s = Some False \<Longrightarrow> mutex_free s \<Longrightarrow> ex_step to_u8 s (run_keyboard_thread1 s)"
| ex_keyboard2: "ex_keyboard_thread2 s = Some False \<Longrightarrow> mutex_free s \<Longrightarrow> ex_step to_u8 s (run_keyboard_thread2 s)"
| ex_pointing: "ex_pointing_thread1 s = Some i \<Longrightarrow> i < pointing_iterations \<Longrightarrow> mutex_free s \<Longrightarrow>
     ex_step to_u8 s (run_pointing_thread1 to_u8 i s)"
| ex_sigint: "ex_step to_u8 s (on_sigint s)"
| ex_reset1: "ex_exit_flag s \<Longrightarrow> ex_main s = Waiting_for_exit \<Longrightarrow> ex_step to_u8 s (reset_client1 s)"
| ex_destroy1: "ex_main s = Destroying1 \<Longrightarrow> slot_idle 1 s \<Longrightarrow> ex_step to_u8 s (destroy_client1 s)"
| ex_reset2: "ex_main s = Destroyed1 \<Longrightarrow> ex_step to_u8 s (reset_client2 s)"
| ex_destroy2: "ex_main s = Destroying2 \<Longrightarrow> slot_idle 2 s \<Longrightarrow> ex_step to_u8 s (destroy_client2 s)"
| ex_join: "ex_main s = Joining \<Longrightarrow> threads_finished s \<Longrightarrow> ex_step to_u8 s (join_threads s)"

section \<open>Properties\<close>

text \<open>
  A client along the effects: its pointer is held, reset, or the object destroyed. Calls through the set pointer come first;
  calls through the null pointer, all of them initializations, may only follow the reset and precede the destruction; \<open>None\<close> is a violation.
\<close>

datatype pointer_state = Held | Reset | Destroyed

definition initialization :: "client_call \<Rightarrow> bool" where
  "initialization c \<longleftrightarrow> (case c of Call_keyboard_initialize p force \<Rightarrow> True | Call_pointing_initialize force \<Rightarrow> True | _ \<Rightarrow> False)"

definition pointer_step :: "nat \<Rightarrow> example_effect \<Rightarrow> pointer_state \<Rightarrow> pointer_state option" where
  "pointer_step k f st =
     (case f of
        Ex_call j c \<Rightarrow> if j \<noteq> k then Some st else if st = Held then Some Held else None
      | Ex_null_call j c \<Rightarrow> if j \<noteq> k then Some st else if st \<noteq> Destroyed \<and> initialization c then Some Reset else None
      | Ex_destroy j \<Rightarrow> if j \<noteq> k then Some st else if st \<noteq> Destroyed then Some Destroyed else None
      | _ \<Rightarrow> Some st)"

primrec pointer_run :: "nat \<Rightarrow> example_effect list \<Rightarrow> pointer_state \<Rightarrow> pointer_state option" where
  "pointer_run k [] st = Some st"
| "pointer_run k (f # fs) st = Option.bind (pointer_step k f st) (pointer_run k fs)"

lemma pointer_run_append [simp]:
  "pointer_run k (xs @ ys) st = Option.bind (pointer_run k xs st) (pointer_run k ys)"
  by (induction xs arbitrary: st) (auto split: bind_split)

text \<open>The reports posted through a client, of the pointing device or of the keyboard.\<close>

primrec posted_reports :: "bool \<Rightarrow> nat \<Rightarrow> example_effect list \<Rightarrow> hid_report list" where
  "posted_reports pointing k [] = []"
| "posted_reports pointing k (f # fs) =
     (case f of Ex_call j (Call_post_report r) \<Rightarrow> if j = k \<and> (\<exists>p. r = Report_pointing_input p) = pointing then [r] else [] | _ \<Rightarrow> []) @
     posted_reports pointing k fs"

lemma posted_reports_append [simp]: "posted_reports b k (xs @ ys) = posted_reports b k xs @ posted_reports b k ys"
  by (induction xs) simp_all

text \<open>The pointing thread has posted a report in each iteration while its client lived.\<close>

definition pointing_progress :: "nat option \<Rightarrow> bool \<Rightarrow> nat \<Rightarrow> bool" where
  "pointing_progress thread alive n \<longleftrightarrow>
     (case thread of None \<Rightarrow> n = 0 | Some i \<Rightarrow> n \<le> i \<and> i \<le> pointing_iterations \<and> (alive \<longrightarrow> n = i))"

text \<open>The pointers follow the main thread.\<close>

definition pointers_ok :: "example \<Rightarrow> bool" where
  "pointers_ok s \<longleftrightarrow> (ex_client1 s \<longleftrightarrow> ex_main s = Waiting_for_exit) \<and>
     (ex_client2 s \<longleftrightarrow> ex_main s \<in> {Waiting_for_exit, Destroying1, Destroyed1})"

definition pointer_ok :: "nat \<Rightarrow> example \<Rightarrow> bool" where
  "pointer_ok k s \<longleftrightarrow> (\<exists>st. pointer_run k (ex_trace s) Held = Some st \<and> (client_set k s \<longrightarrow> st = Held) \<and>
     (st = Destroyed \<longleftrightarrow> \<not> client_attached k s))"

definition slot_ok :: "example \<Rightarrow> bool" where
  "slot_ok s \<longleftrightarrow> (case ex_slot s of None \<Rightarrow> True
     | Some (k, body) \<Rightarrow> client_attached k s \<and> (\<forall>j c. St_call j c \<in> set body \<longrightarrow> j = k \<and> initialization c))"

definition reports_ok :: "(real \<Rightarrow> u8) \<Rightarrow> example \<Rightarrow> bool" where
  "reports_ok to_u8 s \<longleftrightarrow>
     posted_reports False 1 (ex_trace s) \<in> (if ex_keyboard_thread1 s = Some True then {[], [shift_e_report, dpad_down_report]} else {[]}) \<and>
     posted_reports False 2 (ex_trace s) \<in> (if ex_keyboard_thread2 s = Some True then {[], [g_report]} else {[]}) \<and>
     posted_reports True 2 (ex_trace s) = [] \<and>
     (\<exists>n. posted_reports True 1 (ex_trace s) = map (circle_report to_u8) [0..<n] \<and>
       pointing_progress (ex_pointing_thread1 s) (ex_client1 s) n)"

definition end_ok :: "example \<Rightarrow> bool" where
  "end_ok s \<longleftrightarrow> (if ex_main s = Ended then threads_finished s \<and> last (ex_trace s) = Ex_terminate_dispatcher
     else Ex_terminate_dispatcher \<notin> set (ex_trace s))"

definition example_inv :: "(real \<Rightarrow> u8) \<Rightarrow> example \<Rightarrow> bool" where
  "example_inv to_u8 s \<longleftrightarrow> pointers_ok s \<and> pointer_ok 1 s \<and> pointer_ok 2 s \<and> slot_ok s \<and> reports_ok to_u8 s \<and> end_ok s"

lemma report_kinds [simp]:
  "posted_reports b k [Ex_call j (Call_post_report shift_e_report)] = (if j = k \<and> \<not> b then [shift_e_report] else [])"
  "posted_reports b k [Ex_call j (Call_post_report dpad_down_report)] = (if j = k \<and> \<not> b then [dpad_down_report] else [])"
  "posted_reports b k [Ex_call j (Call_post_report g_report)] = (if j = k \<and> \<not> b then [g_report] else [])"
  "posted_reports b k [Ex_call j (Call_post_report (circle_report to_u8 i))] = (if j = k \<and> b then [circle_report to_u8 i] else [])"
  by (simp_all add: shift_e_report_def dpad_down_report_def g_report_def circle_report_def)

lemma posted_reports_Cons: "posted_reports b k (e # e' # es) = posted_reports b k [e] @ posted_reports b k (e' # es)"
  by simp

lemmas example_ops = run_keyboard_thread1_def run_keyboard_thread2_def run_pointing_thread1_def on_sigint_def reset_client1_def
  destroy_client1_def reset_client2_def destroy_client2_def join_threads_def ex_emit_def Let_def

lemmas pointer_defs = pointers_ok_def pointer_ok_def client_set_def client_attached_def

lemma slots_wf:
  assumes "(k, body) \<in> example_slots" "St_call j c \<in> set body"
  shows "j = k \<and> initialization c"
  using assms
  by (auto simp: example_slots_def on_connected1_def on_connected2_def on_reported_def on_driver_flag_def on_keyboard_ready1_def
      on_pointing_ready1_def on_keyboard_ready2_def initialization_def split: if_splits)

text \<open>Steps that only add effects.\<close>

definition extends :: "example_effect list \<Rightarrow> example \<Rightarrow> example \<Rightarrow> bool" where
  "extends fs s t \<longleftrightarrow> ex_trace t = ex_trace s @ fs \<and> ex_main t = ex_main s \<and> ex_client1 t = ex_client1 s \<and> ex_client2 t = ex_client2 s"

lemma extends_client: "extends fs s t \<Longrightarrow> client_set j t = client_set j s \<and> client_attached j t = client_attached j s"
  by (simp add: extends_def client_set_def client_attached_def)

lemma pointer_ok_main:
  assumes "pointer_ok j s" "ex_trace t = ex_trace s @ fs"
    and "\<And>p. client_set j s \<longrightarrow> p = Held \<Longrightarrow> p = Destroyed \<longleftrightarrow> \<not> client_attached j s \<Longrightarrow>
      \<exists>q. pointer_run j fs p = Some q \<and> (client_set j t \<longrightarrow> q = Held) \<and> (q = Destroyed \<longleftrightarrow> \<not> client_attached j t)"
  shows "pointer_ok j t"
proof -
  obtain p where p: "pointer_run j (ex_trace s) Held = Some p" "client_set j s \<longrightarrow> p = Held" "p = Destroyed \<longleftrightarrow> \<not> client_attached j s"
    using assms(1) unfolding pointer_ok_def by blast
  with assms(3)[OF p(2,3)] show ?thesis unfolding pointer_ok_def assms(2) by auto
qed

lemma pointer_ok_extends:
  assumes "pointer_ok j s" "extends fs s t"
    and "\<And>p. client_set j s \<longrightarrow> p = Held \<Longrightarrow> p = Destroyed \<longleftrightarrow> \<not> client_attached j s \<Longrightarrow>
      \<exists>q. pointer_run j fs p = Some q \<and> (client_set j s \<longrightarrow> q = Held) \<and> (q = Destroyed \<longleftrightarrow> \<not> client_attached j s)"
  shows "pointer_ok j t"
proof (rule pointer_ok_main[OF assms(1)])
  show "ex_trace t = ex_trace s @ fs" using assms(2) by (simp add: extends_def)
qed (use assms(3) extends_client[OF assms(2), of j] in simp)

lemma slot_frame [simp]:
  "pointers_ok (s\<lparr>ex_slot := x\<rparr>) = pointers_ok s" "pointer_ok j (s\<lparr>ex_slot := x\<rparr>) = pointer_ok j s"
  "reports_ok to_u8 (s\<lparr>ex_slot := x\<rparr>) = reports_ok to_u8 s" "end_ok (s\<lparr>ex_slot := x\<rparr>) = end_ok s"
  "client_attached k (s\<lparr>ex_slot := x\<rparr>) = client_attached k s"
  by (simp_all add: pointer_defs reports_ok_def end_ok_def threads_finished_def)

text \<open>The statements of a slot.\<close>

lemma stmt_kept:
  "ex_main (run_stmt st s) = ex_main s" "ex_client1 (run_stmt st s) = ex_client1 s" "ex_client2 (run_stmt st s) = ex_client2 s"
  by (simp_all add: run_stmt_def create_thread_def ex_emit_def split: ex_stmt.split ex_thread.split)

lemma stmt_slot: "ex_slot (run_stmt st s) = ex_slot s"
  by (simp add: run_stmt_def create_thread_def ex_emit_def split: ex_stmt.split ex_thread.split)

text \<open>A statement adds at most one effect, which is a line of output or a call of an initialization.\<close>

definition stmt_effect :: "ex_stmt \<Rightarrow> example \<Rightarrow> example_effect \<Rightarrow> bool" where
  "stmt_effect st s f \<longleftrightarrow> (\<exists>m. f = Ex_message m) \<or> (\<exists>n v. f = Ex_print n v) \<or>
     (\<exists>k c. st = St_call k c \<and> client_set k s \<and> f = Ex_call k c) \<or> (\<exists>k c. st = St_call k c \<and> \<not> client_set k s \<and> f = Ex_null_call k c)"

lemma stmt_extends: "\<exists>fs. extends fs s (run_stmt st s) \<and> (fs = [] \<or> (\<exists>f. fs = [f] \<and> stmt_effect st s f))"
  by (cases st) (auto simp: extends_def run_stmt_def create_thread_def ex_emit_def stmt_effect_def split: ex_thread.split)

lemma stmt_pointer:
  assumes "pointer_ok j s" "client_attached k s" "\<And>i c. st = St_call i c \<Longrightarrow> i = k \<and> initialization c"
  shows "pointer_ok j (run_stmt st s)"
proof -
  obtain fs where fs: "extends fs s (run_stmt st s)" "fs = [] \<or> (\<exists>f. fs = [f] \<and> stmt_effect st s f)"
    using stmt_extends by blast
  show ?thesis
  proof (rule pointer_ok_extends[OF assms(1) fs(1)])
    fix p assume p: "client_set j s \<longrightarrow> p = Held" "p = Destroyed \<longleftrightarrow> \<not> client_attached j s"
    show "\<exists>q. pointer_run j fs p = Some q \<and> (client_set j s \<longrightarrow> q = Held) \<and> (q = Destroyed \<longleftrightarrow> \<not> client_attached j s)"
    proof (cases "\<exists>c. st = St_call j c")
      case True
      with assms(2,3) p fs(2) show ?thesis by (cases "client_set j s") (auto simp: stmt_effect_def pointer_step_def)
    next
      case False
      with p fs(2) have "pointer_run j fs p = Some p" by (auto simp: stmt_effect_def pointer_step_def split: if_split)
      with p show ?thesis by simp
    qed
  qed
qed

lemma stmt_reports:
  assumes "reports_ok to_u8 s" "\<And>k c. st = St_call k c \<Longrightarrow> initialization c"
  shows "reports_ok to_u8 (run_stmt st s)"
proof -
  have none: "posted_reports b j [f] = []" if "stmt_effect st s f" for b j f
    using that assms(2) by (auto simp: stmt_effect_def initialization_def split: client_call.splits if_splits)
  obtain fs where fs: "extends fs s (run_stmt st s)" "fs = [] \<or> (\<exists>f. fs = [f] \<and> stmt_effect st s f)"
    using stmt_extends by blast
  have same: "posted_reports b j (ex_trace (run_stmt st s)) = posted_reports b j (ex_trace s)" for b j
    using fs none by (auto simp: extends_def simp del: posted_reports.simps(2))
  have threads: "ex_keyboard_thread1 (run_stmt st s) = Some True \<longleftrightarrow> ex_keyboard_thread1 s = Some True"
    "ex_keyboard_thread2 (run_stmt st s) = Some True \<longleftrightarrow> ex_keyboard_thread2 s = Some True"
    "ex_pointing_thread1 (run_stmt st s) = ex_pointing_thread1 s \<or> ex_pointing_thread1 s = None \<and> ex_pointing_thread1 (run_stmt st s) = Some 0"
    by (auto simp: run_stmt_def create_thread_def thread_made_def ex_emit_def split: ex_stmt.split ex_thread.split)
  show ?thesis
    using assms(1) threads(3) unfolding reports_ok_def same threads(1,2) stmt_kept by (auto simp: pointing_progress_def)
qed

lemma stmt_inv:
  assumes inv: "example_inv to_u8 s" and slot: "ex_slot s = Some (k, st # rest)"
  shows "example_inv to_u8 ((run_stmt st s)\<lparr>ex_slot := Some (k, rest)\<rparr>)" (is "example_inv to_u8 ?t")
proof -
  have att: "client_attached k s" and wf: "\<And>j c. St_call j c \<in> set (st # rest) \<Longrightarrow> j = k \<and> initialization c"
    using inv slot by (auto simp: example_inv_def slot_ok_def)
  have main: "ex_main s \<noteq> Ended" using att by (auto simp: client_attached_def split: if_splits)
  obtain fs where fs: "extends fs s (run_stmt st s)" "fs = [] \<or> (\<exists>f. fs = [f] \<and> stmt_effect st s f)"
    using stmt_extends by blast
  have wf_st: "i = k \<and> initialization c" if "st = St_call i c" for i c using wf[of i c] that by simp
  have "pointer_ok j (run_stmt st s)" if "pointer_ok j s" for j by (rule stmt_pointer[OF that att wf_st])
  moreover have "slot_ok ?t" using att wf extends_client[OF fs(1), of k] by (auto simp: slot_ok_def)
  moreover have "reports_ok to_u8 (run_stmt st s)"
    by (rule stmt_reports) (use inv wf_st in \<open>auto simp: example_inv_def\<close>)
  moreover have "end_ok (run_stmt st s)"
    using inv main fs by (auto simp: example_inv_def end_ok_def stmt_effect_def extends_def split: if_splits)
  moreover have "pointers_ok (run_stmt st s)" using inv fs(1) by (simp add: example_inv_def pointers_ok_def extends_def)
  ultimately show ?thesis using inv by (simp add: example_inv_def)
qed

text \<open>The threads post through a set pointer only, and only while the main thread does not hold the mutex.\<close>

lemma thread_inv:
  assumes inv: "example_inv to_u8 s"
    and t: "extends (if client_set k s then map (Ex_call k) cs else []) s t" "ex_slot t = ex_slot s"
    and not_ended: "ex_main s \<noteq> Ended" and reports: "reports_ok to_u8 t"
  shows "example_inv to_u8 t"
proof -
  have held: "pointer_run j (map (Ex_call k) cs) p = Some p" if "j = k \<longrightarrow> p = Held" for j p
    using that by (induction cs) (auto simp: pointer_step_def)
  have "pointer_ok j t" if "pointer_ok j s" for j
    by (rule pointer_ok_extends[OF that t(1)]) (use held in auto)
  moreover have "slot_ok t"
    using inv t(2) extends_client[OF t(1)] by (cases "ex_slot s") (auto simp: example_inv_def slot_ok_def)
  moreover have "end_ok t" "pointers_ok t"
    using inv not_ended t(1) by (auto simp: example_inv_def end_ok_def pointers_ok_def extends_def split: if_splits)
  ultimately show ?thesis using inv reports by (simp add: example_inv_def)
qed

text \<open>The steps of the main thread leave the threads alone and post nothing.\<close>

lemma reports_main:
  assumes "reports_ok to_u8 s" "ex_trace t = ex_trace s @ fs" "\<And>b k. posted_reports b k fs = []"
    "ex_keyboard_thread1 t = ex_keyboard_thread1 s" "ex_keyboard_thread2 t = ex_keyboard_thread2 s"
    "ex_pointing_thread1 t = ex_pointing_thread1 s" "ex_client1 t \<longrightarrow> ex_client1 s"
  shows "reports_ok to_u8 t"
proof -
  have "pointing_progress (ex_pointing_thread1 t) (ex_client1 t) n" if "pointing_progress (ex_pointing_thread1 s) (ex_client1 s) n" for n
    using that assms(6,7) by (cases "ex_pointing_thread1 s") (auto simp: pointing_progress_def)
  then show ?thesis using assms(1) unfolding reports_ok_def assms(2,4,5) posted_reports_append assms(3) append_Nil2 by blast
qed

lemma slot_ok_main:
  assumes "slot_ok s" "ex_slot t = ex_slot s" "\<And>k. client_attached k s \<Longrightarrow> \<not> slot_idle k s \<Longrightarrow> client_attached k t"
  shows "slot_ok t"
  using assms by (cases "ex_slot s") (auto simp: slot_ok_def slot_idle_def)

lemma example_inv_step: "ex_step to_u8 s t \<Longrightarrow> example_inv to_u8 s \<Longrightarrow> example_inv to_u8 t"
proof (induction rule: ex_step.induct)
  case (ex_slot_start s k body)
  then have "slot_ok (s\<lparr>ex_slot := Some (k, body)\<rparr>)" using slots_wf by (auto simp: slot_ok_def)
  with ex_slot_start show ?case by (simp add: example_inv_def)
next
  case (ex_slot_stmt s k st rest)
  then show ?case by (intro stmt_inv)
next
  case (ex_slot_end s k)
  then show ?case by (simp add: example_inv_def slot_ok_def)
next
  case (ex_keyboard1 s)
  have "reports_ok to_u8 (run_keyboard_thread1 s)"
    using ex_keyboard1 by (auto simp: example_inv_def reports_ok_def example_ops posted_reports_Cons simp del: posted_reports.simps(2))
  moreover have "ex_main s \<noteq> Ended" using ex_keyboard1 by (auto simp: example_inv_def end_ok_def threads_finished_def)
  ultimately show ?case
    by - (rule thread_inv[where s = s and k = 1 and cs = "[Call_post_report shift_e_report, Call_post_report dpad_down_report]"],
        use ex_keyboard1 in \<open>auto simp: extends_def example_ops client_set_def\<close>)
next
  case (ex_keyboard2 s)
  have "reports_ok to_u8 (run_keyboard_thread2 s)"
    using ex_keyboard2 by (auto simp: example_inv_def reports_ok_def example_ops simp del: posted_reports.simps(2))
  moreover have "ex_main s \<noteq> Ended" using ex_keyboard2 by (auto simp: example_inv_def end_ok_def threads_finished_def)
  ultimately show ?case
    by - (rule thread_inv[where s = s and k = 2 and cs = "[Call_post_report g_report]"],
        use ex_keyboard2 in \<open>auto simp: extends_def example_ops client_set_def\<close>)
next
  case (ex_pointing s i)
  have "reports_ok to_u8 (run_pointing_thread1 to_u8 i s)"
    using ex_pointing
    by (auto simp: example_inv_def reports_ok_def example_ops pointing_progress_def simp del: posted_reports.simps(2) split: option.splits)
  moreover have "ex_main s \<noteq> Ended" using ex_pointing by (auto simp: example_inv_def end_ok_def threads_finished_def)
  ultimately show ?case
    by - (rule thread_inv[where s = s and k = 1 and cs = "[Call_post_report (circle_report to_u8 i)]"],
        use ex_pointing in \<open>auto simp: extends_def example_ops client_set_def\<close>)
next
  case (ex_sigint s)
  have "pointer_ok j (on_sigint s)" if "pointer_ok j s" for j
    by (rule pointer_ok_main[OF that, where fs = "[]"]) (auto simp: example_ops client_set_def client_attached_def)
  moreover have "reports_ok to_u8 (on_sigint s)"
    by (rule reports_main[where s = s and fs = "[]"]) (use ex_sigint in \<open>auto simp: example_ops example_inv_def\<close>)
  moreover have "slot_ok (on_sigint s)"
    by (rule slot_ok_main[of s]) (use ex_sigint in \<open>auto simp: example_ops example_inv_def client_attached_def split: if_splits\<close>)
  moreover have "end_ok (on_sigint s)" "pointers_ok (on_sigint s)"
    using ex_sigint by (auto simp: example_inv_def end_ok_def pointers_ok_def threads_finished_def example_ops split: if_splits)
  ultimately show ?case using ex_sigint by (simp add: example_inv_def)
next
  case (ex_reset1 s)
  then have "pointer_ok j (reset_client1 s)" if "pointer_ok j s" for j
    by (intro pointer_ok_main[OF that, where fs = "[]"]) (auto simp: example_ops client_set_def client_attached_def)
  moreover have "reports_ok to_u8 (reset_client1 s)"
    by (rule reports_main[where s = s and fs = "[]"]) (use ex_reset1 in \<open>auto simp: example_ops example_inv_def\<close>)
  moreover have "slot_ok (reset_client1 s)"
    by (rule slot_ok_main[of s]) (use ex_reset1 in \<open>auto simp: example_ops example_inv_def client_attached_def split: if_splits\<close>)
  moreover have "end_ok (reset_client1 s)" "pointers_ok (reset_client1 s)"
    using ex_reset1 by (simp_all add: example_inv_def end_ok_def pointers_ok_def threads_finished_def example_ops)
  ultimately show ?case using ex_reset1 by (simp add: example_inv_def)
next
  case (ex_destroy1 s)
  then have "pointer_ok j (destroy_client1 s)" if "pointer_ok j s" for j
    by (intro pointer_ok_main[OF that, where fs = "[Ex_destroy 1]"])
      (auto simp: example_ops client_set_def client_attached_def pointer_step_def example_inv_def pointers_ok_def)
  moreover have "reports_ok to_u8 (destroy_client1 s)"
    by (rule reports_main[where s = s and fs = "[Ex_destroy 1]"]) (use ex_destroy1 in \<open>auto simp: example_ops example_inv_def\<close>)
  moreover have "slot_ok (destroy_client1 s)"
    by (rule slot_ok_main[of s]) (use ex_destroy1 in \<open>auto simp: example_ops example_inv_def client_attached_def split: if_splits\<close>)
  moreover have "end_ok (destroy_client1 s)" "pointers_ok (destroy_client1 s)"
    using ex_destroy1 by (simp_all add: example_inv_def end_ok_def pointers_ok_def threads_finished_def example_ops)
  ultimately show ?case using ex_destroy1 by (simp add: example_inv_def)
next
  case (ex_reset2 s)
  then have "pointer_ok j (reset_client2 s)" if "pointer_ok j s" for j
    by (intro pointer_ok_main[OF that, where fs = "[]"]) (auto simp: example_ops client_set_def client_attached_def)
  moreover have "reports_ok to_u8 (reset_client2 s)"
    by (rule reports_main[where s = s and fs = "[]"]) (use ex_reset2 in \<open>auto simp: example_ops example_inv_def\<close>)
  moreover have "slot_ok (reset_client2 s)"
    by (rule slot_ok_main[of s]) (use ex_reset2 in \<open>auto simp: example_ops example_inv_def client_attached_def split: if_splits\<close>)
  moreover have "end_ok (reset_client2 s)" "pointers_ok (reset_client2 s)"
    using ex_reset2 by (simp_all add: example_inv_def end_ok_def pointers_ok_def threads_finished_def example_ops)
  ultimately show ?case using ex_reset2 by (simp add: example_inv_def)
next
  case (ex_destroy2 s)
  then have "pointer_ok j (destroy_client2 s)" if "pointer_ok j s" "j \<in> {1, 2}" for j
    by (intro pointer_ok_main[OF that(1), where fs = "[Ex_destroy 2]"])
      (use that(2) in \<open>auto simp: example_ops client_set_def client_attached_def pointer_step_def example_inv_def pointers_ok_def\<close>)
  moreover have "reports_ok to_u8 (destroy_client2 s)"
    by (rule reports_main[where s = s and fs = "[Ex_destroy 2]"]) (use ex_destroy2 in \<open>auto simp: example_ops example_inv_def\<close>)
  moreover have "slot_ok (destroy_client2 s)"
    by (rule slot_ok_main[of s]) (use ex_destroy2 in \<open>auto simp: example_ops example_inv_def client_attached_def split: if_splits\<close>)
  moreover have "end_ok (destroy_client2 s)" "pointers_ok (destroy_client2 s)"
    using ex_destroy2 by (simp_all add: example_inv_def end_ok_def pointers_ok_def threads_finished_def example_ops)
  ultimately show ?case using ex_destroy2 by (simp add: example_inv_def)
next
  case (ex_join s)
  then have "pointer_ok j (join_threads s)" if "pointer_ok j s" for j
    by (intro pointer_ok_main[OF that, where fs = "[Ex_join, Ex_terminate_dispatcher]"])
      (auto simp: example_ops client_set_def client_attached_def pointer_step_def)
  moreover have "reports_ok to_u8 (join_threads s)"
    by (rule reports_main[where s = s and fs = "[Ex_join, Ex_terminate_dispatcher]"])
      (use ex_join in \<open>auto simp: example_ops example_inv_def\<close>)
  moreover have "slot_ok (join_threads s)"
    by (rule slot_ok_main[of s]) (use ex_join in \<open>auto simp: example_ops example_inv_def client_attached_def split: if_splits\<close>)
  moreover have "end_ok (join_threads s)" "pointers_ok (join_threads s)"
    using ex_join by (simp_all add: example_inv_def end_ok_def pointers_ok_def threads_finished_def example_ops)
  ultimately show ?case using ex_join by (simp add: example_inv_def)
qed

lemma example_inv_start: "s = example_start \<Longrightarrow> example_inv to_u8 s"
  by (simp add: example_start_def example_inv_def pointer_defs slot_ok_def reports_ok_def end_ok_def pointing_progress_def pointer_step_def)

interpretation example_runs: step_invariant "ex_step to_u8" "\<lambda>s. s = example_start" "example_inv to_u8" for to_u8
  by unfold_locales (fact example_inv_start example_inv_step)+

text \<open>
  The race between a slot and the termination: the slot of the connected signal has started when control-c is noticed, the main
  thread resets \<^verbatim>\<open>client1\<close>, and the slot goes on through the pointer.
\<close>

definition race_slot :: example where
  "race_slot = example_start\<lparr>ex_slot := Some (1, on_connected1)\<rparr>"

definition race_printed :: example where
  "race_printed = (run_stmt (hd on_connected1) race_slot)\<lparr>ex_slot := Some (1, tl on_connected1)\<rparr>"

definition race_reset :: example where
  "race_reset = reset_client1 (on_sigint race_printed)"

definition race_null_call :: example where
  "race_null_call = (run_stmt (on_connected1 ! 1) race_reset)\<lparr>ex_slot := Some (1, drop 2 on_connected1)\<rparr>"

lemmas race_defs = race_slot_def race_printed_def race_reset_def race_null_call_def on_connected1_def example_start_def run_stmt_def
  example_ops client_set_def

lemma race_reachable: "rtranclp (ex_step to_u8) example_start race_null_call"
proof -
  have "ex_step to_u8 example_start race_slot"
    unfolding race_slot_def by (rule ex_slot_start) (simp_all add: example_start_def example_slots_def client_attached_def)
  moreover have "ex_step to_u8 race_slot race_printed"
    unfolding race_printed_def by (rule ex_slot_stmt) (simp add: race_slot_def on_connected1_def)
  moreover have "ex_step to_u8 race_printed (on_sigint race_printed)" by (rule ex_sigint)
  moreover have "ex_step to_u8 (on_sigint race_printed) race_reset"
    unfolding race_reset_def by (rule ex_reset1) (simp_all add: race_defs)
  moreover have "ex_step to_u8 race_reset race_null_call"
    unfolding race_null_call_def by (rule ex_slot_stmt) (simp add: race_defs)
  ultimately show ?thesis by (meson converse_rtranclp_into_rtranclp rtranclp.rtrancl_refl)
qed

lemma race_calls_null: "Ex_null_call 1 (Call_keyboard_initialize us_parameters False) \<in> set (ex_trace race_null_call)"
  by (simp add: race_defs)

text \<open>
  C33. How the example uses its clients, however its slots, threads, the signal and the main thread interleave. No client is called
  and no slot of it goes on after its destruction. The threads post through a set pointer only: each keyboard thread its reports at
  most once, the pointing thread those of its at most 400 iterations in order, all of them while the client is set. The dispatcher is
  terminated as the last thing, when both clients are destroyed and all threads have ended. The slots of the connected signals
  take no mutex: the only calls through a null pointer are their initializations, between the reset of the pointer and the
  destruction of the object, and there is a run that makes one.
\<close>

theorem example_client_usage:
  assumes "rtranclp (ex_step to_u8) example_start s"
  shows "pointer_ok 1 s \<and> pointer_ok 2 s \<and>
    (\<forall>k body. ex_slot s = Some (k, body) \<longrightarrow> client_attached k s) \<and>
    posted_reports False 1 (ex_trace s) \<in> {[], [shift_e_report, dpad_down_report]} \<and>
    posted_reports False 2 (ex_trace s) \<in> {[], [g_report]} \<and> posted_reports True 2 (ex_trace s) = [] \<and>
    (\<exists>n\<le>400. posted_reports True 1 (ex_trace s) = map (circle_report to_u8) [0..<n] \<and>
       (ex_client1 s \<longrightarrow> n = (case ex_pointing_thread1 s of None \<Rightarrow> 0 | Some i \<Rightarrow> i))) \<and>
    (Ex_terminate_dispatcher \<in> set (ex_trace s) \<longrightarrow>
       ex_main s = Ended \<and> threads_finished s \<and> last (ex_trace s) = Ex_terminate_dispatcher \<and>
       \<not> client_attached 1 s \<and> \<not> client_attached 2 s) \<and>
    (\<exists>t. rtranclp (ex_step to_u8) example_start t \<and>
       Ex_null_call 1 (Call_keyboard_initialize us_parameters False) \<in> set (ex_trace t))"
proof -
  have inv: "example_inv to_u8 s" using example_runs.reachable[OF refl assms] .
  then obtain n where n: "posted_reports True 1 (ex_trace s) = map (circle_report to_u8) [0..<n]"
    "pointing_progress (ex_pointing_thread1 s) (ex_client1 s) n" by (auto simp: example_inv_def reports_ok_def)
  from n(2) have "n \<le> 400" "ex_client1 s \<longrightarrow> n = (case ex_pointing_thread1 s of None \<Rightarrow> 0 | Some i \<Rightarrow> i)"
    by (cases "ex_pointing_thread1 s"; auto simp: pointing_progress_def pointing_iterations_def)+
  with n(1) have pointing: "\<exists>n\<le>400. posted_reports True 1 (ex_trace s) = map (circle_report to_u8) [0..<n] \<and>
       (ex_client1 s \<longrightarrow> n = (case ex_pointing_thread1 s of None \<Rightarrow> 0 | Some i \<Rightarrow> i))" by blast
  have slot: "\<forall>k body. ex_slot s = Some (k, body) \<longrightarrow> client_attached k s"
    using inv by (auto simp: example_inv_def slot_ok_def)
  have keyboards: "posted_reports False 1 (ex_trace s) \<in> {[], [shift_e_report, dpad_down_report]}"
    "posted_reports False 2 (ex_trace s) \<in> {[], [g_report]}" "posted_reports True 2 (ex_trace s) = []"
    using inv by (simp_all add: example_inv_def reports_ok_def split: if_splits)
  have ended: "Ex_terminate_dispatcher \<in> set (ex_trace s) \<longrightarrow> ex_main s = Ended \<and> threads_finished s \<and>
      last (ex_trace s) = Ex_terminate_dispatcher \<and> \<not> client_attached 1 s \<and> \<not> client_attached 2 s"
    using inv by (simp add: example_inv_def end_ok_def client_attached_def split: if_splits)
  show ?thesis
    using inv slot keyboards pointing ended race_reachable race_calls_null unfolding example_inv_def by blast
qed

text \<open>The slot of the ready signal creates the keyboard thread, which posts its two reports.\<close>

definition ready_posted :: example where
  "ready_posted =
     (let a = example_start\<lparr>ex_slot := Some (1, on_keyboard_ready1 True)\<rparr>;
          b = (run_stmt (on_keyboard_ready1 True ! 0) a)\<lparr>ex_slot := Some (1, drop 1 (on_keyboard_ready1 True))\<rparr>;
          c = (run_stmt (on_keyboard_ready1 True ! 1) b)\<lparr>ex_slot := Some (1, [])\<rparr>
      in run_keyboard_thread1 c)"

theorem example_client_usage_witness:
  "rtranclp (ex_step (\<lambda>_. 0)) example_start ready_posted \<and> pointer_ok 1 ready_posted \<and> ex_client1 ready_posted \<and>
    posted_reports False 1 (ex_trace ready_posted) = [shift_e_report, dpad_down_report]"
proof -
  let ?a = "example_start\<lparr>ex_slot := Some (1, on_keyboard_ready1 True)\<rparr>"
  let ?b = "(run_stmt (on_keyboard_ready1 True ! 0) ?a)\<lparr>ex_slot := Some (1, drop 1 (on_keyboard_ready1 True))\<rparr>"
  let ?c = "(run_stmt (on_keyboard_ready1 True ! 1) ?b)\<lparr>ex_slot := Some (1, [])\<rparr>"
  note run_defs = on_keyboard_ready1_def run_stmt_def create_thread_def thread_made_def example_start_def ex_emit_def
  have "ex_step (\<lambda>_. 0) example_start ?a"
    by (rule ex_slot_start) (simp_all add: example_start_def example_slots_def client_attached_def)
  moreover have "ex_step (\<lambda>_. 0) ?a ?b" by (rule ex_slot_stmt) (simp add: on_keyboard_ready1_def)
  moreover have "ex_step (\<lambda>_. 0) ?b ?c" by (rule ex_slot_stmt) (simp add: on_keyboard_ready1_def)
  moreover have "ex_step (\<lambda>_. 0) ?c ready_posted"
    unfolding ready_posted_def Let_def by (rule ex_keyboard1) (simp_all add: run_defs mutex_free_def)
  ultimately have r: "rtranclp (ex_step (\<lambda>_. 0)) example_start ready_posted"
    by (meson converse_rtranclp_into_rtranclp rtranclp.rtrancl_refl)
  have "ex_client1 ready_posted" "ex_trace ready_posted = [Ex_call 1 Call_start, Ex_call 2 Call_start,
     Ex_print ''virtual_hid_keyboard_ready'' True, Ex_call 1 (Call_post_report shift_e_report), Ex_call 1 (Call_post_report dpad_down_report)]"
    by (simp_all add: ready_posted_def run_defs run_keyboard_thread1_def)
  moreover from this(2) have "posted_reports False 1 (ex_trace ready_posted) = [shift_e_report, dpad_down_report]"
    by (simp add: shift_e_report_def dpad_down_report_def)
  ultimately show ?thesis using example_client_usage[OF r] r by simp
qed

text \<open>A floating-point value converts to \<^verbatim>\<open>uint8_t\<close> only if its integral part is between 0 and 255.\<close>

definition converts_to_u8 :: "real \<Rightarrow> bool" where
  "converts_to_u8 x \<longleftrightarrow> -1 < x \<and> x < 256"

text \<open>
  The coordinates of the example leave the range of the conversion: in iteration 20 the value of \<^verbatim>\<open>cos(0.1 * i) * 20\<close> is
  below -1, so its conversion to \<^verbatim>\<open>uint8_t\<close> is undefined.
\<close>

theorem example_circle_out_of_range:
  "\<exists>i<pointing_iterations. cos (0.1 * real i) * 20 < -1 \<and> \<not> converts_to_u8 (cos (0.1 * real i) * 20)"
proof -
  have "\<bar>sin 1 - (\<Sum>m<5. sin_coeff m * 1 ^ m)\<bar> \<le> inverse (fact 5) * \<bar>1 :: real\<bar> ^ 5" by (rule Maclaurin_sin_bound)
  moreover have "(\<Sum>m<5. f m) = f 0 + f 1 + f 2 + f 3 + f 4" for f :: "nat \<Rightarrow> real" by (simp add: eval_nat_numeral)
  ultimately have "\<bar>sin 1 - 5 / 6\<bar> \<le> (1 / 120 :: real)" by (simp add: sin_coeff_def fact_numeral)
  then have "4 / 5 \<le> sin (1 :: real)" unfolding abs_le_iff by linarith
  then have "(4 / 5) ^ 2 \<le> sin (1 :: real) ^ 2" by (rule power_mono) simp
  moreover have "cos (2 * 1 :: real) = 1 - 2 * sin 1 ^ 2" by (rule cos_double_sin)
  ultimately have "cos (0.1 * real 20) * 20 < -1" by (simp add: power2_eq_square)
  then show ?thesis by (intro exI[of _ 20]) (simp add: pointing_iterations_def converts_to_u8_def)
qed

end
