(* ===== verification/Spec2Isabelle.thy ===== *)
theory Spec2Isabelle
  imports Report_Descriptor Hid_Report_Tests Driver_User_Client Client_Sessions Service_Stream Daemon Example_Client
begin

text \<open>
  \<^bold>\<open>Karabiner DriverKit virtual HID device: verification library\<close>

  \<^bold>\<open>The program.\<close> An application that wants to act as a keyboard or pointing device links the header-only
  client library. It talks over a Unix domain stream to the daemon, which runs as root and keeps, for
  each connected application (peer), up to three connections to the driver: one without virtual devices,
  to watch the driver, one for a keyboard and one for a pointing device. The driver runs in DriverKit;
  each connection is a user client that owns the virtual HID devices it was asked to create, and
  posts the reports it is sent to the HID system. Everything in the client library and the daemon runs as
  closures on one dispatcher thread; every handler here is one such closure (or one driver
  method), and the interleavings of the closures are the runs the invariants quantify over.

  \<^bold>\<open>Theories, in the order of the data flow\<close> (paths below \<^verbatim>\<open>src/\<close>; \<^verbatim>\<open>INC\<close> is
  \<^verbatim>\<open>include/pqrs/karabiner/driverkit\<close>, \<^verbatim>\<open>PQRS\<close> is \<^verbatim>\<open>vendor/vendor/include/pqrs\<close>)

  \<^item> \<^verbatim>\<open>Prelude\<close>: words, little- and big-endian byte images, the locale \<open>codec\<close> (an image of fixed size that determines
    its value) with its instances for 16, 32 and 64 bits, and shared list lemmas. The locale \<open>step_invariant\<close> lifts an invariant
    of a step relation to its reachable states (\<open>reaches\<close>), and every component with interleavings interprets it;
    \<open>refinement\<close> extends it by an abstract relation that each step follows.

  \<^item> \<^verbatim>\<open>Hid_Report\<close>: the report classes of \<^verbatim>\<open>INC/virtual_hid_device_driver/hid_report\<close> with their packed memory images.
    The locale \<open>pressed_set\<close> states what a set of pressed keys promises; the modifiers, the buttons and the key
    table are its interpretations, the key table as long as the presses fit into its 32 slots. \<^verbatim>\<open>Hid_Report_Tests\<close> runs
    the test programs of \<^verbatim>\<open>tests/src/hid_report\<close> on the model.

  \<^item> \<^verbatim>\<open>Report_Descriptor\<close>: the two descriptor byte arrays of \<^verbatim>\<open>org_pqrs_..._VirtualHIDKeyboard.cpp\<close> and \<^verbatim>\<open>...VirtualHIDPointing.cpp\<close>,
    and a reader of HID items as yardstick. \<open>read_report\<close> follows the declared layout through a report: it recovers every value
    from the memory images of the report classes.

  \<^item> \<^verbatim>\<open>Service_Protocol\<close>: request and response codes, versions, parameters and the construction of request buffers
    (\<^verbatim>\<open>INC/virtual_hid_device_service\<close>).

  \<^item> \<^verbatim>\<open>Service_Client\<close>: the client library, \<^verbatim>\<open>INC/virtual_hid_device_service/client.hpp\<close>. Each public method and each queued closure
    is an operation; the stream object it owns is a trace of effects. The locale \<open>ready_view\<close> carries
    the invariant that the flags agree with the signals, for both devices.

  \<^item> \<^verbatim>\<open>Dispatcher\<close>: the dispatcher of \<^verbatim>\<open>PQRS/dispatcher/dispatcher.hpp\<close>: its time-ordered queue, attach, detach, enqueue, terminate
    and the phases of the worker thread, interleaved by \<open>dispatcher_step\<close>; the test that an object is attached and the start of its
    function are two steps, since the code releases its mutex in between. \<^verbatim>\<open>Dispatcher_Client\<close>: the object ids of \<^verbatim>\<open>object_id.hpp\<close>
    and the helpers of \<^verbatim>\<open>PQRS/dispatcher/extra\<close>: the base class of clients, the debounced task, the timer and the shared
    dispatcher.

  \<^item> \<^verbatim>\<open>Stream_Protocol\<close>, \<^verbatim>\<open>Request_Manager\<close>: the frames, the connection end and the pending requests of
    \<^verbatim>\<open>PQRS/unix_domain_stream/impl\<close>. \<open>receive\<close> drives the read handlers with a stream of bytes.

  \<^item> \<^verbatim>\<open>Retry_Protocol\<close>: the abstract machine behind both ends of the stream: an attempt that fails is followed by a debounced
    retry unless the machine is stopped. \<^verbatim>\<open>Stream_Client\<close> (\<^verbatim>\<open>PQRS/unix_domain_stream/client.hpp\<close>) and \<^verbatim>\<open>Stream_Server\<close> (\<^verbatim>\<open>server.hpp\<close>): the
    closures of the io thread and of the dispatcher, the completion handlers, timers and slots. The client's theory and
    \<^verbatim>\<open>Stream_Server_Runs\<close> interleave them (\<open>cl_step\<close>, \<open>sr_step\<close>) and show them to refine the retry machine
    (interpretations \<open>cl_attempts\<close> and \<open>sr_binding\<close> of \<open>refinement\<close>). \<^verbatim>\<open>Stream_Sessions\<close>: what the signals of the server tell
    about one peer, as the automaton \<open>session_step\<close>, and what may still happen when the server is stopped.

  \<^item> \<^verbatim>\<open>Client_Sessions\<close>: the stream client under the client library: its signals as sessions, and the slots of the library run on them.

  \<^item> \<^verbatim>\<open>Service_Stream\<close>: the stream server under the service server: the slots of the daemon run on its signals, and a request goes
    from one end to the other and back.

  \<^item> \<^verbatim>\<open>Service_Server\<close>: \<^verbatim>\<open>src/Daemon/include/virtual_hid_device_service_server.hpp\<close>: request decoding and dispatch, answers, status
    delivery, and the creation of the stream server with its retries.

  \<^item> \<^verbatim>\<open>Clients_Manager\<close>: \<^verbatim>\<open>virtual_hid_device_service_clients_manager.hpp\<close> beside it: the entry of a peer with its devices, generations,
    delayed checks and status notifications. The locale \<open>entry_invariant\<close> reduces a step invariant to the
    operations of an entry; ownership of client objects, keyboard parameters and status notifications are its
    interpretations.

  \<^item> \<^verbatim>\<open>Io_Service_Client\<close>: \<^verbatim>\<open>io_service_client.hpp\<close>: the connection to the driver, the matched services, the version check and the
    driver calls. IOKit is the parameter \<open>iokit\<close>: what \<^verbatim>\<open>IOServiceOpen\<close> and the method calls answer. The
    invariants and the failover theorem hold for every such environment.

  \<^item> \<^verbatim>\<open>Driver_Interface\<close>, \<^verbatim>\<open>Driver_Device\<close>, \<^verbatim>\<open>Driver_User_Client\<close>: the driver: the method numbers; the two devices and the buffer utility;
    the user client with \<^verbatim>\<open>ExternalMethod\<close> and the root service. DriverKit is the parameter \<open>driverkit\<close>, its
    memory descriptors a table of reference counts, its HID system the list of posted reports.

  \<^item> \<^verbatim>\<open>Daemon\<close>: \<^verbatim>\<open>src/Daemon/src/main.cpp\<close>, \<^verbatim>\<open>logger.hpp\<close>, the start of the run loop (\<^verbatim>\<open>PQRS/cf/run_loop_thread.hpp\<close>) and the destructors of the
    server and of the objects it owns with their aborts (\<open>destroy_object\<close>). \<^verbatim>\<open>Example_Client\<close>: the example
    application \<^verbatim>\<open>examples/virtual-hid-device-service-client\<close>: its slots statement by statement, its threads and its termination.

  \<^item> This theory: properties that span the parts. The locale \<open>io_client_queries\<close> states what the manager relies on
    when it asks a driver connection for its state, and is interpreted on \<open>ioc\<close>.

  \<^bold>\<open>What is shown.\<close> End to end: a report written by the application is posted by the driver byte for byte; control
  requests and status messages are understood by the other side; a device is reported ready only with an
  open connection to a driver of the right version; a keyboard carries the identity it was requested with.
  Per part: the driver neither leaks nor over-releases memory; the daemon has exactly one open connection
  exactly while it says so and never calls a driver of another version; a virtual device has a driver client
  exactly while it is enabled, whatever delayed checks are pending; client objects are owned and never used after
  destruction; every request is answered once and every callback is called once; the stream delivers
  what was sent, and an end of it closes once; once a detach has returned no closure of the object runs, and between the erase and the return at most
  the one that was just found attached; closures run by due time and order of enqueue. The stream: a started client or server that is not connected or listening always has a pending
  closure or timer that leads to its next attempt, because it refines the retry machine; the signals of
  a peer form one session, with verified credentials; the daemon has an entry for exactly the open sessions; a request
  comes back to its own callback with the daemon's answer; no callback is lost or called twice; the library shows a device ready only
  while it is connected. The process: a search for an
  object id ends; of debounced calls only the latest runs; a signal destroys the server and every entry, without an abort, before the
  dispatcher is terminated; the example never calls a client it has destroyed, and its threads never call through a null pointer.

  Some theorems record behaviour that is probably unintended: a LED change is lost after a failed allocation
  (\<^verbatim>\<open>Driver_Device\<close>), an initialize directly after a terminate is lost (this theory), a status message overtaken by a stop
  survives it (\<^verbatim>\<open>Client_Sessions\<close>), a readiness answer can be attributed
  to a later connection (\<^verbatim>\<open>Io_Service_Client\<close>), a session can stay open after its connection is gone and a stopped server can announce
  a peer (\<^verbatim>\<open>Stream_Sessions\<close>), the entries
  of a torn-down stream server are inherited by new peers (\<^verbatim>\<open>Service_Stream\<close>), a user client whose \<^verbatim>\<open>init\<close> failed is freed
  through a null pointer (\<^verbatim>\<open>Driver_User_Client\<close>), and the example converts negative numbers to an unsigned type and can initialize a device
  through a pointer that was just reset (\<^verbatim>\<open>Example_Client\<close>).

  \<^bold>\<open>Conventions.\<close> Numbers keep their width (\<open>u8\<close> to \<open>u64\<close>); request ids and generations are counters that
  wrap around, and the theorems state the bound where this would matter (the \<^verbatim>\<open>int\<close> generations of a device overflow after \<open>2 ^ 31\<close> closures). Errors are values: \<open>kern_return\<close> in the driver, \<open>asio_error\<close>
  in the stream, \<open>Inl\<close> for thrown exceptions of the manager, \<open>None\<close> for a null pointer or an abort. An
  operation returns its new state and the effects it starts; enqueued closures are data, run by the step relations in any
  order the dispatcher allows. There is no fuel but in \<open>worker_loop\<close>, where the number of queued entries is shown to be
  enough; \<open>receive\<close> terminates because each frame consumes bytes; \<open>id_search\<close>, a loop that might not end, is shown to return.

  \<^bold>\<open>Not modelled.\<close> asio, IOKit, DriverKit, spdlog and the run loop, which are parameters, outcomes or effects; the
  creation of threads, mutexes and condition variables, whose effect is the order of steps the relations allow; service matching
  in IOKit, whose events are steps; what is written to the log; the printing of versions; the Swift manager application
  and the Swift example; the \<^verbatim>\<open>.iig\<close> interface files, packaging and build scripts.
\<close>

section \<open>From the client library to the manager\<close>

text \<open>The device a report belongs to and the driver method that posts it.\<close>

primrec report_device :: "hid_report \<Rightarrow> device" where
  "report_device (Report_keyboard_input r) = Keyboard"
| "report_device (Report_consumer_input r) = Keyboard"
| "report_device (Report_apple_vendor_keyboard_input r) = Keyboard"
| "report_device (Report_apple_vendor_top_case_input r) = Keyboard"
| "report_device (Report_generic_desktop_input r) = Keyboard"
| "report_device (Report_pointing_input r) = Pointing"

definition device_method :: "device \<Rightarrow> user_client_method" where
  "device_method d = (if d = Keyboard then method_virtual_hid_keyboard_post_report
                      else method_virtual_hid_pointing_post_report)"

lemma manager_post_report_sized:
  assumes "m peer = Some e" "vd_client (ce_device e d) = Some c" "length img = n"
  shows "manager_post_report d True peer (Some (make_request_buffer q @ img)) 3 k n m =
    Inr [Io_client_task c (Ioc_post_report k (Some (make_request_buffer q @ img)) 3)]"
  using assms
  by (simp add: manager_post_report_def in_dispatcher_thread_def on_device_client_def image_simps)

lemma report_dispatched:
  assumes "ss_server s" "ss_manager s peer = Some e" "report_shape r"
    and "vd_client (ce_device e (report_device r)) = Some c"
  shows "request_received views True peer i (make_request_buffer_with (report_request r) (report_image r)) s =
    Inr [On_entry peer (Io_client_task c (Ioc_post_report (device_method (report_device r))
           (Some (make_request_buffer_with (report_request r) (report_image r))) 3)),
         Server_respond peer i []]"
proof -
  let ?b = "make_request_buffer (report_request r) @ report_image r"
  have call: "manager_post_report (report_device r) True peer (Some ?b) 3 (device_method (report_device r))
      (report_size r) (ss_manager s) =
    Inr [Io_client_task c (Ioc_post_report (device_method (report_device r)) (Some ?b) 3)]"
    by (rule manager_post_report_sized[where m = "ss_manager s", OF assms(2,4) length_report_image[OF assms(3)]])
  have "dispatch_request views True peer i ?b 3 (Some (report_request r)) s =
      after_manager peer (manager_post_report (report_device r) True peer (Some ?b) 3
        (device_method (report_device r)) (report_size r) (ss_manager s)) (Inr (respond_empty peer i s))"
    by (cases r) (simp_all add: dispatch_request_def Let_def post_keyboard_report_def post_pointing_report_def
        device_method_def)
  then show ?thesis
    using assms(1)
    by (simp add: make_request_buffer_with_def request_received_client_buffer call after_manager_def respond_empty_def)
qed

text \<open>
  C18. The server understands the control requests of the client library: a keyboard initialization arrives
  at the peer's entry with exactly the parameters the application gave, and terminate and reset requests arrive as
  such; each is answered with the peer's status.
\<close>

theorem control_requests_understood:
  assumes "ss_server s" and "ss_manager s peer = Some e"
    and "(call, fx) \<in>
      {(Call_keyboard_initialize p True, [Enqueue_entry (Entry_initialize_keyboard p) 0]),
       (Call_keyboard_terminate, [Enqueue_entry Entry_terminate_keyboard 0]),
       (Call_pointing_initialize True, [Enqueue_entry Entry_initialize_pointing 0]),
       (Call_pointing_terminate, [Enqueue_entry Entry_terminate_pointing 0]),
       (Call_keyboard_reset, on_device_client Keyboard Ioc_keyboard_reset peer (ss_manager s)),
       (Call_pointing_reset, on_device_client Pointing Ioc_pointing_reset peer (ss_manager s))}"
  shows "\<exists>b. snd (run_call call cl) = [Task_request b] \<and>
    request_received views True peer i b s =
      Inr (map (On_entry peer) fx @ [Server_respond peer i (make_response (views peer) e)])"
proof -
  have status: "respond_status views True peer i s = Inr [Server_respond peer i (make_response (views peer) e)]"
    using assms(1,2) by (simp add: respond_status_def manager_make_response_def in_dispatcher_thread_def)
  have plain: "request_received views True peer i (make_request_buffer r) s =
      dispatch_request views True peer i (make_request_buffer r) 3 (Some r) s" for r
    using request_received_client_buffer[of views True peer i r "[]" s] by simp
  have init: "request_received views True peer i
      (make_request_buffer_with virtual_hid_keyboard_initialize (parameters_image p)) s =
      Inr [On_entry peer (Enqueue_entry (Entry_initialize_keyboard p) 0),
           Server_respond peer i (make_response (views peer) e)]"
    using assms(2) parameters_codec.dec_enc[of p] parameters_codec.enc_length[of p]
    by (simp add: make_request_buffer_with_def request_received_client_buffer dispatch_request_def Let_def
        image_simps initialize_keyboard_def manager_ops_in_thread after_manager_def status)
  from assms(2,3) init show ?thesis
    by (auto simp: client_op_defs plain dispatch_request_def Let_def manager_op_defs after_manager_def status)
qed

theorem control_requests_understood_witness:
  "\<exists>b. snd (run_call (Call_keyboard_initialize default_parameters True) service_client_init) = [Task_request b] \<and>
    request_received (\<lambda>p r. \<lparr>iv_driver_activated = True, iv_driver_connected = True,
      iv_driver_version_mismatched = False, iv_keyboard_ready = None, iv_pointing_ready = None\<rparr>) True 3 9 b server_demo =
     Inr [On_entry 3 (Enqueue_entry (Entry_initialize_keyboard default_parameters) 0),
          Server_respond 3 9 [1, 1, 2, 1, 3, 0, 4, 0, 5, 0]]"
proof -
  have s: "ss_server server_demo" "ss_manager server_demo 3 = Some (fst client_entry_new)"
    by (simp_all add: server_demo_def)
  show ?thesis
    using control_requests_understood[OF s, of "Call_keyboard_initialize default_parameters True"
        "[Enqueue_entry (Entry_initialize_keyboard default_parameters) 0]" default_parameters service_client_init
        "\<lambda>p r. \<lparr>iv_driver_activated = True, iv_driver_connected = True,
          iv_driver_version_mismatched = False, iv_keyboard_ready = None, iv_pointing_ready = None\<rparr>" 9]
    by (simp add: make_response_def append_response_def device_ready_def client_entry_new_def)
qed

section \<open>From the manager to the HID system\<close>

text \<open>The arguments with which the user client sees an \<^verbatim>\<open>IOConnectCallStructMethod\<close> of the daemon.\<close>

definition struct_arguments :: "bytes \<Rightarrow> method_arguments" where
  "struct_arguments bs = \<lparr>ma_scalarInput = [], ma_scalarOutput = None, ma_structureInput = Some (Some bs),
     ma_structureInputDescriptor = None\<rparr>"

text \<open>The device of the user client.\<close>

definition uc_has_device :: "device \<Rightarrow> user_client \<Rightarrow> bool" where
  "uc_has_device d uc = (if d = Keyboard then uc_keyboard uc \<noteq> None else uc_pointing uc \<noteq> None)"

lemma ioc_post_report_called:
  assumes "ioc_connection s \<noteq> 0" "ioc_driver_version s = Some embedded_driver_version" "off \<le> length b"
  shows "ioc_calls (fst (run_ioc_task env (Ioc_post_report k (Some b) off) s)) =
    ioc_calls s @ [Io_struct (ioc_connection s) (method_value k) (drop off b)]"
  using assms
  by (simp add: run_ioc_task_def ioc_post_report_def ioc_driver_connected_def ioc_driver_version_mismatched_def
      do_struct_def case_prod_beta)

lemma driver_posts:
  assumes "dk_reliable env" "uc_has_device d uc"
  shows "dk_posted (snd (snd (snd (ExternalMethod env version (ucast (method_value (device_method d)))
     (struct_arguments bs) uc w)))) = dk_posted w @ [posted_as bs]"
proof -
  have "method_of_selector (ucast (method_value (device_method d))) = Some (device_method d)"
    using method_of_selector_of_method[of "device_method d"] by (simp add: selector_of_method_def)
  then show ?thesis
    using assms(2) post_report_method_reliable[OF assms(1), of "struct_arguments bs" bs w]
    by (auto simp: ExternalMethod_def device_method_def uc_has_device_def struct_arguments_def case_prod_beta
        split: if_splits)
qed

text \<open>
  C1. A report reaches the HID system unchanged, from end to end: the bytes that the client library writes
  for a report are decoded by the daemon, queued for the driver connection of the right device, sent
  to the driver on the open connection of a driver of the right version, and handed by
  the driver to the HID system, once, as exactly the report's memory image.
\<close>

theorem report_reaches_hid_system:
  assumes "report_shape r"
    and "ss_server sv" and "ss_manager sv peer = Some e"
    and "vd_client (ce_device e (report_device r)) = Some c"
    and "ioc_connection s \<noteq> 0" and "ioc_driver_version s = Some embedded_driver_version"
    and "dk_reliable env" and "uc_has_device (report_device r) uc"
  shows "\<exists>b task bs. snd (async_post_report r cl) = [Task_request b] \<and>
    request_received views True peer i b sv =
      Inr [On_entry peer (Io_client_task c task), Server_respond peer i []] \<and>
    ioc_calls (fst (run_ioc_task io task s)) =
      ioc_calls s @ [Io_struct (ioc_connection s) (method_value (device_method (report_device r))) bs] \<and>
    dk_posted (snd (snd (snd (ExternalMethod env version
       (ucast (method_value (device_method (report_device r)))) (struct_arguments bs) uc w)))) =
      dk_posted w @ [posted_as (report_image r)]"
proof (intro exI conjI)
  let ?b = "make_request_buffer_with (report_request r) (report_image r)"
  show "snd (async_post_report r cl) = [Task_request ?b]"
    by (simp add: async_post_report_def async_request_def)
  show "request_received views True peer i ?b sv =
      Inr [On_entry peer (Io_client_task c (Ioc_post_report (device_method (report_device r)) (Some ?b) 3)),
           Server_respond peer i []]"
    by (rule report_dispatched[OF assms(2,3,1,4)])
  have b: "drop 3 ?b = report_image r" "3 \<le> length ?b"
    by (simp_all add: make_request_buffer_with_def image_simps)
  show "ioc_calls (fst (run_ioc_task io (Ioc_post_report (device_method (report_device r)) (Some ?b) 3) s)) =
      ioc_calls s @ [Io_struct (ioc_connection s) (method_value (device_method (report_device r))) (report_image r)]"
    using ioc_post_report_called[OF assms(5,6) b(2)] b(1) by simp
  show "dk_posted (snd (snd (snd (ExternalMethod env version
       (ucast (method_value (device_method (report_device r)))) (struct_arguments (report_image r)) uc w)))) =
      dk_posted w @ [posted_as (report_image r)]"
    by (rule driver_posts[OF assms(7,8)])
qed

theorem report_reaches_hid_system_witness:
  "\<exists>b task bs. snd (async_post_report (Report_pointing_input pointing_input_init) service_client_init) = [Task_request b] \<and>
    ioc_calls (fst (run_ioc_task io_two task ioc_demo)) = ioc_calls ioc_demo @ [Io_struct 1 7 bs] \<and>
    dk_posted (snd (snd (snd (ExternalMethod dk_unit 10800 7 (struct_arguments bs)
      \<lparr>uc_keyboardVendorId = 0, uc_keyboardProductId = 0, uc_keyboardCountryCode = 0,
       uc_keyboard = None, uc_pointing = Some new_pointing\<rparr> dk_idle)))) = [([0, 0, 0, 0, 0, 0, 0, 0], 8)]"
proof -
  let ?r = "Report_pointing_input pointing_input_init"
  let ?uc = "\<lparr>uc_keyboardVendorId = 0, uc_keyboardProductId = 0, uc_keyboardCountryCode = 0,
       uc_keyboard = None, uc_pointing = Some new_pointing\<rparr>"
  let ?e = "update_device Pointing (\<lambda>v. v\<lparr>vd_client := Some 1\<rparr>) (fst client_entry_new)"
  let ?sv = "server_demo\<lparr>ss_manager := [3 \<mapsto> ?e]\<rparr>"
  have c: "ioc_connection ioc_demo = 1" "ioc_driver_version ioc_demo = Some embedded_driver_version"
    by (simp_all add: ioc_eval embedded_driver_version_def)
  have image: "report_image ?r = [0, 0, 0, 0, 0, 0, 0, 0]"
  proof -
    have "le_bytes (Suc (Suc (Suc (Suc 0)))) (0 :: u32) = [0, 0, 0, 0]" by code_simp
    moreover have "Suc (Suc (Suc (Suc 0))) = 4" by simp
    ultimately have "le_bytes 4 (0 :: u32) = [0, 0, 0, 0]" by metis
    then show ?thesis
      by (simp add: pointing_input_image_def pointing_input_init_def buttons_init_def)
  qed
  have "\<exists>b task bs. snd (async_post_report ?r service_client_init) = [Task_request b] \<and>
      request_received (\<lambda>p r. undefined) True 3 9 b ?sv = Inr [On_entry 3 (Io_client_task 1 task), Server_respond 3 9 []] \<and>
      ioc_calls (fst (run_ioc_task io_two task ioc_demo)) =
        ioc_calls ioc_demo @ [Io_struct (ioc_connection ioc_demo) (method_value (device_method (report_device ?r))) bs] \<and>
      dk_posted (snd (snd (snd (ExternalMethod dk_unit 10800
        (ucast (method_value (device_method (report_device ?r)))) (struct_arguments bs) ?uc dk_idle)))) =
        dk_posted dk_idle @ [posted_as (report_image ?r)]"
    by (rule report_reaches_hid_system[where e = ?e, OF _ _ _ _ _ c(2) dk_unit_reliable])
      (simp_all add: c(1) server_demo_def uc_has_device_def)
  then show ?thesis
    unfolding c(1) image by (auto simp: device_method_def dk_idle_def)
qed

section \<open>From the driver back to the application\<close>

lemma handle_status:
  "handle_message (make_response views e) c =
    (c\<lparr>sc_last_keyboard_ready := Some (device_ready views Keyboard e),
       sc_last_pointing_ready := Some (device_ready views Pointing e)\<rparr>,
     map Emit [Sig_driver_activated (iv_driver_activated (views (ce_no_virtual_devices e))),
       Sig_driver_connected (iv_driver_connected (views (ce_no_virtual_devices e))),
       Sig_driver_version_mismatched (iv_driver_version_mismatched (views (ce_no_virtual_devices e))),
       Sig_virtual_hid_keyboard_ready (device_ready views Keyboard e),
       Sig_virtual_hid_pointing_ready (device_ready views Pointing e)])"
proof -
  have item: "handle_item (response_value r) v c' = (case r of
        response_none \<Rightarrow> (c', [])
      | driver_activated \<Rightarrow> (c', [Emit (Sig_driver_activated (v \<noteq> 0))])
      | driver_connected \<Rightarrow> (c', [Emit (Sig_driver_connected (v \<noteq> 0))])
      | driver_version_mismatched \<Rightarrow> (c', [Emit (Sig_driver_version_mismatched (v \<noteq> 0))])
      | virtual_hid_keyboard_ready \<Rightarrow>
          (c'\<lparr>sc_last_keyboard_ready := Some (v \<noteq> 0)\<rparr>, [Emit (Sig_virtual_hid_keyboard_ready (v \<noteq> 0))])
      | virtual_hid_pointing_ready \<Rightarrow>
          (c'\<lparr>sc_last_pointing_ready := Some (v \<noteq> 0)\<rparr>, [Emit (Sig_virtual_hid_pointing_ready (v \<noteq> 0))]))" for r v c'
    unfolding handle_item_def response_of_value_value by (simp split: response.split)
  show ?thesis
    unfolding make_response_def Let_def
    by (simp add: append_response_def handle_message_def item del: response_value.simps)
qed

text \<open>
  C4. The application learns the status as the daemon knows it: a status message of the daemon makes the
  client library emit exactly five signals, in order, with the values of the daemon's queries, and
  remember the readiness of the two devices.
\<close>

theorem status_understood:
  "handle_message (make_response views e) c =
    (c\<lparr>sc_last_keyboard_ready := Some (device_ready views Keyboard e),
       sc_last_pointing_ready := Some (device_ready views Pointing e)\<rparr>,
     map Emit [Sig_driver_activated (iv_driver_activated (views (ce_no_virtual_devices e))),
       Sig_driver_connected (iv_driver_connected (views (ce_no_virtual_devices e))),
       Sig_driver_version_mismatched (iv_driver_version_mismatched (views (ce_no_virtual_devices e))),
       Sig_virtual_hid_keyboard_ready (device_ready views Keyboard e),
       Sig_virtual_hid_pointing_ready (device_ready views Pointing e)])"
  by (rule handle_status)

text \<open>The calls of the client library for a device and the closure that terminates it.\<close>

definition initialize_call :: "device \<Rightarrow> virtual_hid_keyboard_parameters \<Rightarrow> bool \<Rightarrow> client_call" where
  "initialize_call d p force = (if d = Keyboard then Call_keyboard_initialize p force else Call_pointing_initialize force)"

definition terminate_call :: "device \<Rightarrow> client_call" where
  "terminate_call d = (if d = Keyboard then Call_keyboard_terminate else Call_pointing_terminate)"

definition terminate_task :: "device \<Rightarrow> entry_task" where
  "terminate_task d = (if d = Keyboard then Entry_terminate_keyboard else Entry_terminate_pointing)"

definition terminate_request :: "device \<Rightarrow> request" where
  "terminate_request d = (if d = Keyboard then virtual_hid_keyboard_terminate else virtual_hid_pointing_terminate)"

lemma terminate_dispatched:
  assumes "ss_server s" "ss_manager s peer = Some e"
  shows "request_received views True peer i (make_request_buffer (terminate_request d)) s =
    Inr [On_entry peer (Enqueue_entry (terminate_task d) 0), Server_respond peer i (make_response (views peer) e)]"
proof -
  have "respond_status views True peer i s = Inr [Server_respond peer i (make_response (views peer) e)]"
    using assms by (simp add: respond_status_def manager_make_response_def in_dispatcher_thread_def)
  then show ?thesis
    using request_received_client_buffer[of views True peer i "terminate_request d" "[]" s] assms(2)
    by (auto simp: terminate_request_def terminate_task_def dispatch_request_def Let_def manager_op_defs after_manager_def)
qed

text \<open>
  C37. An initialize right after a terminate is lost, and the device ends terminated: an application has initialized a
  device and received the daemon's status that it is ready. When it then terminates the device and at once initializes
  it with the same parameters, without \<^verbatim>\<open>force\<close>, the client library sends the terminate request alone, since its
  readiness flag is only changed by the daemon. The daemon runs the terminate on the peer's entry, which disables the device and
  destroys its client; and the device stays so whatever closures of the entry run afterwards, until one that
  initializes it.
\<close>

theorem initialize_after_terminate_lost:
  fixes d :: device and p :: virtual_hid_keyboard_parameters and force :: bool and c :: service_client
    and views :: views and e :: client_entry
  defines "c2 \<equiv> fst (handle_message (make_response views e) (fst (run_call (initialize_call d p force) c)))"
  assumes "device_ready views d e" and "ss_server s" and "ss_manager s peer = Some e'"
  shows "\<exists>b. snd (run_call (terminate_call d) c2) @
      snd (run_call (initialize_call d p False) (fst (run_call (terminate_call d) c2))) = [Task_request b] \<and>
    request_received views' True peer i b s =
      Inr [On_entry peer (Enqueue_entry (terminate_task d) 0), Server_respond peer i (make_response (views' peer) e')] \<and>
    (list_all (\<lambda>(v, task). \<not> initializes d task) ts \<longrightarrow>
      terminated d (fold (\<lambda>(v, task) e. fst (run_entry_task v task e)) ts (fst (run_entry_task v (terminate_task d) e'))))"
proof -
  let ?b = "make_request_buffer (terminate_request d)"
  have flags: "d = Keyboard \<Longrightarrow> sc_last_keyboard_ready c2 = Some True \<and> sc_last_parameters c2 = Some p"
    "d = Pointing \<Longrightarrow> sc_last_pointing_ready c2 = Some True"
    using assms(2) by (auto simp: c2_def handle_status initialize_call_def client_op_defs)
  have "snd (run_call (terminate_call d) c2) @
      snd (run_call (initialize_call d p False) (fst (run_call (terminate_call d) c2))) = [Task_request ?b]"
    using flags by (cases d) (simp_all add: terminate_call_def initialize_call_def terminate_request_def client_op_defs)
  moreover have "request_received views' True peer i ?b s =
      Inr [On_entry peer (Enqueue_entry (terminate_task d) 0), Server_respond peer i (make_response (views' peer) e')]"
    by (rule terminate_dispatched[OF assms(3,4)])
  moreover have "terminated d (fst (run_entry_task v (terminate_task d) e'))"
    using terminate_terminates by (cases d) (simp_all add: terminate_task_def)
  ultimately show ?thesis using terminated_fold by blast
qed

theorem initialize_after_terminate_lost_witness:
  "let views = \<lambda>r :: nat. \<lparr>iv_driver_activated = True, iv_driver_connected = True, iv_driver_version_mismatched = False,
         iv_keyboard_ready = Some True, iv_pointing_ready = None\<rparr>;
       c1 = fst (run_call (Call_keyboard_initialize default_parameters False) service_client_init);
       c2 = fst (handle_message (make_response views (es_entry entry_demo)) c1)
   in (\<exists>b. snd (run_call Call_keyboard_terminate c2) @
         snd (run_call (Call_keyboard_initialize default_parameters False) (fst (run_call Call_keyboard_terminate c2))) = [Task_request b] \<and>
       request_received (\<lambda>p. views) True 3 9 b \<lparr>ss_server = True, ss_retry_timer = False, ss_manager = [3 \<mapsto> es_entry entry_demo]\<rparr> =
         Inr [On_entry 3 (Enqueue_entry Entry_terminate_keyboard 0), Server_respond 3 9 (make_response views (es_entry entry_demo))] \<and>
       terminated Keyboard (fst (run_entry_task views Entry_initialize_pointing
         (fst (run_entry_task views Entry_terminate_keyboard (es_entry entry_demo))))))"
proof -
  let ?v = "\<lambda>r :: nat. \<lparr>iv_driver_activated = True, iv_driver_connected = True, iv_driver_version_mismatched = False,
      iv_keyboard_ready = Some True, iv_pointing_ready = None\<rparr>"
  have "device_ready ?v Keyboard (es_entry entry_demo)" by (simp add: entry_eval)
  from initialize_after_terminate_lost[OF this, of "\<lparr>ss_server = True, ss_retry_timer = False, ss_manager = [3 \<mapsto> es_entry entry_demo]\<rparr>"
      3 "es_entry entry_demo" default_parameters False service_client_init "\<lambda>p. ?v" 9 "[(?v, Entry_initialize_pointing)]" ?v]
  show ?thesis by (simp add: initialize_call_def terminate_call_def terminate_task_def initializes_def Let_def)
qed

text \<open>What the queries of an \<^verbatim>\<open>io_service_client\<close> in a given state answer.\<close>

definition ioc_view_of :: "'w iokit \<Rightarrow> 'w ioc \<Rightarrow> ioc_view" where
  "ioc_view_of env s = \<lparr>iv_driver_activated = ioc_driver_activated env s,
     iv_driver_connected = ioc_driver_connected s,
     iv_driver_version_mismatched = ioc_driver_version_mismatched s,
     iv_keyboard_ready = get_virtual_hid_keyboard_ready s,
     iv_pointing_ready = get_virtual_hid_pointing_ready s\<rparr>"

text \<open>
  The contract the manager has with the \<^verbatim>\<open>io_service_client\<close> objects: a readiness answer comes only from a
  connected driver of the right version.
\<close>

locale io_client_queries =
  fixes view :: "'s \<Rightarrow> ioc_view"
  assumes keyboard_answer: "iv_keyboard_ready (view s) \<noteq> None \<Longrightarrow>
       iv_driver_connected (view s) \<and> \<not> iv_driver_version_mismatched (view s)"
    and pointing_answer: "iv_pointing_ready (view s) \<noteq> None \<Longrightarrow>
       iv_driver_connected (view s) \<and> \<not> iv_driver_version_mismatched (view s)"
begin

lemma ready_connected:
  assumes "device_ready (\<lambda>r. view (objects r)) d e"
  shows "\<exists>r. vd_client (ce_device e d) = Some r \<and> iv_driver_connected (view (objects r)) \<and>
    \<not> iv_driver_version_mismatched (view (objects r))"
  using assms keyboard_answer pointing_answer
  by (auto simp: device_ready_def split: option.splits if_splits)

end

interpretation ioc_queries: io_client_queries "ioc_view_of env" for env
  by unfold_locales
    (auto simp: ioc_view_of_def get_virtual_hid_keyboard_ready_def get_virtual_hid_pointing_ready_def split: if_splits)

text \<open>
  C5. When the client library reports a device as ready after a status message, the daemon does hold an open
  connection for this device, to a driver of exactly the version the daemon was built for.
\<close>

theorem ready_signal_means_connected:
  assumes "\<And>r. ioc_reachable env (objects r)"
    and "sig = (if d = Keyboard then Sig_virtual_hid_keyboard_ready else Sig_virtual_hid_pointing_ready)"
    and "Emit (sig True) \<in> set (snd (handle_message (make_response (\<lambda>r. ioc_view_of env (objects r)) e) c))"
  shows "\<exists>r. vd_client (ce_device e d) = Some r \<and> ioc_connection (objects r) \<noteq> 0 \<and>
    ioc_driver_version (objects r) = Some embedded_driver_version"
proof -
  have "device_ready (\<lambda>r. ioc_view_of env (objects r)) d e"
    using assms(2,3) unfolding handle_status by (cases d) auto
  then obtain r where r: "vd_client (ce_device e d) = Some r" "iv_driver_connected (ioc_view_of env (objects r))"
    "\<not> iv_driver_version_mismatched (ioc_view_of env (objects r))"
    using ioc_queries.ready_connected by blast
  then have "ioc_driver_version (objects r) = Some embedded_driver_version"
    using guarded_version[of "objects r"] by (simp add: ioc_view_of_def)
  with r(1) ioc_reachable_inv[OF assms(1)[of r]] show ?thesis
    by (auto simp: ioc_inv_def)
qed

text \<open>A connection that has asked its driver and got the answer.\<close>

definition ioc_ready_demo :: "unit ioc" where
  "ioc_ready_demo = fst (run_ioc_task io_two (Ioc_set_keyboard_ready (Some True))
     ((fst (run_ioc_task io_two Ioc_keyboard_ready ioc_demo))\<lparr>ioc_queue := ioc_queue ioc_demo\<rparr>))"

lemma ioc_ready_demo_reachable: "ioc_reachable io_two ioc_ready_demo"
proof -
  let ?s1 = "ioc_enqueue Ioc_keyboard_ready ioc_demo"
  let ?s2 = "fst (run_ioc_task io_two Ioc_keyboard_ready ioc_demo)"
  have 1: "ioc_reachable io_two ?s1"
    by (rule ioc_reach_step[OF ioc_demo_reachable ioc_step_call]) simp
  have q1: "ioc_queue ?s1 = ioc_queue ioc_demo @ Ioc_keyboard_ready # []"
    and s1: "?s1\<lparr>ioc_queue := ioc_queue ioc_demo @ []\<rparr> = ioc_demo"
    by (simp_all add: ioc_enqueue_def)
  have 2: "ioc_reachable io_two ?s2"
    using ioc_reach_step[OF 1 ioc_step_run[OF q1]] unfolding s1 .
  have q2: "ioc_queue ?s2 = ioc_queue ioc_demo @ Ioc_set_keyboard_ready (Some True) # []"
    by (simp add: ioc_eval run_ioc_task_def call_ready_def ioc_driver_connected_def
        ioc_driver_version_mismatched_def embedded_driver_version_def)
  from ioc_reach_step[OF 2 ioc_step_run[OF q2]] show ?thesis by (simp add: ioc_ready_demo_def)
qed

theorem ready_signal_means_connected_witness:
  "Emit (Sig_virtual_hid_keyboard_ready True) \<in> set (snd (handle_message
      (make_response (\<lambda>r. ioc_view_of io_two ioc_ready_demo) (es_entry entry_demo)) service_client_init)) \<and>
   ioc_connection ioc_ready_demo \<noteq> 0"
proof -
  let ?v = "\<lambda>r :: nat. ioc_view_of io_two ioc_ready_demo"
  have k: "get_virtual_hid_keyboard_ready ioc_ready_demo = Some True"
    by (simp add: ioc_ready_demo_def ioc_eval run_ioc_task_def call_ready_def ioc_driver_connected_def
        ioc_driver_version_mismatched_def embedded_driver_version_def get_virtual_hid_keyboard_ready_def)
  have "vd_client (ce_device (es_entry entry_demo) Keyboard) = Some 1" by (simp add: entry_eval)
  with k have "device_ready ?v Keyboard (es_entry entry_demo)"
    by (simp add: device_ready_def ioc_view_of_def)
  then have e: "Emit (Sig_virtual_hid_keyboard_ready True) \<in> set (snd (handle_message
      (make_response ?v (es_entry entry_demo)) service_client_init))"
    unfolding handle_status by simp
  with ready_signal_means_connected[of io_two "\<lambda>r. ioc_ready_demo" Sig_virtual_hid_keyboard_ready Keyboard
      "es_entry entry_demo" service_client_init, OF ioc_ready_demo_reachable _ e]
  show ?thesis by simp
qed

section \<open>The identity of the keyboard\<close>

definition scalar_arguments :: "u64 list \<Rightarrow> method_arguments" where
  "scalar_arguments xs = \<lparr>ma_scalarInput = xs, ma_scalarOutput = None, ma_structureInput = None,
     ma_structureInputDescriptor = None\<rparr>"

text \<open>
  C17. The virtual keyboard shows the identity the application asked for: the initialization the daemon sends on
  an open connection carries the three parameters in the order the driver reads them, and a
  keyboard the driver creates for it and starts describes itself with them, as 32-bit numbers,
  whatever else happens on that user client.
\<close>

theorem keyboard_identity_as_requested:
  assumes "ioc_connection s \<noteq> 0" and "ioc_driver_version s = Some embedded_driver_version"
    and "uc_keyboard uc = None"
    and "ExternalMethod env version (selector_of_method method_virtual_hid_keyboard_initialize)
           (scalar_arguments [vendor_id p, product_id p, country_code p]) uc w = (kIOReturnSuccess, a, uc1, w1)"
    and "uc_steps env version (uc1, w1) (uc2, w2)"
    and "kb_provider kb"
  shows "ioc_calls (fst (run_ioc_task io (Ioc_keyboard_initialize p) s)) = ioc_calls s @
      [Io_scalar (ioc_connection s) (method_value method_virtual_hid_keyboard_initialize)
         [vendor_id p, product_id p, country_code p]] \<and>
    (\<exists>d. keyboard_newDeviceDescription ver True (\<lambda>_. True)
         (getKeyboardVendorId uc2, getKeyboardProductId uc2, getKeyboardCountryCode uc2) kb = Some d \<and>
       map_of d kIOHIDVendorIDKey = Some (OS_number (ucast (vendor_id p))) \<and>
       map_of d kIOHIDProductIDKey = Some (OS_number (ucast (product_id p))) \<and>
       map_of d kIOHIDCountryCodeKey = Some (OS_number (ucast (country_code p))))"
proof -
  have 1: "uc_keyboard uc1 \<noteq> None \<and>
      keyboard_ids uc1 = (ucast (vendor_id p), ucast (product_id p), ucast (country_code p))"
    using assms(3,4)
    by (auto simp: ExternalMethod_def keyboard_initialize_method_def scalar_arguments_def Let_def
        split: prod.splits if_splits)
  have "keyboard_ids uc2 = keyboard_ids uc1"
    using keyboard_latched_steps[OF assms(5)] 1 by blast
  with 1 have ids: "getKeyboardVendorId uc2 = ucast (vendor_id p)" "getKeyboardProductId uc2 = ucast (product_id p)"
    "getKeyboardCountryCode uc2 = ucast (country_code p)"
    by (auto simp: getKeyboardVendorId_def getKeyboardProductId_def getKeyboardCountryCode_def)
  show ?thesis
    using assms(1,2,6)
    by (simp add: run_ioc_task_def call_scalar_method_def ioc_driver_connected_def ioc_driver_version_mismatched_def
        do_scalar_def case_prod_beta keyboard_newDeviceDescription_def set_property_def Let_def ids)
qed

theorem keyboard_identity_as_requested_witness:
  "map_of (the (keyboard_newDeviceDescription ''1.8.0'' True (\<lambda>_. True) (0x16c0, 0x27db, 0)
     \<lparr>kb_provider = True, kb_ready = True, kb_lastLedState = 0\<rparr>)) kIOHIDVendorIDKey = Some (OS_number 0x16c0)"
proof -
  let ?uc = "\<lparr>uc_keyboardVendorId = 0, uc_keyboardProductId = 0, uc_keyboardCountryCode = 0,
       uc_keyboard = None, uc_pointing = None\<rparr>"
  let ?uc1 = "\<lparr>uc_keyboardVendorId = 0x16c0, uc_keyboardProductId = 0x27db, uc_keyboardCountryCode = 0,
       uc_keyboard = Some new_keyboard, uc_pointing = None\<rparr>"
  let ?a = "scalar_arguments [vendor_id default_parameters, product_id default_parameters, country_code default_parameters]"
  let ?kb = "\<lparr>kb_provider = True, kb_ready = True, kb_lastLedState = 0\<rparr>"
  have c: "ioc_connection ioc_demo \<noteq> 0" "ioc_driver_version ioc_demo = Some embedded_driver_version"
    by (simp_all add: ioc_eval embedded_driver_version_def)
  have m: "ExternalMethod dk_unit 10800 (selector_of_method method_virtual_hid_keyboard_initialize) ?a ?uc dk_idle =
      (kIOReturnSuccess, ?a, ?uc1, dk_idle)"
    by (simp add: ExternalMethod_def keyboard_initialize_method_def scalar_arguments_def dk_unit_def dk_idle_def
        default_parameters_def country_code_not_supported_def)
  show ?thesis
    using keyboard_identity_as_requested[OF c _ m rtranclp.rtrancl_refl, of ?kb io_two "''1.8.0''"]
    by (auto simp: getKeyboardVendorId_def getKeyboardProductId_def getKeyboardCountryCode_def
        default_parameters_def country_code_not_supported_def)
qed

end
